(* ===== verification/V6Prelude.thy ===== *)
theory V6Prelude
  imports Main "HOL-Library.Word" "HOL-Library.Sublist" "HOL-Library.Monad_Syntax"
    "HOL-Library.Product_Lexorder"
begin

text \<open>
  The prelude of the development: the machine integers of the Rust program, panics as values, the
  checked reads that Rust performs on slices, and the generic facts about lists that several
  components share.

  A Rust computation that may panic has type \<open>'a run\<close>: \<open>panic\<close> is the
  aborted task, \<open>ret v\<close> a value. A function that returns an \<open>Option\<close> and may
  panic therefore has type \<open>'a option run\<close>. The sequencing is the option monad.
\<close>

section \<open>Machine integers and bytes\<close>

type_synonym u8 = "8 word"
type_synonym u16 = "16 word"
type_synonym u32 = "32 word"
type_synonym u64 = "64 word"
type_synonym u128 = "128 word"
type_synonym bytes = "8 word list"

text \<open>Big-endian integers of two and of four bytes (\<open>from_be_bytes\<close>).\<close>

definition u16_from_be_bytes :: "u8 \<Rightarrow> u8 \<Rightarrow> u16" where
  "u16_from_be_bytes a b = or (push_bit 8 (ucast a)) (ucast b)"

definition u32_from_be_bytes :: "u8 \<Rightarrow> u8 \<Rightarrow> u8 \<Rightarrow> u8 \<Rightarrow> u32" where
  "u32_from_be_bytes a b c d =
     or (push_bit 24 (ucast a)) (or (push_bit 16 (ucast b)) (or (push_bit 8 (ucast c)) (ucast d)))"

definition be_bytes16 :: "u16 \<Rightarrow> bytes" where
  "be_bytes16 w = [ucast (drop_bit 8 w), ucast w]"

section \<open>Panics\<close>

type_synonym 'a run = "'a option"

abbreviation (input) panic :: "'a run" where "panic \<equiv> None"
abbreviation (input) ret :: "'a \<Rightarrow> 'a run" where "ret \<equiv> Some"

text \<open>\<open>xs[i]\<close>, \<open>&xs[a..b]\<close> and \<open>&xs[a..]\<close> of Rust: out of range is a panic.\<close>

definition idx :: "'a list \<Rightarrow> nat \<Rightarrow> 'a run" where
  "idx xs i = (if i < length xs then ret (xs ! i) else panic)"

definition subslice :: "'a list \<Rightarrow> nat \<Rightarrow> nat \<Rightarrow> 'a list run" where
  "subslice xs a b = (if a \<le> b \<and> b \<le> length xs then ret (take (b - a) (drop a xs)) else panic)"

definition slice_from :: "'a list \<Rightarrow> nat \<Rightarrow> 'a list run" where
  "slice_from xs a = (if a \<le> length xs then ret (drop a xs) else panic)"

text \<open>The \<open>?\<close> operator of a function that returns an \<open>Option\<close>.\<close>

definition opt_try :: "'a option \<Rightarrow> ('a \<Rightarrow> 'b option run) \<Rightarrow> 'b option run" where
  "opt_try x f = (case x of None \<Rightarrow> ret None | Some v \<Rightarrow> f v)"

text \<open>The \<open>?\<close> operator of a function that returns a \<open>Result\<close>.\<close>

definition res_try :: "'e + 'a \<Rightarrow> ('a \<Rightarrow> 'e + 'b) \<Rightarrow> 'e + 'b" where
  "res_try x f = (case x of Inl e \<Rightarrow> Inl e | Inr v \<Rightarrow> f v)"

text \<open>\<open>.with_context(...)\<close> and \<open>.context(...)\<close>: wrap the error.\<close>

definition map_err :: "('e \<Rightarrow> 'f) \<Rightarrow> 'e + 'a \<Rightarrow> 'f + 'a" where
  "map_err w x = (case x of Inl e \<Rightarrow> Inl (w e) | Inr v \<Rightarrow> Inr v)"

text \<open>\<open>.ok()\<close> and \<open>.collect::<Result<Vec<_>>>()\<close> over a mapped list.\<close>

definition res_ok :: "'e + 'a \<Rightarrow> 'a option" where
  "res_ok x = (case x of Inl e \<Rightarrow> None | Inr v \<Rightarrow> Some v)"

fun collect_results :: "('a \<Rightarrow> 'e + 'b) \<Rightarrow> 'a list \<Rightarrow> 'e + 'b list" where
  "collect_results f [] = Inr []"
| "collect_results f (x # xs) =
     (case f x of Inl e \<Rightarrow> Inl e
      | Inr y \<Rightarrow> (case collect_results f xs of Inl e \<Rightarrow> Inl e | Inr ys \<Rightarrow> Inr (y # ys)))"

section \<open>Facts about checked reads\<close>

named_theorems run_simps \<open>evaluation of checked reads that are in range\<close>
named_theorems str_defs \<open>definitions of the string operations, for evaluation\<close>

lemma idx_in_range [run_simps]: "i < length xs \<Longrightarrow> idx xs i = Some (xs ! i)"
  by (simp add: idx_def)

lemma subslice_in_range [run_simps]:
  "a \<le> b \<Longrightarrow> b \<le> length xs \<Longrightarrow> subslice xs a b = Some (take (b - a) (drop a xs))"
  by (simp add: subslice_def)

lemma slice_from_in_range [run_simps]: "a \<le> length xs \<Longrightarrow> slice_from xs a = Some (drop a xs)"
  by (simp add: slice_from_def)

lemma opt_try_simps [simp]:
  "opt_try None f = Some None" "opt_try (Some v) f = f v"
  by (simp_all add: opt_try_def)

lemma opt_try_eq_None: "opt_try x f = None \<longleftrightarrow> (\<exists>v. x = Some v \<and> f v = None)"
  by (cases x) auto

lemma res_try_simps [simp]:
  "res_try (Inl e) f = Inl e" "res_try (Inr v) f = f v"
  by (simp_all add: res_try_def)

lemma res_try_eq_Inr: "res_try x f = Inr b \<longleftrightarrow> (\<exists>a. x = Inr a \<and> f a = Inr b)"
  by (cases x) auto

lemma map_err_simps [simp]:
  "map_err w (Inl e) = Inl (w e)" "map_err w (Inr v) = Inr v"
  by (simp_all add: map_err_def)

lemma map_err_eq_Inr: "map_err w x = Inr v \<longleftrightarrow> x = Inr v"
  by (cases x) auto

lemma res_ok_simps [simp]:
  "res_ok (Inl e) = None" "res_ok (Inr v) = Some v"
  by (simp_all add: res_ok_def)

lemma res_ok_eq_Some: "res_ok x = Some v \<longleftrightarrow> x = Inr v"
  by (cases x) auto

section \<open>Collecting results\<close>

lemma collect_results_Inr_iff:
  "collect_results f xs = Inr ys \<longleftrightarrow> list_all2 (\<lambda>x y. f x = Inr y) xs ys"
proof (induction xs arbitrary: ys)
  case Nil
  then show ?case by auto
next
  case (Cons x xs)
  show ?case
  proof (cases ys)
    case Nil
    then show ?thesis by (simp split: sum.splits)
  next
    case (Cons y ys')
    then show ?thesis
      using Cons.IH [of ys'] by (cases "f x"; cases "collect_results f xs") auto
  qed
qed

lemma collect_results_ok:
  "(\<forall>x \<in> set xs. \<exists>y. f x = Inr y) \<Longrightarrow> \<exists>ys. collect_results f xs = Inr ys"
  by (induction xs) (auto split: sum.splits)

lemma collect_results_set:
  "collect_results f xs = Inr ys \<Longrightarrow> set ys = {y. \<exists>x \<in> set xs. f x = Inr y}"
proof (induction xs arbitrary: ys)
  case Nil
  then show ?case by simp
next
  case (Cons x xs)
  then obtain y ys' where "f x = Inr y" "collect_results f xs = Inr ys'" "ys = y # ys'"
    by (auto split: sum.splits)
  with Cons.IH show ?case by auto
qed

lemma collect_results_error:
  "(\<exists>e. collect_results f xs = Inl e) \<longleftrightarrow> (\<exists>x \<in> set xs. \<exists>e. f x = Inl e)"
proof (induction xs)
  case Nil
  then show ?case by simp
next
  case (Cons x xs)
  then show ?case by (cases "f x"; cases "collect_results f xs") auto
qed

lemma collect_results_length: "collect_results f xs = Inr ys \<Longrightarrow> length ys = length xs"
  by (auto simp: collect_results_Inr_iff dest: list_all2_lengthD)

section \<open>Big-endian bytes\<close>

lemma u16_from_be_bytes_le: "unat (u16_from_be_bytes a b) \<le> 65535"
  using unsigned_less [of "u16_from_be_bytes a b", where ?'a = nat] by simp

lemma u16_be_roundtrip:
  "u16_from_be_bytes (ucast (drop_bit 8 w)) (ucast w) = (w :: u16)"
  by (rule bit_word_eqI) (auto simp: u16_from_be_bytes_def bit_simps)

lemma length_be_bytes16 [simp]: "length (be_bytes16 w) = 2"
  by (simp add: be_bytes16_def)

end
