(* ===== verification/RustStr.thy ===== *)
theory RustStr
  imports V6Prelude
begin

text \<open>
  The operations of Rust's \<open>str\<close> and \<open>String\<close> that the program calls. A string is its
  UTF-8 byte sequence, one \<open>char\<close> of HOL per byte, so a searched ASCII character or
  substring is searched byte by byte, as the standard library does, and the Unicode white-space
  characters are their encodings.
\<close>

section \<open>Characters\<close>

definition code :: "char \<Rightarrow> nat" where
  "code c = of_char c"

text \<open>\<open>char::to_digit(radix)\<close> for the radixes 10 and 16.\<close>

definition to_digit :: "nat \<Rightarrow> char \<Rightarrow> nat option" where
  "to_digit radix c =
     (let n = code c;
          d = (if 48 \<le> n \<and> n \<le> 57 then n - 48
               else if 97 \<le> n \<and> n \<le> 122 then n - 87
               else if 65 \<le> n \<and> n \<le> 90 then n - 55
               else radix)
      in if d < radix then Some d else None)"

text \<open>\<open>to_ascii_lowercase\<close>.\<close>

definition lower_char :: "char \<Rightarrow> char" where
  "lower_char c = (if 65 \<le> code c \<and> code c \<le> 90 then char_of (code c + 32) else c)"

definition to_ascii_lowercase :: "string \<Rightarrow> string" where
  "to_ascii_lowercase s = map lower_char s"

section \<open>White space and trimming\<close>

text \<open>The UTF-8 encodings of the 25 characters with the Unicode property White_Space.\<close>

definition white_space :: "string list" where
  "white_space =
     [[CHR 0x09], [CHR 0x0A], [CHR 0x0B], [CHR 0x0C], [CHR 0x0D], [CHR 0x20],
      [CHR 0xC2, CHR 0x85], [CHR 0xC2, CHR 0xA0], [CHR 0xE1, CHR 0x9A, CHR 0x80],
      [CHR 0xE2, CHR 0x80, CHR 0x80], [CHR 0xE2, CHR 0x80, CHR 0x81],
      [CHR 0xE2, CHR 0x80, CHR 0x82], [CHR 0xE2, CHR 0x80, CHR 0x83],
      [CHR 0xE2, CHR 0x80, CHR 0x84], [CHR 0xE2, CHR 0x80, CHR 0x85],
      [CHR 0xE2, CHR 0x80, CHR 0x86], [CHR 0xE2, CHR 0x80, CHR 0x87],
      [CHR 0xE2, CHR 0x80, CHR 0x88], [CHR 0xE2, CHR 0x80, CHR 0x89],
      [CHR 0xE2, CHR 0x80, CHR 0x8A], [CHR 0xE2, CHR 0x80, CHR 0xA8],
      [CHR 0xE2, CHR 0x80, CHR 0xA9], [CHR 0xE2, CHR 0x80, CHR 0xAF],
      [CHR 0xE2, CHR 0x81, CHR 0x9F], [CHR 0xE3, CHR 0x80, CHR 0x80]]"

definition contains_ws :: "string \<Rightarrow> bool" where
  "contains_ws s = list_ex (\<lambda>w. sublist w s) white_space"

lemma white_space_nonempty: "w \<in> set white_space \<Longrightarrow> w \<noteq> []"
  by (auto simp: white_space_def)

lemma find_white_space: "find P white_space = Some w \<Longrightarrow> w \<in> set white_space \<and> P w"
  by (auto simp: find_Some_iff)

function trim_start :: "string \<Rightarrow> string" where
  "trim_start s =
     (case find (\<lambda>w. prefix w s) white_space of
        None \<Rightarrow> s
      | Some w \<Rightarrow> trim_start (drop (length w) s))"
  by pat_completeness auto
termination
proof (relation "measure length")
  fix s w
  assume "find (\<lambda>w. prefix w s) white_space = Some w"
  then have "w \<noteq> []" "prefix w s"
    using find_white_space white_space_nonempty by blast+
  then show "(drop (length w) s, s) \<in> measure length"
    by (auto simp: prefix_def)
qed simp

function trim_end :: "string \<Rightarrow> string" where
  "trim_end s =
     (case find (\<lambda>w. suffix w s) white_space of
        None \<Rightarrow> s
      | Some w \<Rightarrow> trim_end (take (length s - length w) s))"
  by pat_completeness auto
termination
proof (relation "measure length")
  fix s w
  assume "find (\<lambda>w. suffix w s) white_space = Some w"
  then have "w \<noteq> []" "suffix w s"
    using find_white_space white_space_nonempty by blast+
  then show "(take (length s - length w) s, s) \<in> measure length"
    by (auto simp: suffix_def)
qed simp

declare trim_start.simps [simp del] trim_end.simps [simp del]

definition trim :: "string \<Rightarrow> string" where
  "trim s = trim_end (trim_start s)"

text \<open>\<open>trim_end_matches(c)\<close> for one ASCII character.\<close>

definition trim_end_matches :: "char \<Rightarrow> string \<Rightarrow> string" where
  "trim_end_matches c s = rev (dropWhile (\<lambda>x. x = c) (rev s))"

section \<open>Searching and splitting\<close>

definition strip_prefix :: "string \<Rightarrow> string \<Rightarrow> string option" where
  "strip_prefix p s = (if prefix p s then Some (drop (length p) s) else None)"

definition starts_with :: "string \<Rightarrow> string \<Rightarrow> bool" where
  "starts_with s p = prefix p s"

text \<open>\<open>s.contains(c)\<close> for an ASCII character and \<open>s.contains(k)\<close> for a string.\<close>

definition contains_char :: "char \<Rightarrow> string \<Rightarrow> bool" where
  "contains_char c s = (c \<in> set s)"

definition contains_str :: "string \<Rightarrow> string \<Rightarrow> bool" where
  "contains_str k s = sublist k s"

fun split_on :: "char \<Rightarrow> string \<Rightarrow> string list" where
  "split_on c [] = [[]]"
| "split_on c (x # xs) =
     (if x = c then [] # split_on c xs
      else (case split_on c xs of [] \<Rightarrow> [[x]] | p # ps \<Rightarrow> (x # p) # ps))"

text \<open>\<open>split_once(c)\<close>, \<open>find(c)\<close>, \<open>rfind(c)\<close> and \<open>matches(c).count()\<close>.\<close>

definition split_once :: "char \<Rightarrow> string \<Rightarrow> (string \<times> string) option" where
  "split_once c s =
     (case dropWhile (\<lambda>x. x \<noteq> c) s of
        [] \<Rightarrow> None
      | _ # rest \<Rightarrow> Some (takeWhile (\<lambda>x. x \<noteq> c) s, rest))"

definition find_char :: "char \<Rightarrow> string \<Rightarrow> nat option" where
  "find_char c s =
     (if c \<in> set s then Some (length (takeWhile (\<lambda>x. x \<noteq> c) s)) else None)"

definition rfind_char :: "char \<Rightarrow> string \<Rightarrow> nat option" where
  "rfind_char c s =
     (if c \<in> set s then Some (length s - 1 - length (takeWhile (\<lambda>x. x \<noteq> c) (rev s))) else None)"

definition count_char :: "char \<Rightarrow> string \<Rightarrow> nat" where
  "count_char c s = length (filter (\<lambda>x. x = c) s)"

text \<open>
  \<open>str::lines\<close>: the text is cut after every line feed; a line that had one also loses a carriage
  return before it; an empty rest after the last line feed is no line.
\<close>

definition strip_cr :: "string \<Rightarrow> string" where
  "strip_cr s = (if s \<noteq> [] \<and> last s = CHR 0x0D then butlast s else s)"

fun finish_lines :: "string list \<Rightarrow> string list" where
  "finish_lines [] = []"
| "finish_lines [l] = (if l = [] then [] else [l])"
| "finish_lines (l # ls) = strip_cr l # finish_lines ls"

definition str_lines :: "string \<Rightarrow> string list" where
  "str_lines s = finish_lines (split_on (CHR 0x0A) s)"

section \<open>UTF-8 validation\<close>

definition in_range :: "u8 \<Rightarrow> u8 \<Rightarrow> u8 \<Rightarrow> bool" where
  "in_range lo hi b = (lo \<le> b \<and> b \<le> hi)"

text \<open>
  The well-formed byte sequences of Unicode's table 3-7, as \<open>core::str::from_utf8\<close> accepts them:
  no overlong forms, no surrogates, nothing above U+10FFFF.
\<close>

fun utf8_valid :: "bytes \<Rightarrow> bool" where
  "utf8_valid [] = True"
| "utf8_valid (a # r) =
     (if a < 0x80 then utf8_valid r
      else (case r of
        [] \<Rightarrow> False
      | b # r1 \<Rightarrow>
         (if in_range 0xC2 0xDF a then in_range 0x80 0xBF b \<and> utf8_valid r1
          else (case r1 of
            [] \<Rightarrow> False
          | c # r2 \<Rightarrow>
             (if a = 0xE0 then in_range 0xA0 0xBF b \<and> in_range 0x80 0xBF c \<and> utf8_valid r2
              else if in_range 0xE1 0xEC a \<or> in_range 0xEE 0xEF a
                then in_range 0x80 0xBF b \<and> in_range 0x80 0xBF c \<and> utf8_valid r2
              else if a = 0xED
                then in_range 0x80 0x9F b \<and> in_range 0x80 0xBF c \<and> utf8_valid r2
              else (case r2 of
                [] \<Rightarrow> False
              | d # r3 \<Rightarrow>
                 (if a = 0xF0 then in_range 0x90 0xBF b \<and> in_range 0x80 0xBF c
                    \<and> in_range 0x80 0xBF d \<and> utf8_valid r3
                  else if in_range 0xF1 0xF3 a then in_range 0x80 0xBF b \<and> in_range 0x80 0xBF c
                    \<and> in_range 0x80 0xBF d \<and> utf8_valid r3
                  else if a = 0xF4 then in_range 0x80 0x8F b \<and> in_range 0x80 0xBF c
                    \<and> in_range 0x80 0xBF d \<and> utf8_valid r3
                  else False)))))))"

definition char_of_byte :: "u8 \<Rightarrow> char" where
  "char_of_byte b = char_of (unat b)"

definition byte_of_char :: "char \<Rightarrow> u8" where
  "byte_of_char c = of_nat (code c)"

definition str_of_bytes :: "bytes \<Rightarrow> string" where
  "str_of_bytes bs = map char_of_byte bs"

definition bytes_of_str :: "string \<Rightarrow> bytes" where
  "bytes_of_str s = map byte_of_char s"

definition from_utf8 :: "bytes \<Rightarrow> string option" where
  "from_utf8 bs = (if utf8_valid bs then Some (str_of_bytes bs) else None)"

section \<open>Integers\<close>

text \<open>
  \<open>from_str_radix\<close> of an unsigned type with \<open>bound\<close> values: an optional plus sign, at least one
  digit, and no intermediate result that overflows.
\<close>

fun acc_digits :: "nat \<Rightarrow> nat \<Rightarrow> nat \<Rightarrow> string \<Rightarrow> nat option" where
  "acc_digits radix bound acc [] = Some acc"
| "acc_digits radix bound acc (c # cs) =
     (case to_digit radix c of
        None \<Rightarrow> None
      | Some d \<Rightarrow>
          (let v = acc * radix + d
           in if v < bound then acc_digits radix bound v cs else None))"

definition parse_uint :: "nat \<Rightarrow> nat \<Rightarrow> string \<Rightarrow> nat option" where
  "parse_uint radix bound s =
     (case s of
        [] \<Rightarrow> None
      | c # cs \<Rightarrow>
          (if c = CHR ''+'' then (if cs = [] then None else acc_digits radix bound 0 cs)
           else acc_digits radix bound 0 s))"

text \<open>The digit characters and the formats \<open>{}\<close>, \<open>{:x}\<close> and \<open>{:016x}\<close>.\<close>

definition digit_char :: "nat \<Rightarrow> char" where
  "digit_char d = (if d < 10 then char_of (48 + d) else char_of (87 + d))"

fun digits_rev :: "nat \<Rightarrow> nat \<Rightarrow> nat \<Rightarrow> nat list" where
  "digits_rev 0 radix n = []"
| "digits_rev (Suc k) radix n = (n mod radix) # digits_rev k radix (n div radix)"

lemma digits_rev_numeral [simp]:
  "digits_rev (numeral k) radix n = (n mod radix) # digits_rev (pred_numeral k) radix (n div radix)"
  by (simp add: numeral_eq_Suc)

definition fixed_digits :: "nat \<Rightarrow> nat \<Rightarrow> nat \<Rightarrow> string" where
  "fixed_digits k radix n = map digit_char (rev (digits_rev k radix n))"

definition format_0x016 :: "u64 \<Rightarrow> string" where
  "format_0x016 w = ''0x'' @ fixed_digits 16 16 (unat w)"

section \<open>Facts about characters\<close>

lemmas char_evals = code_def to_digit_def lower_char_def

lemma code_less_256: "code c < 256"
  by (simp add: code_def)

lemma code_char_of: "n < 256 \<Longrightarrow> code (char_of n) = n"
  by (simp add: code_def)

lemma char_of_code: "char_of (code c) = c"
  by (simp add: code_def)

lemma code_eq_iff: "code c = code d \<longleftrightarrow> c = d"
  by (metis char_of_code)

lemma code_lower_char:
  "code (lower_char c) = (if 65 \<le> code c \<and> code c \<le> 90 then code c + 32 else code c)"
  by (simp add: lower_char_def code_char_of)

lemma lower_char_idem [simp]: "lower_char (lower_char c) = lower_char c"
  by (simp add: code_eq_iff [symmetric] code_lower_char)

lemma to_ascii_lowercase_idem [simp]:
  "to_ascii_lowercase (to_ascii_lowercase s) = to_ascii_lowercase s"
  by (simp add: to_ascii_lowercase_def)

lemma to_ascii_lowercase_Nil [simp]: "to_ascii_lowercase s = [] \<longleftrightarrow> s = []"
  by (simp add: to_ascii_lowercase_def)

lemma length_to_ascii_lowercase [simp]: "length (to_ascii_lowercase s) = length s"
  by (simp add: to_ascii_lowercase_def)

text \<open>A character that is no ASCII letter is the lower case of itself only.\<close>

definition caseless :: "char \<Rightarrow> bool" where
  "caseless c = (\<not> (65 \<le> code c \<and> code c \<le> 90) \<and> \<not> (97 \<le> code c \<and> code c \<le> 122))"

lemma lower_char_caseless: "caseless d \<Longrightarrow> lower_char c = d \<longleftrightarrow> c = d"
  by (auto simp: caseless_def code_eq_iff [symmetric] code_lower_char split: if_splits)

lemma map_lower_caseless: "list_all caseless w \<Longrightarrow> map lower_char x = w \<longleftrightarrow> x = w"
proof (induction w arbitrary: x)
  case (Cons d w)
  then show ?case by (cases x) (auto simp: lower_char_caseless)
qed simp

lemma white_space_caseless: "w \<in> set white_space \<Longrightarrow> list_all caseless w"
  by (auto simp: white_space_def caseless_def code_def)

lemma prefix_lower_iff:
  assumes "w \<in> set white_space"
  shows "prefix w (to_ascii_lowercase s) \<longleftrightarrow> prefix w s"
proof
  assume "prefix w (to_ascii_lowercase s)"
  then obtain x where "prefix x s" "w = map lower_char x"
    unfolding to_ascii_lowercase_def using prefix_map_rightE by metis
  with assms show "prefix w s"
    using map_lower_caseless white_space_caseless by metis
next
  assume "prefix w s"
  then have "prefix (map lower_char w) (to_ascii_lowercase s)"
    by (simp add: to_ascii_lowercase_def map_mono_prefix)
  moreover have "map lower_char w = w"
    using assms map_lower_caseless white_space_caseless by blast
  ultimately show "prefix w (to_ascii_lowercase s)" by simp
qed

lemma suffix_lower_iff:
  assumes "w \<in> set white_space"
  shows "suffix w (to_ascii_lowercase s) \<longleftrightarrow> suffix w s"
proof
  assume "suffix w (to_ascii_lowercase s)"
  then obtain x where "suffix x s" "w = map lower_char x"
    unfolding to_ascii_lowercase_def using suffix_map_rightE by metis
  with assms show "suffix w s"
    using map_lower_caseless white_space_caseless by metis
next
  assume "suffix w s"
  then have "suffix (map lower_char w) (to_ascii_lowercase s)"
    by (simp add: to_ascii_lowercase_def map_mono_suffix)
  moreover have "map lower_char w = w"
    using assms map_lower_caseless white_space_caseless by blast
  ultimately show "suffix w (to_ascii_lowercase s)" by simp
qed

section \<open>Facts about trimming\<close>

definition ws_free_start :: "string \<Rightarrow> bool" where
  "ws_free_start s \<longleftrightarrow> (\<forall>w \<in> set white_space. \<not> prefix w s)"

definition ws_free_end :: "string \<Rightarrow> bool" where
  "ws_free_end s \<longleftrightarrow> (\<forall>w \<in> set white_space. \<not> suffix w s)"

lemma trim_start_id: "ws_free_start s \<Longrightarrow> trim_start s = s"
  by (subst trim_start.simps) (auto simp: ws_free_start_def find_None_iff split: option.split
      dest!: find_white_space)

lemma trim_end_id: "ws_free_end s \<Longrightarrow> trim_end s = s"
  by (subst trim_end.simps) (auto simp: ws_free_end_def find_None_iff split: option.split
      dest!: find_white_space)

lemma trim_id: "ws_free_start s \<Longrightarrow> ws_free_end s \<Longrightarrow> trim s = s"
  by (simp add: trim_def trim_start_id trim_end_id)

lemma ws_free_start_trim_start: "ws_free_start (trim_start s)"
proof (induction s rule: trim_start.induct)
  case (1 s)
  show ?case
  proof (cases "find (\<lambda>w. prefix w s) white_space")
    case None
    then have "trim_start s = s" by (subst trim_start.simps) simp
    with None show ?thesis by (auto simp: ws_free_start_def find_None_iff)
  next
    case (Some w)
    with 1 show ?thesis by (subst trim_start.simps) simp
  qed
qed

lemma ws_free_end_trim_end: "ws_free_end (trim_end s)"
proof (induction s rule: trim_end.induct)
  case (1 s)
  show ?case
  proof (cases "find (\<lambda>w. suffix w s) white_space")
    case None
    then have "trim_end s = s" by (subst trim_end.simps) simp
    with None show ?thesis by (auto simp: ws_free_end_def find_None_iff)
  next
    case (Some w)
    with 1 show ?thesis by (subst trim_end.simps) simp
  qed
qed

lemma prefix_trim_end: "prefix (trim_end s) s"
proof (induction s rule: trim_end.induct)
  case (1 s)
  show ?case
  proof (cases "find (\<lambda>w. suffix w s) white_space")
    case None
    then show ?thesis by (subst trim_end.simps) simp
  next
    case (Some w)
    with 1 have "prefix (trim_end (take (length s - length w) s)) (take (length s - length w) s)"
      by simp
    then have "prefix (trim_end (take (length s - length w) s)) s"
      by (meson prefix_order.trans take_is_prefix)
    with Some show ?thesis by (subst trim_end.simps) simp
  qed
qed

lemma suffix_trim_start: "suffix (trim_start s) s"
proof (induction s rule: trim_start.induct)
  case (1 s)
  show ?case
  proof (cases "find (\<lambda>w. prefix w s) white_space")
    case None
    then show ?thesis by (subst trim_start.simps) simp
  next
    case (Some w)
    with 1 have "suffix (trim_start (drop (length w) s)) (drop (length w) s)"
      by simp
    then have "suffix (trim_start (drop (length w) s)) s"
      by (meson suffix_order.trans suffix_drop)
    with Some show ?thesis by (subst trim_start.simps) simp
  qed
qed

lemma ws_free_start_prefix: "prefix t s \<Longrightarrow> ws_free_start s \<Longrightarrow> ws_free_start t"
  unfolding ws_free_start_def by (meson prefix_order.trans)

lemma ws_free_trim: "ws_free_start (trim s)" "ws_free_end (trim s)"
  by (simp_all add: trim_def ws_free_end_trim_end
      ws_free_start_prefix [OF prefix_trim_end ws_free_start_trim_start])

lemma trim_idem [simp]: "trim (trim s) = trim s"
  by (simp add: trim_id ws_free_trim)

lemma ws_free_lower:
  "ws_free_start (to_ascii_lowercase s) \<longleftrightarrow> ws_free_start s"
  "ws_free_end (to_ascii_lowercase s) \<longleftrightarrow> ws_free_end s"
  by (auto simp: ws_free_start_def ws_free_end_def prefix_lower_iff suffix_lower_iff)

lemma no_ws_free:
  assumes "\<not> contains_ws s"
  shows "ws_free_start s" "ws_free_end s"
  using assms
  by (auto simp: contains_ws_def ws_free_start_def ws_free_end_def list_ex_iff)

lemma trim_no_ws: "\<not> contains_ws s \<Longrightarrow> trim s = s"
  by (simp add: trim_id no_ws_free)

text \<open>A tag of ASCII letters and punctuation in front of a text with no white space at its end.\<close>

lemma trim_tagged:
  assumes tag: "p \<noteq> []" "\<forall>w \<in> set white_space. set p \<inter> set w = {}"
    and v: "ws_free_end v"
  shows "trim (p @ v) = p @ v"
proof (rule trim_id)
  show "ws_free_start (p @ v)"
    unfolding ws_free_start_def
  proof
    fix w assume w: "w \<in> set white_space"
    obtain a w' where aw: "w = a # w'"
      using white_space_nonempty [OF w] by (meson neq_Nil_conv)
    obtain b p' where bp: "p = b # p'"
      using tag(1) by (meson neq_Nil_conv)
    have "a \<noteq> b"
      using bspec [OF tag(2) w] aw bp by auto
    then show "\<not> prefix w (p @ v)" by (simp add: aw bp)
  qed
  show "ws_free_end (p @ v)"
    unfolding ws_free_end_def
  proof
    fix w assume w: "w \<in> set white_space"
    show "\<not> suffix w (p @ v)"
    proof
      assume "suffix w (p @ v)"
      then consider "suffix w v" | z where "w = z @ v" "suffix z p" "z \<noteq> []"
        using suffix_append [of w p v] by (metis append_Nil suffix_order.refl)
      then show False
      proof cases
        case 1
        with v w show False by (simp add: ws_free_end_def)
      next
        case 2
        then have "set z \<subseteq> set p" "set z \<subseteq> set w"
          by (auto dest: set_mono_suffix)
        then have "set z \<subseteq> set p \<inter> set w" by simp
        then have "set z \<subseteq> {}" by (simp only: bspec [OF tag(2) w])
        with 2 show False by simp
      qed
    qed
  qed
qed

section \<open>Facts about searching and splitting\<close>

lemma trim_end_matches_last:
  "trim_end_matches c s = [] \<or> last (trim_end_matches c s) \<noteq> c"
proof (induction s rule: rev_induct)
  case (snoc x s)
  then show ?case by (simp add: trim_end_matches_def)
qed (simp add: trim_end_matches_def)

lemma trim_end_matches_id: "s = [] \<or> last s \<noteq> c \<Longrightarrow> trim_end_matches c s = s"
  by (cases s rule: rev_cases) (simp_all add: trim_end_matches_def)

lemma prefix_trim_end_matches: "prefix (trim_end_matches c s) s"
proof -
  have "suffix (dropWhile (\<lambda>x. x = c) (rev s)) (rev s)"
    by (rule suffix_dropWhile)
  then show ?thesis
    by (simp add: trim_end_matches_def suffix_to_prefix)
qed

lemma strip_prefix_append [simp]: "strip_prefix p (p @ s) = Some s"
  by (simp add: strip_prefix_def)

lemma strip_prefix_Some: "strip_prefix p s = Some r \<longleftrightarrow> s = p @ r"
  by (auto simp: strip_prefix_def prefix_def)

lemma split_on_nonempty: "split_on c s \<noteq> []"
  by (induction s) (auto split: list.split)

lemma length_split_on: "length (split_on c s) = Suc (count_char c s)"
proof (induction s)
  case (Cons x s)
  then show ?case
    by (cases "split_on c s") (simp_all add: count_char_def split_on_nonempty)
qed (simp add: count_char_def)

lemma split_once_None: "split_once c s = None \<longleftrightarrow> c \<notin> set s"
proof
  assume "split_once c s = None"
  then have "dropWhile (\<lambda>x. x \<noteq> c) s = []"
    by (simp add: split_once_def split: list.splits)
  then show "c \<notin> set s" by (auto simp: dropWhile_eq_Nil_conv)
next
  assume "c \<notin> set s"
  then have "dropWhile (\<lambda>x. x \<noteq> c) s = []"
    by (auto simp: dropWhile_eq_Nil_conv)
  then show "split_once c s = None"
    by (simp only: split_once_def list.case)
qed

lemma while_append_char:
  "c \<notin> set a \<Longrightarrow> dropWhile (\<lambda>x. x \<noteq> c) (a @ c # b) = c # b"
  "c \<notin> set a \<Longrightarrow> takeWhile (\<lambda>x. x \<noteq> c) (a @ c # b) = a"
  by (induction a) auto

lemma split_once_Some:
  "split_once c s = Some (a, b) \<longleftrightarrow> s = a @ c # b \<and> c \<notin> set a"
proof
  assume *: "split_once c s = Some (a, b)"
  then have "c \<in> set s" using split_once_None [of c s] by auto
  then obtain a' b' where s: "s = a' @ c # b'" "c \<notin> set a'"
    using split_list_first by metis
  with * show "s = a @ c # b \<and> c \<notin> set a"
    by (simp add: split_once_def while_append_char)
next
  assume "s = a @ c # b \<and> c \<notin> set a"
  then show "split_once c s = Some (a, b)"
    by (simp add: split_once_def while_append_char)
qed

lemma length_split_once: "split_once c s = Some (a, b) \<Longrightarrow> length b < length s"
  by (simp add: split_once_Some)

end
