(* ===== verification/AclDelta.thy ===== *)
theory AclDelta
  imports RustStr
begin

text \<open>
  The runtime overlay of an access list (\<open>AclDelta\<close> of \<open>src/state.rs\<close>): the rules that
  the admin API added to and suppressed from the read-only configuration base, and the effective
  list that base and overlay give together. The abstract view of an overlay over a base is the set
  of effective rules; adding and deleting are insertion and removal on that set.
\<close>

section \<open>The overlay\<close>

record acl_delta =
  allow_add :: "string list"
  allow_del :: "string list"
  deny_add :: "string list"
  deny_del :: "string list"

definition acl_delta_default :: acl_delta where
  "acl_delta_default = \<lparr>allow_add = [], allow_del = [], deny_add = [], deny_del = []\<rparr>"

text \<open>The loop of \<open>merge_acl\<close> over the base followed by the additions, with the set
  \<open>seen\<close> of the rules already put out.\<close>

fun merge_loop :: "string set \<Rightarrow> string set \<Rightarrow> string list \<Rightarrow> string list" where
  "merge_loop del_set seen [] = []"
| "merge_loop del_set seen (s # ss) =
     (if s \<in> del_set then merge_loop del_set seen ss
      else if s \<notin> seen then s # merge_loop del_set (insert s seen) ss
      else merge_loop del_set seen ss)"

definition merge_acl :: "string list \<Rightarrow> string list \<Rightarrow> string list \<Rightarrow> string list" where
  "merge_acl base add del = merge_loop (set del) {} (base @ add)"

text \<open>\<open>apply_add\<close> and \<open>apply_del\<close> return the new \<open>(add, del)\<close>.\<close>

definition apply_add ::
  "string list \<Rightarrow> string list \<Rightarrow> string list \<Rightarrow> string \<Rightarrow> string list \<times> string list" where
  "apply_add base add del rule =
     (let del' = filter (\<lambda>r. r \<noteq> rule) del;
          in_base = (rule \<in> set base);
          in_add = (rule \<in> set add)
      in (if \<not> in_base \<and> \<not> in_add then add @ [rule] else add, del'))"

definition apply_del ::
  "string list \<Rightarrow> string list \<Rightarrow> string list \<Rightarrow> string \<Rightarrow> string list \<times> string list" where
  "apply_del base add del rule =
     (let add' = filter (\<lambda>r. r \<noteq> rule) add;
          in_base = (rule \<in> set base);
          in_del = (rule \<in> set del)
      in (add', if in_base \<and> \<not> in_del then del @ [rule] else del))"

definition effective_allow :: "acl_delta \<Rightarrow> string list \<Rightarrow> string list" where
  "effective_allow d base = merge_acl base (allow_add d) (allow_del d)"

definition effective_deny :: "acl_delta \<Rightarrow> string list \<Rightarrow> string list" where
  "effective_deny d base = merge_acl base (deny_add d) (deny_del d)"

definition add_allow :: "string list \<Rightarrow> string \<Rightarrow> acl_delta \<Rightarrow> acl_delta" where
  "add_allow base rule d =
     (let (a, x) = apply_add base (allow_add d) (allow_del d) rule
      in d\<lparr>allow_add := a, allow_del := x\<rparr>)"

definition del_allow :: "string list \<Rightarrow> string \<Rightarrow> acl_delta \<Rightarrow> acl_delta" where
  "del_allow base rule d =
     (let (a, x) = apply_del base (allow_add d) (allow_del d) rule
      in d\<lparr>allow_add := a, allow_del := x\<rparr>)"

definition add_deny :: "string list \<Rightarrow> string \<Rightarrow> acl_delta \<Rightarrow> acl_delta" where
  "add_deny base rule d =
     (let (a, x) = apply_add base (deny_add d) (deny_del d) rule
      in d\<lparr>deny_add := a, deny_del := x\<rparr>)"

definition del_deny :: "string list \<Rightarrow> string \<Rightarrow> acl_delta \<Rightarrow> acl_delta" where
  "del_deny base rule d =
     (let (a, x) = apply_del base (deny_add d) (deny_del d) rule
      in d\<lparr>deny_add := a, deny_del := x\<rparr>)"

section \<open>The effective list\<close>

lemma set_merge_loop: "set (merge_loop del seen ss) = set ss - del - seen"
  by (induction del seen ss rule: merge_loop.induct) auto

lemma distinct_merge_loop: "distinct (merge_loop del seen ss)"
  by (induction del seen ss rule: merge_loop.induct) (auto simp: set_merge_loop)

lemma merge_loop_subseq: "subseq (merge_loop del seen ss) ss"
  by (induction del seen ss rule: merge_loop.induct) auto

lemma merge_loop_append:
  "merge_loop del seen (xs @ ys) =
     merge_loop del seen xs @ merge_loop del (seen \<union> (set xs - del)) ys"
proof (induction xs arbitrary: seen)
  case (Cons x xs)
  then show ?case by (auto simp: insert_absorb insert_Diff_if)
qed simp

lemma set_merge_acl: "set (merge_acl base add del) = (set base \<union> set add) - set del"
  by (simp add: merge_acl_def set_merge_loop Un_Diff)

lemma distinct_merge_acl: "distinct (merge_acl base add del)"
  by (simp add: merge_acl_def distinct_merge_loop)

lemma merge_acl_base_first:
  "merge_acl base add del =
     merge_acl base [] del @ merge_loop (set del) (set base - set del) add"
  by (simp add: merge_acl_def merge_loop_append)

section \<open>Adding and deleting\<close>

lemma set_merge_apply_add:
  "apply_add base add del r = (a, d) \<Longrightarrow>
     set (merge_acl base a d) = insert r (set (merge_acl base add del))"
  by (auto simp: apply_add_def Let_def set_merge_acl split: if_splits)

lemma set_merge_apply_del:
  "apply_del base add del r = (a, d) \<Longrightarrow>
     set (merge_acl base a d) = set (merge_acl base add del) - {r}"
  by (auto simp: apply_del_def Let_def set_merge_acl split: if_splits)

section \<open>The reference for the effective list\<close>

lemma rev_remdups_Cons:
  "rev (remdups (rev (x # xs))) = x # filter (\<lambda>y. y \<noteq> x) (rev (remdups (rev xs)))"
proof -
  have "remdups (ys @ [x]) = filter (\<lambda>y. y \<noteq> x) (remdups ys) @ [x]" for ys :: "'a list"
    by (induction ys) auto
  then show ?thesis by (simp add: rev_filter)
qed

lemma merge_loop_filter:
  "merge_loop del seen ss =
     filter (\<lambda>r. r \<notin> seen) (rev (remdups (rev (filter (\<lambda>r. r \<notin> del) ss))))"
proof (induction del seen ss rule: merge_loop.induct)
  case (2 del seen s ss)
  then show ?case
    by (auto simp: rev_remdups_Cons filter_filter simp del: rev.simps intro: filter_cong)
qed simp

section \<open>The invariant of an overlay\<close>

text \<open>What the two mutators keep: no duplicates, additions outside the base, suppressions inside.\<close>

definition side_wf :: "string list \<Rightarrow> string list \<Rightarrow> string list \<Rightarrow> bool" where
  "side_wf base add del \<longleftrightarrow>
     distinct add \<and> distinct del \<and> set add \<inter> set base = {} \<and> set del \<subseteq> set base"

definition delta_wf :: "string list \<Rightarrow> string list \<Rightarrow> acl_delta \<Rightarrow> bool" where
  "delta_wf base_allow base_deny d \<longleftrightarrow>
     side_wf base_allow (allow_add d) (allow_del d) \<and> side_wf base_deny (deny_add d) (deny_del d)"

lemma side_wf_apply_add:
  "side_wf base add del \<Longrightarrow> apply_add base add del r = (a, d) \<Longrightarrow> side_wf base a d"
  by (auto simp: side_wf_def apply_add_def Let_def split: if_splits)

lemma side_wf_apply_del:
  "side_wf base add del \<Longrightarrow> apply_del base add del r = (a, d) \<Longrightarrow> side_wf base a d"
  by (auto simp: side_wf_def apply_del_def Let_def split: if_splits)

lemma delta_wf_default: "delta_wf base_allow base_deny acl_delta_default"
  by (simp add: delta_wf_def side_wf_def acl_delta_default_def)

lemmas delta_op_defs = add_allow_def del_allow_def add_deny_def del_deny_def

lemma delta_wf_ops:
  assumes "delta_wf ba bd d"
  shows "delta_wf ba bd (add_allow ba r d)" "delta_wf ba bd (del_allow ba r d)"
    "delta_wf ba bd (add_deny bd r d)" "delta_wf ba bd (del_deny bd r d)"
  using assms
  by (auto simp: delta_wf_def delta_op_defs split: prod.split
      intro: side_wf_apply_add side_wf_apply_del)

section \<open>The interface of one side of an overlay\<close>

text \<open>
  The admin API works on one side (allow or deny) of an overlay: \<open>eff\<close> is the effective list over
  a base, \<open>other\<close> the effective list of the side that is not touched.
\<close>

locale overlay_side =
  fixes eff :: "'d \<Rightarrow> string list \<Rightarrow> string list"
    and add_op :: "string list \<Rightarrow> string \<Rightarrow> 'd \<Rightarrow> 'd"
    and del_op :: "string list \<Rightarrow> string \<Rightarrow> 'd \<Rightarrow> 'd"
    and other :: "'d \<Rightarrow> string list \<Rightarrow> string list"
  assumes eff_add: "set (eff (add_op base r d) base) = insert r (set (eff d base))"
    and eff_del: "set (eff (del_op base r d) base) = set (eff d base) - {r}"
    and other_add: "other (add_op base r d) base' = other d base'"
    and other_del: "other (del_op base r d) base' = other d base'"
    and add_idem: "add_op base r (add_op base r d) = add_op base r d"
    and del_idem: "del_op base r (del_op base r d) = del_op base r d"
begin

lemma eff_add_batch:
  "set (eff (fold (add_op base) rs d) base) = set rs \<union> set (eff d base)"
  by (induction rs arbitrary: d) (auto simp: eff_add)

lemma eff_del_batch:
  "set (eff (fold (del_op base) rs d) base) = set (eff d base) - set rs"
  by (induction rs arbitrary: d) (auto simp: eff_del)

lemma other_batch:
  "other (fold (add_op base) rs d) base' = other d base'"
  "other (fold (del_op base) rs d) base' = other d base'"
  by (induction rs arbitrary: d) (simp_all add: other_add other_del)

lemma add_then_del:
  "set (eff (del_op base r (add_op base r d)) base) = set (eff d base) - {r}"
  by (simp add: eff_add eff_del)

lemma del_then_add:
  "set (eff (add_op base r (del_op base r d)) base) = insert r (set (eff d base))"
  by (simp add: eff_add eff_del)

end

lemma apply_add_idem:
  "apply_add base add del r = (a, d) \<Longrightarrow> apply_add base a d r = (a, d)"
  by (auto simp: apply_add_def Let_def split: if_splits)

lemma apply_del_idem:
  "apply_del base add del r = (a, d) \<Longrightarrow> apply_del base a d r = (a, d)"
  by (auto simp: apply_del_def Let_def split: if_splits)

interpretation allow_side: overlay_side effective_allow add_allow del_allow effective_deny
proof unfold_locales
  fix base base' r and d :: acl_delta
  obtain a x where add: "apply_add base (allow_add d) (allow_del d) r = (a, x)" by fastforce
  obtain a' x' where del: "apply_del base (allow_add d) (allow_del d) r = (a', x')" by fastforce
  note defs = effective_allow_def effective_deny_def add_allow_def del_allow_def
  show "set (effective_allow (add_allow base r d) base) = insert r (set (effective_allow d base))"
    by (simp add: defs add set_merge_apply_add [OF add])
  show "set (effective_allow (del_allow base r d) base) = set (effective_allow d base) - {r}"
    by (simp add: defs del set_merge_apply_del [OF del])
  show "effective_deny (add_allow base r d) base' = effective_deny d base'"
    "effective_deny (del_allow base r d) base' = effective_deny d base'"
    by (simp_all add: defs add del)
  show "add_allow base r (add_allow base r d) = add_allow base r d"
    by (simp add: defs add apply_add_idem [OF add])
  show "del_allow base r (del_allow base r d) = del_allow base r d"
    by (simp add: defs del apply_del_idem [OF del])
qed

interpretation deny_side: overlay_side effective_deny add_deny del_deny effective_allow
proof unfold_locales
  fix base base' r and d :: acl_delta
  obtain a x where add: "apply_add base (deny_add d) (deny_del d) r = (a, x)" by fastforce
  obtain a' x' where del: "apply_del base (deny_add d) (deny_del d) r = (a', x')" by fastforce
  note defs = effective_allow_def effective_deny_def add_deny_def del_deny_def
  show "set (effective_deny (add_deny base r d) base) = insert r (set (effective_deny d base))"
    by (simp add: defs add set_merge_apply_add [OF add])
  show "set (effective_deny (del_deny base r d) base) = set (effective_deny d base) - {r}"
    by (simp add: defs del set_merge_apply_del [OF del])
  show "effective_allow (add_deny base r d) base' = effective_allow d base'"
    "effective_allow (del_deny base r d) base' = effective_allow d base'"
    by (simp_all add: defs add del)
  show "add_deny base r (add_deny base r d) = add_deny base r d"
    by (simp add: defs add apply_add_idem [OF add])
  show "del_deny base r (del_deny base r d) = del_deny base r d"
    by (simp add: defs del apply_del_idem [OF del])
qed

lemmas overlay_facts =
  allow_side.eff_add_batch allow_side.eff_del_batch allow_side.other_batch
  deny_side.eff_add_batch deny_side.eff_del_batch deny_side.other_batch

section \<open>Properties\<close>

text \<open>\<open>merge_acl\<close> returns the rules of the base followed by those of the overlay, without the
  suppressed ones, each kept at its first occurrence only.\<close>

theorem merge_acl_reference:
  "merge_acl base add del =
     rev (remdups (rev (filter (\<lambda>r. r \<notin> set del) (base @ add))))"
  by (simp add: merge_acl_def merge_loop_filter)

text \<open>C12: on the effective set, adding a batch of rules is union, deleting a batch is difference,
  whatever the overlay held before, and the other side of the list is not touched.\<close>

theorem overlay_refines_sets:
  "set (effective_allow (fold (add_allow base) rs d) base) = set rs \<union> set (effective_allow d base)
   \<and> set (effective_allow (fold (del_allow base) rs d) base) = set (effective_allow d base) - set rs
   \<and> set (effective_deny (fold (add_deny base) rs d) base) = set rs \<union> set (effective_deny d base)
   \<and> set (effective_deny (fold (del_deny base) rs d) base) = set (effective_deny d base) - set rs
   \<and> effective_deny (fold (add_allow base) rs d) base' = effective_deny d base'
   \<and> effective_deny (fold (del_allow base) rs d) base' = effective_deny d base'
   \<and> effective_allow (fold (add_deny base) rs d) base' = effective_allow d base'
   \<and> effective_allow (fold (del_deny base) rs d) base' = effective_allow d base'"
  by (simp only: overlay_facts simp_thms)

text \<open>C34: the overlay stays minimal: with no duplicates, no addition that repeats a base rule and no
  suppression of a rule outside the base, every operation of the admin API keeps it so.\<close>

theorem delta_wf_preserved:
  assumes "delta_wf ba bd d"
  shows "delta_wf ba bd (fold (add_allow ba) rs d) \<and> delta_wf ba bd (fold (del_allow ba) rs d)
    \<and> delta_wf ba bd (fold (add_deny bd) rs d) \<and> delta_wf ba bd (fold (del_deny bd) rs d)"
  using assms by (induction rs arbitrary: d) (simp_all add: delta_wf_ops)

theorem delta_wf_preserved_witness:
  "delta_wf [''domain:a.com''] []
     (fold (del_allow [''domain:a.com'']) [''domain:a.com'', ''full:b.com''] acl_delta_default)"
  using delta_wf_preserved [OF delta_wf_default] by blast

end
