(* ===== verification/ModelB.thy ===== *)
theory ModelB
  imports V6Prelude
begin

text \<open>
  The decision that the domain filter and the egress filter share (\<open>decide\<close> of \<open>src/acl.rs\<close>), and
  the interface it relies on. A matcher reports the specificity of the best of its rules that match
  a target; the locale \<open>specific_matcher\<close> states that law, and derives what a filter of an allow
  matcher and a deny matcher then promises ("model B"): the most specific rule wins, a tie goes to
  deny, and an unmatched target passes only when there is no allow rule at all.
\<close>

section \<open>The decision\<close>

definition decide :: "'s::linorder option \<Rightarrow> 's option \<Rightarrow> bool \<Rightarrow> bool" where
  "decide best_allow best_deny allow_is_empty =
     (case (best_allow, best_deny) of
        (None, None) \<Rightarrow> allow_is_empty
      | (Some _, None) \<Rightarrow> True
      | (None, Some _) \<Rightarrow> False
      | (Some a, Some d) \<Rightarrow> a > d)"

lemma decide_simps [simp]:
  "decide None None e = e"
  "decide (Some a) None e = True"
  "decide None (Some d) e = False"
  "decide (Some a) (Some d) e = (a > d)"
  by (simp_all add: decide_def)

section \<open>Model B\<close>

text \<open>The specificity of the most specific rule of \<open>R\<close> that matches \<open>h\<close>.\<close>

definition best_of :: "('r \<Rightarrow> 's::linorder) \<Rightarrow> ('r \<Rightarrow> 'h \<Rightarrow> bool) \<Rightarrow> 'r set \<Rightarrow> 'h \<Rightarrow> 's option" where
  "best_of spec mat R h =
     (let M = {r \<in> R. mat r h} in if M = {} then None else Some (Max (spec ` M)))"

text \<open>
  A target is allowed by model B when some allow rule matches it that is more specific than every
  deny rule that matches, or when no rule matches and there is no allow rule.
\<close>

definition model_b ::
  "('r \<Rightarrow> 's::linorder) \<Rightarrow> ('r \<Rightarrow> 'h \<Rightarrow> bool) \<Rightarrow> 'r set \<Rightarrow> 'r set \<Rightarrow> 'h \<Rightarrow> bool" where
  "model_b spec mat allow deny h \<longleftrightarrow>
     (\<exists>r \<in> allow. mat r h \<and> (\<forall>q \<in> deny. mat q h \<longrightarrow> spec q < spec r))
     \<or> (allow = {} \<and> (\<forall>q \<in> deny. \<not> mat q h))"

lemma best_of_None: "best_of spec mat R h = None \<longleftrightarrow> (\<forall>r \<in> R. \<not> mat r h)"
  by (auto simp: best_of_def Let_def)

lemma best_of_Some:
  assumes "finite R" "best_of spec mat R h = Some s"
  shows "\<exists>r \<in> R. mat r h \<and> spec r = s" "\<And>r. r \<in> R \<Longrightarrow> mat r h \<Longrightarrow> spec r \<le> s"
proof -
  let ?M = "{r \<in> R. mat r h}"
  have fin: "finite (spec ` ?M)" using assms(1) by simp
  have ne: "?M \<noteq> {}" and s: "s = Max (spec ` ?M)"
    using assms(2) by (auto simp: best_of_def Let_def split: if_splits)
  have "s \<in> spec ` ?M" using Max_in [OF fin] ne s by simp
  then show "\<exists>r \<in> R. mat r h \<and> spec r = s" by auto
  show "\<And>r. r \<in> R \<Longrightarrow> mat r h \<Longrightarrow> spec r \<le> s"
    using Max_ge [OF fin] s by blast
qed

lemma best_ofI:
  assumes "finite R" "r \<in> R" "mat r h" "\<And>q. q \<in> R \<Longrightarrow> mat q h \<Longrightarrow> spec q \<le> spec r"
  shows "best_of spec mat R h = Some (spec r)"
proof -
  let ?M = "{r \<in> R. mat r h}"
  have "Max (spec ` ?M) = spec r"
    using assms by (intro Max_eqI) auto
  with assms show ?thesis by (auto simp: best_of_def Let_def)
qed

lemma decide_best_of:
  assumes fin: "finite allow" "finite deny"
  shows "decide (best_of spec mat allow h) (best_of spec mat deny h) (allow = {})
     \<longleftrightarrow> model_b spec mat allow deny h"
proof (cases "best_of spec mat allow h"; cases "best_of spec mat deny h")
  assume a: "best_of spec mat allow h = None" and d: "best_of spec mat deny h = None"
  show ?thesis
    unfolding a d decide_simps model_b_def using a d unfolding best_of_None by blast
next
  fix y assume a: "best_of spec mat allow h = None" and d: "best_of spec mat deny h = Some y"
  show ?thesis
    unfolding a d decide_simps model_b_def
    using a best_of_Some(1) [OF fin(2) d] unfolding best_of_None by blast
next
  fix x assume a: "best_of spec mat allow h = Some x" and d: "best_of spec mat deny h = None"
  show ?thesis
    unfolding a d decide_simps model_b_def
    using d best_of_Some(1) [OF fin(1) a] unfolding best_of_None by blast
next
  fix x y assume a: "best_of spec mat allow h = Some x" and d: "best_of spec mat deny h = Some y"
  note allow = best_of_Some [OF fin(1) a] and deny = best_of_Some [OF fin(2) d]
  obtain r where r: "r \<in> allow" "mat r h" "spec r = x" using allow(1) by blast
  obtain q where q: "q \<in> deny" "mat q h" "spec q = y" using deny(1) by blast
  have "x > y \<longleftrightarrow> (\<exists>r \<in> allow. mat r h \<and> (\<forall>q \<in> deny. mat q h \<longrightarrow> spec q < spec r))"
  proof
    assume "x > y"
    then have "\<forall>q \<in> deny. mat q h \<longrightarrow> spec q < spec r"
      using deny(2) r(3) le_less_trans by blast
    with r show "\<exists>r \<in> allow. mat r h \<and> (\<forall>q \<in> deny. mat q h \<longrightarrow> spec q < spec r)"
      by blast
  next
    assume "\<exists>r \<in> allow. mat r h \<and> (\<forall>q \<in> deny. mat q h \<longrightarrow> spec q < spec r)"
    then obtain r' where "r' \<in> allow" "mat r' h" "spec q < spec r'" using q by blast
    then show "x > y" using allow(2) q(3) less_le_trans by blast
  qed
  moreover have "allow \<noteq> {}" using r by blast
  ultimately show ?thesis unfolding a d decide_simps model_b_def by blast
qed

section \<open>The interface of a matcher\<close>

text \<open>
  \<open>inv\<close> is the invariant of the compiled matcher, \<open>ok\<close> the targets for which its answer fits the
  machine integers.
\<close>

locale specific_matcher =
  fixes best :: "'m \<Rightarrow> 'h \<Rightarrow> 's::linorder option"
    and rules :: "'m \<Rightarrow> 'r set"
    and mat :: "'r \<Rightarrow> 'h \<Rightarrow> bool"
    and spec :: "'r \<Rightarrow> 's"
    and inv :: "'m \<Rightarrow> bool"
    and ok :: "'h \<Rightarrow> bool"
  assumes finite_rules: "inv m \<Longrightarrow> finite (rules m)"
    and best_is_best_of: "inv m \<Longrightarrow> ok h \<Longrightarrow> best m h = best_of spec mat (rules m) h"
begin

lemma decide_model_b:
  "inv a \<Longrightarrow> inv d \<Longrightarrow> ok h \<Longrightarrow>
     decide (best a h) (best d h) (rules a = {}) \<longleftrightarrow> model_b spec mat (rules a) (rules d) h"
  by (simp add: best_is_best_of decide_best_of finite_rules)

lemma tie_is_denied:
  assumes "inv a" "inv d" "ok h" "q \<in> rules d" "mat q h"
    and "\<And>r. r \<in> rules a \<Longrightarrow> mat r h \<Longrightarrow> spec r \<le> spec q"
  shows "\<not> decide (best a h) (best d h) (rules a = {})"
  unfolding decide_model_b [OF assms(1-3)] model_b_def
  using assms(4-6) by (meson empty_iff leD)

lemma whitelist_blocks:
  assumes "inv a" "inv d" "ok h" "rules a \<noteq> {}" "\<And>r. r \<in> rules a \<Longrightarrow> \<not> mat r h"
  shows "\<not> decide (best a h) (best d h) (rules a = {})"
  unfolding decide_model_b [OF assms(1-3)] model_b_def using assms(4,5) by blast

lemma more_deny_rules_block_more:
  assumes "inv a" "inv d" "inv d'" "ok h" "rules d \<subseteq> rules d'"
    and "decide (best a h) (best d' h) (rules a = {})"
  shows "decide (best a h) (best d h) (rules a = {})"
  using assms(5,6) unfolding decide_model_b [OF assms(1,2,4)] decide_model_b [OF assms(1,3,4)]
    model_b_def by blast

end

end
