(* ===== verification/DomainAcl.thy ===== *)
theory DomainAcl
  imports AclDelta ModelB
begin

text \<open>
  The domain filter of \<open>src/acl.rs\<close>: parsing and canonical form of the mosdns-style rules, the
  compiled matcher, and the filter. The matcher is an instance of the interface of \<open>ModelB\<close>: its
  answer is the specificity of the most specific rule that matches.
\<close>

section \<open>Rules\<close>

datatype rule = Full string | Domain_zone string | Keyword string

datatype rule_error = EmptyKeyword string | EmptyDomain string | InvalidDomain string

definition normalize_name :: "string \<Rightarrow> string" where
  "normalize_name s = to_ascii_lowercase (trim_end_matches (CHR ''.'') (trim s))"

definition parse_rule :: "string \<Rightarrow> rule_error + rule" where
  "parse_rule s0 =
     (let s = trim s0 in
      case strip_prefix ''keyword:'' s of
        Some v \<Rightarrow>
          (let v = to_ascii_lowercase (trim v) in
           if v = [] then Inl (EmptyKeyword s) else Inr (Keyword v))
      | None \<Rightarrow>
          (let (is_full, raw) =
             (case strip_prefix ''full:'' s of
                Some v \<Rightarrow> (True, v)
              | None \<Rightarrow> (case strip_prefix ''domain:'' s of
                  Some v \<Rightarrow> (False, v)
                | None \<Rightarrow> (False, s)));
             v = normalize_name raw
           in if v = [] then Inl (EmptyDomain s)
              else if contains_char (CHR '':'') v \<or> contains_char (CHR ''/'') v \<or> contains_ws v
                then Inl (InvalidDomain s)
              else if is_full then Inr (Full v) else Inr (Domain_zone v)))"

definition render_rule :: "rule \<Rightarrow> string" where
  "render_rule r =
     (case r of Full v \<Rightarrow> ''full:'' @ v | Domain_zone v \<Rightarrow> ''domain:'' @ v
      | Keyword v \<Rightarrow> ''keyword:'' @ v)"

definition canonicalize_rule :: "string \<Rightarrow> rule_error + string" where
  "canonicalize_rule s = res_try (parse_rule s) (\<lambda>r. Inr (render_rule r))"

section \<open>The matcher\<close>

record domain_matcher =
  dm_full :: "string set"
  dm_domain :: "string set"
  dm_keyword :: "string list"

definition domain_matcher_default :: domain_matcher where
  "domain_matcher_default = \<lparr>dm_full = {}, dm_domain = {}, dm_keyword = []\<rparr>"

definition insert_rule :: "rule \<Rightarrow> domain_matcher \<Rightarrow> domain_matcher" where
  "insert_rule r m =
     (case r of
        Full s \<Rightarrow> m\<lparr>dm_full := insert s (dm_full m)\<rparr>
      | Domain_zone s \<Rightarrow> m\<lparr>dm_domain := insert s (dm_domain m)\<rparr>
      | Keyword s \<Rightarrow> m\<lparr>dm_keyword := dm_keyword m @ [s]\<rparr>)"

definition from_rules :: "rule list \<Rightarrow> domain_matcher" where
  "from_rules rules = fold insert_rule rules domain_matcher_default"

definition matcher_is_empty :: "domain_matcher \<Rightarrow> bool" where
  "matcher_is_empty m = (dm_full m = {} \<and> dm_domain m = {} \<and> dm_keyword m = [])"

text \<open>The number of labels of a zone, \<open>s.split('.').count()\<close>, cut to 16 bits by the cast.\<close>

definition label_count :: "string \<Rightarrow> nat" where
  "label_count s = length (split_on (CHR ''.'') s)"

text \<open>The loop over the suffixes of the host, longest first.\<close>

function best_zone :: "string set \<Rightarrow> string \<Rightarrow> (u8 \<times> u16) option" where
  "best_zone zones s =
     (if s \<in> zones then Some (2, of_nat (label_count s))
      else (case split_once (CHR ''.'') s of
              None \<Rightarrow> None
            | Some (a, rest) \<Rightarrow> best_zone zones rest))"
  by pat_completeness auto
termination
  by (relation "measure (\<lambda>(zones, s). length s)") (auto simp: length_split_once)

declare best_zone.simps [simp del]

definition best_match :: "domain_matcher \<Rightarrow> string \<Rightarrow> (u8 \<times> u16) option" where
  "best_match m host =
     (if host \<in> dm_full m then Some (3, 0)
      else (case best_zone (dm_domain m) host of
              Some b \<Rightarrow> Some b
            | None \<Rightarrow>
                if list_ex (\<lambda>k. contains_str k host) (dm_keyword m) then Some (1, 0) else None))"

section \<open>The filter\<close>

record domain_filter =
  df_allow :: domain_matcher
  df_deny :: domain_matcher

definition domain_filter_default :: domain_filter where
  "domain_filter_default =
     \<lparr>df_allow = domain_matcher_default, df_deny = domain_matcher_default\<rparr>"

definition domain_filter_build :: "string list \<Rightarrow> string list \<Rightarrow> rule_error + domain_filter" where
  "domain_filter_build allow deny =
     res_try (collect_results parse_rule allow) (\<lambda>allow_rules.
     res_try (collect_results parse_rule deny) (\<lambda>deny_rules.
       Inr \<lparr>df_allow = from_rules allow_rules, df_deny = from_rules deny_rules\<rparr>))"

definition host_allowed :: "domain_filter \<Rightarrow> string \<Rightarrow> bool" where
  "host_allowed f host0 =
     (let host = normalize_name host0 in
      decide (best_match (df_allow f) host) (best_match (df_deny f) host)
        (matcher_is_empty (df_allow f)))"

section \<open>What a rule means\<close>

fun rule_matches :: "rule \<Rightarrow> string \<Rightarrow> bool" where
  "rule_matches (Full s) h \<longleftrightarrow> h = s"
| "rule_matches (Domain_zone z) h \<longleftrightarrow> h = z \<or> suffix (''.'' @ z) h"
| "rule_matches (Keyword k) h \<longleftrightarrow> sublist k h"

fun rule_specificity :: "rule \<Rightarrow> u8 \<times> u16" where
  "rule_specificity (Full s) = (3, 0)"
| "rule_specificity (Domain_zone z) = (2, of_nat (label_count z))"
| "rule_specificity (Keyword k) = (1, 0)"

section \<open>Normalisation and the canonical form\<close>

lemma normalize_start: "ws_free_start (normalize_name s)"
  unfolding normalize_name_def ws_free_lower
  by (rule ws_free_start_prefix [OF prefix_trim_end_matches ws_free_trim(1)])

lemma lower_char_dot: "lower_char c = CHR ''.'' \<longleftrightarrow> c = CHR ''.''"
  by (rule lower_char_caseless) (simp add: caseless_def code_def)

lemma last_lower_dot:
  "s \<noteq> [] \<Longrightarrow> last (to_ascii_lowercase s) = CHR ''.'' \<longleftrightarrow> last s = CHR ''.''"
  by (simp add: to_ascii_lowercase_def last_map lower_char_dot)

lemma normalize_last: "normalize_name s \<noteq> [] \<Longrightarrow> last (normalize_name s) \<noteq> CHR ''.''"
  unfolding normalize_name_def to_ascii_lowercase_Nil
  using trim_end_matches_last last_lower_dot by blast

lemma normalize_id:
  assumes "\<not> contains_ws v" "v = [] \<or> last v \<noteq> CHR ''.''" "to_ascii_lowercase v = v"
  shows "normalize_name v = v"
  using assms by (simp add: normalize_name_def trim_no_ws trim_end_matches_id)

lemma to_ascii_lowercase_normalize [simp]: "to_ascii_lowercase (normalize_name s) = normalize_name s"
  by (simp add: normalize_name_def)

lemma length_trim: "length (trim s) \<le> length s"
  using prefix_length_le [OF prefix_trim_end] suffix_length_le [OF suffix_trim_start]
  unfolding trim_def by (meson le_trans)

lemma length_normalize: "length (normalize_name s) \<le> length s"
proof -
  have "length (normalize_name s) \<le> length (trim s)"
    using prefix_length_le [OF prefix_trim_end_matches] by (simp add: normalize_name_def)
  then show ?thesis using length_trim le_trans by blast
qed

text \<open>A rule that the parser returns: the value is not empty, lower case and, but for keywords, a
  plain name with no trailing dot.\<close>

definition plain_value :: "string \<Rightarrow> bool" where
  "plain_value v \<longleftrightarrow>
     v \<noteq> [] \<and> to_ascii_lowercase v = v \<and> CHR '':'' \<notin> set v \<and> CHR ''/'' \<notin> set v
     \<and> \<not> contains_ws v \<and> last v \<noteq> CHR ''.''"

definition keyword_value :: "string \<Rightarrow> bool" where
  "keyword_value v \<longleftrightarrow>
     v \<noteq> [] \<and> to_ascii_lowercase v = v \<and> ws_free_start v \<and> ws_free_end v"

fun rule_wf :: "rule \<Rightarrow> bool" where
  "rule_wf (Full v) = plain_value v"
| "rule_wf (Domain_zone v) = plain_value v"
| "rule_wf (Keyword v) = keyword_value v"

lemma parse_rule_wf_lemma: "parse_rule s = Inr r \<Longrightarrow> rule_wf r"
  by (auto simp: parse_rule_def Let_def contains_char_def plain_value_def keyword_value_def
      normalize_last ws_free_lower ws_free_trim split: option.splits if_splits)

lemma tag_no_ws:
  "\<forall>w \<in> set white_space. set ''full:'' \<inter> set w = {}"
  "\<forall>w \<in> set white_space. set ''domain:'' \<inter> set w = {}"
  "\<forall>w \<in> set white_space. set ''keyword:'' \<inter> set w = {}"
  by (simp_all add: white_space_def)

lemma parse_render: "rule_wf r \<Longrightarrow> parse_rule (render_rule r) = Inr r"
proof (cases r)
  case (Full v)
  assume "rule_wf r"
  then have v: "plain_value v" by (simp add: Full)
  then have "trim (''full:'' @ v) = ''full:'' @ v"
    by (intro trim_tagged tag_no_ws) (auto simp: plain_value_def no_ws_free)
  moreover have "normalize_name v = v" using v by (simp add: plain_value_def normalize_id)
  ultimately show ?thesis
    using v by (simp add: Full render_rule_def parse_rule_def Let_def strip_prefix_def
        contains_char_def plain_value_def)
next
  case (Domain_zone v)
  assume "rule_wf r"
  then have v: "plain_value v" by (simp add: Domain_zone)
  then have "trim (''domain:'' @ v) = ''domain:'' @ v"
    by (intro trim_tagged tag_no_ws) (auto simp: plain_value_def no_ws_free)
  moreover have "normalize_name v = v" using v by (simp add: plain_value_def normalize_id)
  ultimately show ?thesis
    using v by (simp add: Domain_zone render_rule_def parse_rule_def Let_def strip_prefix_def
        contains_char_def plain_value_def)
next
  case (Keyword v)
  assume "rule_wf r"
  then have v: "keyword_value v" by (simp add: Keyword)
  then have "trim (''keyword:'' @ v) = ''keyword:'' @ v"
    by (intro trim_tagged tag_no_ws) (auto simp: keyword_value_def)
  moreover have "trim v = v" using v by (simp add: keyword_value_def trim_id)
  ultimately show ?thesis
    using v by (simp add: Keyword render_rule_def parse_rule_def Let_def strip_prefix_def
        keyword_value_def)
qed

lemma canonicalize_rule_eq: "canonicalize_rule s = Inr c \<longleftrightarrow> (\<exists>r. parse_rule s = Inr r \<and> c = render_rule r)"
  by (auto simp: canonicalize_rule_def res_try_eq_Inr)

lemma parse_canonical: "canonicalize_rule s = Inr c \<Longrightarrow> parse_rule c = parse_rule s"
  using parse_render parse_rule_wf_lemma by (auto simp: canonicalize_rule_eq)

section \<open>The matcher as an instance of model B\<close>

definition matcher_rules :: "domain_matcher \<Rightarrow> rule set" where
  "matcher_rules m = Full ` dm_full m \<union> Domain_zone ` dm_domain m \<union> Keyword ` set (dm_keyword m)"

definition matcher_inv :: "domain_matcher \<Rightarrow> bool" where
  "matcher_inv m \<longleftrightarrow> finite (dm_full m) \<and> finite (dm_domain m)"

text \<open>The hosts whose label count fits 16 bits.\<close>

definition host_fits :: "string \<Rightarrow> bool" where
  "host_fits h \<longleftrightarrow> label_count h < 65536"

lemma matcher_is_empty_iff: "matcher_is_empty m \<longleftrightarrow> matcher_rules m = {}"
  by (auto simp: matcher_is_empty_def matcher_rules_def)

lemma matcher_rules_insert: "matcher_rules (insert_rule r m) = insert r (matcher_rules m)"
  by (cases r) (auto simp: matcher_rules_def insert_rule_def)

lemma matcher_inv_insert: "matcher_inv m \<Longrightarrow> matcher_inv (insert_rule r m)"
  by (cases r) (auto simp: matcher_inv_def insert_rule_def)

lemma matcher_from_rules: "matcher_rules (from_rules rs) = set rs" "matcher_inv (from_rules rs)"
proof -
  have "matcher_rules (fold insert_rule rs m) = set rs \<union> matcher_rules m"
    "matcher_inv m \<Longrightarrow> matcher_inv (fold insert_rule rs m)" for m
    by (induction rs arbitrary: m) (auto simp: matcher_rules_insert matcher_inv_insert)
  then show "matcher_rules (from_rules rs) = set rs" "matcher_inv (from_rules rs)"
    by (simp_all add: from_rules_def domain_matcher_default_def matcher_rules_def matcher_inv_def)
qed

lemma zone_match_step:
  "rule_matches (Domain_zone z) h \<longleftrightarrow>
     h = z \<or> (\<exists>a rest. split_once (CHR ''.'') h = Some (a, rest) \<and> rule_matches (Domain_zone z) rest)"
proof -
  have "suffix (''.'' @ z) h \<longleftrightarrow>
      (\<exists>a rest. h = a @ CHR ''.'' # rest \<and> CHR ''.'' \<notin> set a \<and> (rest = z \<or> suffix (''.'' @ z) rest))"
    (is "?L \<longleftrightarrow> ?R")
  proof
    assume ?L
    then obtain p where p: "h = p @ CHR ''.'' # z" by (auto simp: suffix_def)
    then obtain a rest where s: "h = a @ CHR ''.'' # rest" "CHR ''.'' \<notin> set a"
      using split_list_first [of "CHR ''.''" h] by auto
    from p s have "a @ CHR ''.'' # rest = p @ CHR ''.'' # z" by simp
    then obtain us where "(a = p @ us \<and> us @ CHR ''.'' # rest = CHR ''.'' # z)
        \<or> (a @ us = p \<and> CHR ''.'' # rest = us @ CHR ''.'' # z)"
      by (auto simp: append_eq_append_conv2)
    then have "rest = z \<or> suffix (''.'' @ z) rest"
      using s(2) by (cases us) (auto simp: suffix_def)
    with s show ?R by blast
  next
    assume ?R
    then show ?L by (auto simp: suffix_def)
  qed
  then show ?thesis by (simp add: split_once_Some)
qed

lemma label_count_split:
  "split_once (CHR ''.'') h = Some (a, rest) \<Longrightarrow> label_count h = Suc (label_count rest)"
  by (auto simp: label_count_def length_split_on count_char_def split_once_Some filter_empty_conv)

lemma label_count_le_length: "label_count h \<le> Suc (length h)"
  by (simp add: label_count_def length_split_on count_char_def)

lemma label_count_match: "rule_matches (Domain_zone z) h \<Longrightarrow> label_count z \<le> label_count h"
proof (induction h rule: length_induct)
  case (1 h)
  from "1.prems" consider "h = z"
    | a rest where "split_once (CHR ''.'') h = Some (a, rest)" "rule_matches (Domain_zone z) rest"
    using zone_match_step by blast
  then show ?case
  proof cases
    case 2
    with 1 have "label_count z \<le> label_count rest" using length_split_once by blast
    with 2 show ?thesis by (simp add: label_count_split)
  qed simp
qed

lemma best_zone_None:
  "best_zone zones h = None \<longleftrightarrow> (\<forall>z \<in> zones. \<not> rule_matches (Domain_zone z) h)"
proof (induction zones h rule: best_zone.induct)
  case (1 zones h)
  show ?case
  proof (cases "h \<in> zones")
    case True
    then show ?thesis by (subst best_zone.simps) auto
  next
    case False
    then show ?thesis
      using 1 by (subst best_zone.simps, subst zone_match_step) (auto split: option.splits)
  qed
qed

lemma best_zone_Some:
  "best_zone zones h = Some s \<Longrightarrow>
     \<exists>z \<in> zones. rule_matches (Domain_zone z) h \<and> s = (2, of_nat (label_count z))
       \<and> (\<forall>z' \<in> zones. rule_matches (Domain_zone z') h \<longrightarrow> label_count z' \<le> label_count z)"
proof (induction zones h rule: best_zone.induct)
  case (1 zones h)
  show ?case
  proof (cases "h \<in> zones")
    case True
    then have "s = (2, of_nat (label_count h))"
      using "1.prems" by (subst (asm) best_zone.simps) simp
    with True show ?thesis
      by (intro bexI [of _ h]) (auto simp del: rule_matches.simps intro: label_count_match
          simp: zone_match_step [of h h])
  next
    case False
    with "1.prems" obtain a rest where r: "split_once (CHR ''.'') h = Some (a, rest)"
      and s: "best_zone zones rest = Some s"
      by (subst (asm) best_zone.simps) (auto split: option.splits)
    have "rule_matches (Domain_zone z) h \<longleftrightarrow> h = z \<or> rule_matches (Domain_zone z) rest" for z
      using zone_match_step [of z h] r by (simp del: rule_matches.simps)
    with "1.IH" [OF False r refl s] False show ?thesis
      by (auto simp del: rule_matches.simps)
  qed
qed

text \<open>A normalised name of at most 65535 bytes fits: its last byte is no dot.\<close>

lemma host_fits_normalize: "length h \<le> 65535 \<Longrightarrow> host_fits (normalize_name h)"
proof (cases "normalize_name h" rule: rev_cases)
  case Nil
  then show ?thesis by (simp add: host_fits_def label_count_def)
next
  case (snoc ys y)
  assume "length h \<le> 65535"
  then have "length ys < 65535"
    using length_normalize [of h] snoc by simp
  moreover have "y \<noteq> CHR ''.''" using normalize_last [of h] snoc by simp
  ultimately show ?thesis
    by (simp add: le_less_trans [OF length_filter_le] host_fits_def label_count_def length_split_on snoc count_char_def)
qed

lemma label_word_le:
  "m \<le> n \<Longrightarrow> n < 65536 \<Longrightarrow> (of_nat m :: u16) \<le> of_nat n"
  by (simp add: word_le_nat_alt unat_of_nat)

lemma best_match_is_best_of:
  assumes inv: "matcher_inv m" and fits: "host_fits h"
  shows "best_match m h = best_of rule_specificity rule_matches (matcher_rules m) h"
proof -
  have fin: "finite (matcher_rules m)"
    using inv by (simp add: matcher_rules_def matcher_inv_def)
  have zone_fits: "label_count z < 65536" if "rule_matches (Domain_zone z) h" for z
    using label_count_match [OF that] fits by (simp add: host_fits_def)
  consider (full) "h \<in> dm_full m"
    | (zone) s where "h \<notin> dm_full m" "best_zone (dm_domain m) h = Some s"
    | (kw) k where "h \<notin> dm_full m" "best_zone (dm_domain m) h = None"
        "k \<in> set (dm_keyword m)" "sublist k h"
    | (no) "h \<notin> dm_full m" "best_zone (dm_domain m) h = None"
        "\<forall>k \<in> set (dm_keyword m). \<not> sublist k h"
    by fastforce
  then show ?thesis
  proof cases
    case full
    have "best_of rule_specificity rule_matches (matcher_rules m) h
        = Some (rule_specificity (Full h))"
      using fin full by (intro best_ofI) (auto simp: matcher_rules_def)
    with full show ?thesis by (simp add: best_match_def)
  next
    case zone
    then obtain z where z: "z \<in> dm_domain m" "rule_matches (Domain_zone z) h"
      "s = (2, of_nat (label_count z))"
      "\<forall>z' \<in> dm_domain m. rule_matches (Domain_zone z') h \<longrightarrow> label_count z' \<le> label_count z"
      using best_zone_Some by blast
    have "best_of rule_specificity rule_matches (matcher_rules m) h
        = Some (rule_specificity (Domain_zone z))"
    proof (rule best_ofI [OF fin])
      show "Domain_zone z \<in> matcher_rules m" using z by (simp add: matcher_rules_def)
      fix q assume "q \<in> matcher_rules m" "rule_matches q h"
      then show "rule_specificity q \<le> rule_specificity (Domain_zone z)"
        using zone(1) z label_word_le [OF _ zone_fits [OF z(2)]]
        by (cases q) (auto simp: matcher_rules_def simp del: rule_matches.simps(2))
    qed (rule z(2))
    with zone z show ?thesis by (simp add: best_match_def)
  next
    case kw
    have "best_of rule_specificity rule_matches (matcher_rules m) h
        = Some (rule_specificity (Keyword k))"
      using kw fin unfolding best_zone_None
      by (intro best_ofI) (auto simp: matcher_rules_def)
    with kw show ?thesis by (auto simp: best_match_def contains_str_def list_ex_iff)
  next
    case no
    have "best_of rule_specificity rule_matches (matcher_rules m) h = None"
      using no unfolding best_zone_None best_of_None by (auto simp: matcher_rules_def)
    with no show ?thesis by (simp add: best_match_def contains_str_def list_ex_iff)
  qed
qed

interpretation dom: specific_matcher best_match matcher_rules rule_matches rule_specificity
  matcher_inv host_fits
  by unfold_locales
     (simp_all add: matcher_rules_def matcher_inv_def best_match_is_best_of)

text \<open>The rules that a list of rule strings stands for.\<close>

definition parsed_rules :: "string list \<Rightarrow> rule set" where
  "parsed_rules ss = {r. \<exists>s \<in> set ss. parse_rule s = Inr r}"

lemma domain_filter_build_Inr:
  "domain_filter_build allow deny = Inr f \<Longrightarrow>
     matcher_rules (df_allow f) = parsed_rules allow \<and> matcher_rules (df_deny f) = parsed_rules deny
     \<and> matcher_inv (df_allow f) \<and> matcher_inv (df_deny f)"
  by (auto simp: domain_filter_build_def res_try_eq_Inr matcher_from_rules parsed_rules_def
      dest!: collect_results_set)

lemma host_allowed_model_b:
  "matcher_inv (df_allow f) \<Longrightarrow> matcher_inv (df_deny f) \<Longrightarrow> length host \<le> 65535 \<Longrightarrow>
     host_allowed f host \<longleftrightarrow>
       model_b rule_specificity rule_matches (matcher_rules (df_allow f)) (matcher_rules (df_deny f))
         (normalize_name host)"
  by (simp add: host_allowed_def Let_def matcher_is_empty_iff dom.decide_model_b
      host_fits_normalize)

lemma host_allowed_normalize: "host_allowed f (normalize_name h) = host_allowed f h"
  if "\<not> contains_ws (normalize_name h)"
proof -
  have "normalize_name (normalize_name h) = normalize_name h"
    using that normalize_last by (intro normalize_id) auto
  then show ?thesis by (simp add: host_allowed_def)
qed

section \<open>Properties\<close>

text \<open>C36: every rule that the parser accepts is well formed: the value is not empty and lower case; a
  \<open>full\<close> or \<open>domain\<close> value has no colon, slash, white space or trailing dot (so an unsupported prefix
  such as \<open>regexp:\<close> is never taken for a name), a keyword has no white space around it.\<close>

theorem parse_rule_wf:
  assumes "parse_rule s = Inr r"
  shows "rule_wf r"
  using assms by (rule parse_rule_wf_lemma)

theorem parse_rule_wf_witness:
  "parse_rule ''Example.COM.'' = Inr (Domain_zone ''example.com'')
   \<and> rule_wf (Domain_zone ''example.com'')"
proof -
  have p: "parse_rule ''Example.COM.'' = Inr (Domain_zone ''example.com'')" by code_simp
  from p parse_rule_wf [OF p] show ?thesis by simp
qed

text \<open>The canonical form is a fixed point and means the same rule: canonicalising it again changes
  nothing and it parses to the rule of the original text, so two spellings of one rule get one
  canonical form.\<close>

theorem canonicalize_rule_fixpoint:
  assumes "canonicalize_rule s = Inr c"
  shows "canonicalize_rule c = Inr c \<and> parse_rule c = parse_rule s"
  using assms parse_canonical [OF assms] by (auto simp: canonicalize_rule_eq)

theorem canonicalize_rule_fixpoint_witness:
  "canonicalize_rule ''Keyword:x'' = Inl (InvalidDomain ''Keyword:x'')
   \<and> canonicalize_rule '' keyword: Ads '' = Inr ''keyword:ads''
   \<and> canonicalize_rule ''keyword:ads'' = Inr ''keyword:ads''"
proof -
  have a: "canonicalize_rule ''Keyword:x'' = Inl (InvalidDomain ''Keyword:x'')" by code_simp
  have b: "canonicalize_rule '' keyword: Ads '' = Inr ''keyword:ads''" by code_simp
  from a b canonicalize_rule_fixpoint [OF b] show ?thesis by simp
qed

text \<open>C31: the compiled matcher answers with the specificity of the most specific of the rules it was
  built from that match the host (full over longer zone over shorter zone over keyword), and with
  nothing when none does.\<close>

theorem best_match_most_specific:
  assumes "host_fits h"
  shows "best_match (from_rules rs) h = best_of rule_specificity rule_matches (set rs) h"
  using best_match_is_best_of [OF matcher_from_rules(2) assms] by (simp add: matcher_from_rules)

theorem best_match_most_specific_witness:
  "best_of rule_specificity rule_matches
     (set [Domain_zone ''b.c'', Keyword ''a'', Domain_zone ''c'']) ''a.b.c'' = Some (2, 2)"
proof -
  have fits: "host_fits ''a.b.c''" by (simp add: host_fits_def label_count_def)
  have "best_match (from_rules [Domain_zone ''b.c'', Keyword ''a'', Domain_zone ''c'']) ''a.b.c''
      = Some (2, 2)" by code_simp
  with best_match_most_specific [OF fits] show ?thesis by metis
qed

text \<open>A domain filter built from allow and deny rule strings decides by model B over the rules those
  strings stand for, on the normalised host.\<close>

theorem domain_filter_model_b:
  assumes "domain_filter_build allow deny = Inr f" and "length host \<le> 65535"
  shows "host_allowed f host \<longleftrightarrow>
     model_b rule_specificity rule_matches (parsed_rules allow) (parsed_rules deny)
       (normalize_name host)"
  using domain_filter_build_Inr [OF assms(1)] assms(2) by (simp add: host_allowed_model_b)

theorem domain_filter_model_b_witness:
  "\<exists>f. domain_filter_build [''full:safe.example.com''] [''example.com''] = Inr f
     \<and> host_allowed f ''Safe.Example.com.'' \<and> \<not> host_allowed f ''x.example.com''
     \<and> model_b rule_specificity rule_matches (parsed_rules [''full:safe.example.com''])
         (parsed_rules [''example.com'']) (normalize_name ''Safe.Example.com.'')"
proof -
  let ?f = "\<lparr>df_allow = from_rules [Full ''safe.example.com''],
    df_deny = from_rules [Domain_zone ''example.com'']\<rparr>"
  have p: "parse_rule ''full:safe.example.com'' = Inr (Full ''safe.example.com'')"
    "parse_rule ''example.com'' = Inr (Domain_zone ''example.com'')" by code_simp+
  have b: "domain_filter_build [''full:safe.example.com''] [''example.com''] = Inr ?f"
    by (simp add: domain_filter_build_def p)
  have y: "host_allowed ?f ''Safe.Example.com.''" by code_simp
  have n: "\<not> host_allowed ?f ''x.example.com''" by code_simp
  show ?thesis
    using b y n domain_filter_model_b [OF b, of "''Safe.Example.com.''"] by auto
qed

end
