(* ===== verification/IpAddr.thy ===== *)
theory IpAddr
  imports RustStr
begin

text \<open>
  IP addresses of Rust's standard library, as far as the program uses them: the textual parser
  (\<open>"...".parse::<IpAddr>()\<close>, \<open>Ipv6Addr\<close>, \<open>SocketAddr\<close>) and the textual form that \<open>to_string\<close>
  gives. A parser reads a prefix of a text and returns its value and the rest.
\<close>

section \<open>Addresses\<close>

datatype ip_addr = IpV4 u32 | IpV6 u128

text \<open>The order of the standard library: IPv4 before IPv6, then by value.\<close>

instantiation ip_addr :: linorder
begin

definition less_eq_ip_addr :: "ip_addr \<Rightarrow> ip_addr \<Rightarrow> bool" where
  "less_eq_ip_addr x y =
     (case (x, y) of
        (IpV4 a, IpV4 b) \<Rightarrow> a \<le> b
      | (IpV4 a, IpV6 b) \<Rightarrow> True
      | (IpV6 a, IpV4 b) \<Rightarrow> False
      | (IpV6 a, IpV6 b) \<Rightarrow> a \<le> b)"

definition less_ip_addr :: "ip_addr \<Rightarrow> ip_addr \<Rightarrow> bool" where
  "less_ip_addr x y = (x \<le> y \<and> \<not> y \<le> (x :: ip_addr))"

instance
  by standard (auto simp: less_eq_ip_addr_def less_ip_addr_def split: ip_addr.splits)

end

record socket_addr =
  sa_ip :: ip_addr
  sa_port :: u16

type_synonym 'a parser = "string \<Rightarrow> ('a \<times> string) option"

text \<open>The eight 16-bit segments of an IPv6 address and the address with given segments.\<close>

definition v6_segments :: "u128 \<Rightarrow> u16 list" where
  "v6_segments a = map (\<lambda>i. ucast (drop_bit (112 - 16 * i) a)) [0..<8]"

definition v6_of_segments :: "u16 list \<Rightarrow> u128" where
  "v6_of_segments gs = fold (\<lambda>g acc. or (push_bit 16 acc) (ucast g)) gs 0"

definition v4_octets :: "u32 \<Rightarrow> u8 list" where
  "v4_octets a = map (\<lambda>i. ucast (drop_bit (24 - 8 * i) a)) [0..<4]"

definition v4_of_octets :: "u8 list \<Rightarrow> u32" where
  "v4_of_octets os = fold (\<lambda>g acc. or (push_bit 8 acc) (ucast g)) os 0"

section \<open>Parsing\<close>

definition read_given_char :: "char \<Rightarrow> unit parser" where
  "read_given_char c s = (case s of [] \<Rightarrow> None | x # xs \<Rightarrow> if x = c then Some ((), xs) else None)"

text \<open>
  A number of at most \<open>max_digits\<close> digits and below \<open>bound\<close>; more digits than that is a failure,
  and so is a leading zero before other digits where \<open>allow_zero_prefix\<close> is false.
\<close>

definition read_number :: "nat \<Rightarrow> nat option \<Rightarrow> bool \<Rightarrow> nat \<Rightarrow> nat parser" where
  "read_number radix max_digits allow_zero_prefix bound s =
     (let ds = takeWhile (\<lambda>c. to_digit radix c \<noteq> None) s;
          rest = dropWhile (\<lambda>c. to_digit radix c \<noteq> None) s
      in if ds = [] then None
         else if (case max_digits of None \<Rightarrow> False | Some m \<Rightarrow> m < length ds) then None
         else if \<not> allow_zero_prefix \<and> hd ds = CHR ''0'' \<and> 1 < length ds then None
         else (case acc_digits radix bound 0 ds of None \<Rightarrow> None | Some n \<Rightarrow> Some (n, rest)))"

definition read_separator :: "char \<Rightarrow> nat \<Rightarrow> 'a parser \<Rightarrow> 'a parser" where
  "read_separator sep i inner s =
     (if 0 < i then (case read_given_char sep s of None \<Rightarrow> None | Some (u, r) \<Rightarrow> inner r)
      else inner s)"

fun read_octets :: "nat \<Rightarrow> nat \<Rightarrow> u8 list parser" where
  "read_octets 0 i s = Some ([], s)"
| "read_octets (Suc k) i s =
     (case read_separator (CHR ''.'') i (read_number 10 (Some 3) False 256) s of
        None \<Rightarrow> None
      | Some (n, r) \<Rightarrow>
          (case read_octets k (Suc i) r of
             None \<Rightarrow> None
           | Some (os, r') \<Rightarrow> Some (of_nat n # os, r')))"

definition read_ipv4_addr :: "u32 parser" where
  "read_ipv4_addr s = map_option (\<lambda>(os, r). (v4_of_octets os, r)) (read_octets 4 0 s)"

text \<open>
  \<open>read_groups\<close>: the segments read, and whether a trailing embedded IPv4 address was read. \<open>limit\<close>
  is the number of segments wanted, \<open>i\<close> the number already read.
\<close>

function read_groups :: "nat \<Rightarrow> nat \<Rightarrow> string \<Rightarrow> u16 list \<times> bool \<times> string" where
  "read_groups limit i s =
     (if limit \<le> i then ([], False, s)
      else
        let v4 = (if i < limit - 1 then read_separator (CHR '':'') i read_ipv4_addr s else None)
        in case v4 of
             Some (a, r) \<Rightarrow> ([ucast (drop_bit 16 a), ucast a], True, r)
           | None \<Rightarrow>
               (case read_separator (CHR '':'') i (read_number 16 (Some 4) True 65536) s of
                  None \<Rightarrow> ([], False, s)
                | Some (g, r) \<Rightarrow>
                    (let (gs, is_v4, r') = read_groups limit (Suc i) r
                     in (of_nat g # gs, is_v4, r'))))"
  by pat_completeness auto
termination
  by (relation "measure (\<lambda>(limit, i, s). limit - i)") auto

declare read_groups.simps [simp del]

definition read_ipv6_addr :: "u128 parser" where
  "read_ipv6_addr s =
     (let (head, head_ipv4, r) = read_groups 8 0 s in
      if length head = 8 then Some (v6_of_segments head, r)
      else if head_ipv4 then None
      else (case read_given_char (CHR '':'') r of
              None \<Rightarrow> None
            | Some (u, r1) \<Rightarrow>
                (case read_given_char (CHR '':'') r1 of
                   None \<Rightarrow> None
                 | Some (u, r2) \<Rightarrow>
                     (let limit = 8 - (length head + 1);
                          (tail, tail_ipv4, r3) = read_groups limit 0 r2
                      in Some (v6_of_segments
                           (head @ replicate (8 - length head - length tail) 0 @ tail), r3)))))"

definition read_ip_addr :: "ip_addr parser" where
  "read_ip_addr s =
     (case read_ipv4_addr s of
        Some (a, r) \<Rightarrow> Some (IpV4 a, r)
      | None \<Rightarrow> map_option (\<lambda>(a, r). (IpV6 a, r)) (read_ipv6_addr s))"

text \<open>\<open>parse_with\<close>: the whole text must be read.\<close>

definition parse_with :: "'a parser \<Rightarrow> string \<Rightarrow> 'a option" where
  "parse_with p s = (case p s of None \<Rightarrow> None | Some (v, r) \<Rightarrow> if r = [] then Some v else None)"

definition parse_ip_addr :: "string \<Rightarrow> ip_addr option" where
  "parse_ip_addr s = parse_with read_ip_addr s"

definition parse_ipv6_addr :: "string \<Rightarrow> u128 option" where
  "parse_ipv6_addr s = parse_with read_ipv6_addr s"

definition read_port :: "u16 parser" where
  "read_port s =
     (case read_given_char (CHR '':'') s of
        None \<Rightarrow> None
      | Some (u, r) \<Rightarrow> map_option (\<lambda>(n, r'). (of_nat n, r')) (read_number 10 None True 65536 r))"

text \<open>\<open>SocketAddr\<close>: an IPv4 address and a port, or a bracketed IPv6 address with an optional numeric
  scope (which the program never reads) and a port.\<close>

definition read_scope :: "string \<Rightarrow> string" where
  "read_scope s =
     (case read_given_char (CHR ''%'') s of
        None \<Rightarrow> s
      | Some (u, r) \<Rightarrow>
          (case read_number 10 None True (2 ^ 32) r of None \<Rightarrow> s | Some (n, r') \<Rightarrow> r'))"

definition read_socket_addr :: "socket_addr parser" where
  "read_socket_addr s =
     (case (case read_ipv4_addr s of
              None \<Rightarrow> None
            | Some (a, r) \<Rightarrow>
                map_option (\<lambda>(p, r'). (\<lparr>sa_ip = IpV4 a, sa_port = p\<rparr>, r')) (read_port r)) of
        Some x \<Rightarrow> Some x
      | None \<Rightarrow>
          (case read_given_char (CHR ''['') s of
             None \<Rightarrow> None
           | Some (u, r) \<Rightarrow>
               (case read_ipv6_addr r of
                  None \<Rightarrow> None
                | Some (a, r1) \<Rightarrow>
                    (case read_given_char (CHR '']'') (read_scope r1) of
                       None \<Rightarrow> None
                     | Some (u, r2) \<Rightarrow>
                         map_option (\<lambda>(p, r'). (\<lparr>sa_ip = IpV6 a, sa_port = p\<rparr>, r'))
                           (read_port r2)))))"

definition parse_socket_addr :: "string \<Rightarrow> socket_addr option" where
  "parse_socket_addr s = parse_with read_socket_addr s"

section \<open>Printing\<close>

text \<open>A number in a radix with no leading zeros, at most \<open>k\<close> digits.\<close>

definition show_digits :: "nat \<Rightarrow> nat \<Rightarrow> nat \<Rightarrow> string" where
  "show_digits k radix n =
     (let ds = dropWhile (\<lambda>d. d = 0) (rev (digits_rev k radix n))
      in map digit_char (if ds = [] then [0] else ds))"

fun join :: "char \<Rightarrow> string list \<Rightarrow> string" where
  "join c [] = []"
| "join c [x] = x"
| "join c (x # xs) = x @ c # join c xs"

definition show_v4 :: "u32 \<Rightarrow> string" where
  "show_v4 a = join (CHR ''.'') (map (\<lambda>b. show_digits 3 10 (unat b)) (v4_octets a))"

text \<open>The first longest run of zero segments, as \<open>(start, len)\<close>.\<close>

fun zero_run :: "u16 list \<Rightarrow> nat \<Rightarrow> nat \<times> nat \<Rightarrow> nat \<times> nat \<Rightarrow> nat \<times> nat" where
  "zero_run [] i longest current = longest"
| "zero_run (g # gs) i longest current =
     (if g = 0 then
        (let current = (if snd current = 0 then i else fst current, snd current + 1);
             longest = (if snd longest < snd current then current else longest)
         in zero_run gs (Suc i) longest current)
      else zero_run gs (Suc i) longest (0, 0))"

definition fmt_subslice :: "u16 list \<Rightarrow> string" where
  "fmt_subslice gs = join (CHR '':'') (map (\<lambda>g. show_digits 4 16 (unat g)) gs)"

definition show_v6 :: "u128 \<Rightarrow> string" where
  "show_v6 a =
     (let gs = v6_segments a in
      if take 6 gs = [0, 0, 0, 0, 0, 0xFFFF] then ''::ffff:'' @ show_v4 (ucast a)
      else (let (start, len) = zero_run gs 0 (0, 0) (0, 0) in
            if 1 < len
            then fmt_subslice (take start gs) @ ''::'' @ fmt_subslice (drop (start + len) gs)
            else fmt_subslice gs))"

fun show_ip :: "ip_addr \<Rightarrow> string" where
  "show_ip (IpV4 a) = show_v4 a"
| "show_ip (IpV6 a) = show_v6 a"

section \<open>Evaluation\<close>

lemma read_octets_unfold:
  "read_octets k i s =
     (if k = 0 then Some ([], s)
      else (case read_separator (CHR ''.'') i (read_number 10 (Some 3) False 256) s of
              None \<Rightarrow> None
            | Some (n, r) \<Rightarrow>
                (case read_octets (k - 1) (Suc i) r of
                   None \<Rightarrow> None
                 | Some (os, r') \<Rightarrow> Some (of_nat n # os, r'))))"
  by (cases k) (simp_all split: option.splits)

lemma funpow_push_bit: "(push_bit n ^^ k) x = push_bit (n * k) (x :: 'a::len word)"
  by (induction k) (simp_all add: add.commute)

lemmas octet_eval = read_octets_unfold [of 4] read_octets_unfold [of 3] read_octets_unfold [of 2]
  read_octets_unfold [of 1]

lemmas ip_eval = parse_ip_addr_def parse_ipv6_addr_def parse_socket_addr_def parse_with_def
  read_ip_addr_def read_ipv6_addr_def read_socket_addr_def read_port_def read_scope_def
  read_groups.simps read_separator_def read_ipv4_addr_def read_number_def read_given_char_def
  char_evals Let_def v6_of_segments_def v4_of_octets_def octet_eval funpow_push_bit

section \<open>Segments and octets\<close>

lemma segment_step:
  fixes a :: u128
  shows "or (push_bit 16 (drop_bit (k + 16) a)) (ucast (ucast (drop_bit k a) :: u16)) = drop_bit k a"
proof (rule bit_word_eqI)
  fix n assume n: "n < LENGTH(128)"
  show "bit (or (push_bit 16 (drop_bit (k + 16) a)) (ucast (ucast (drop_bit k a) :: u16))) n
      \<longleftrightarrow> bit (drop_bit k a) n"
  proof (cases "n < 16")
    case True
    then show ?thesis using n by (simp add: bit_simps)
  next
    case False
    then obtain m where "n = 16 + m" using le_Suc_ex not_less by blast
    then show ?thesis using n by (simp add: bit_simps ac_simps)
  qed
qed

lemma segment_start:
  fixes a :: u128
  shows "ucast (ucast (drop_bit 112 a) :: u16) = drop_bit 112 a"
  by (rule bit_word_eqI) (auto simp: bit_simps dest: bit_imp_le_length)

lemma v6_of_segments_v6_segments: "v6_of_segments (v6_segments a) = a"
  using segment_step [of 96 a] segment_step [of 80 a] segment_step [of 64 a] segment_step [of 48 a]
    segment_step [of 32 a] segment_step [of 16 a] segment_step [of 0 a]
  by (simp add: v6_of_segments_def v6_segments_def upt_rec segment_start)

lemma octet_step:
  fixes a :: u32
  shows "or (push_bit 8 (drop_bit (k + 8) a)) (ucast (ucast (drop_bit k a) :: u8)) = drop_bit k a"
proof (rule bit_word_eqI)
  fix n assume n: "n < LENGTH(32)"
  show "bit (or (push_bit 8 (drop_bit (k + 8) a)) (ucast (ucast (drop_bit k a) :: u8))) n
      \<longleftrightarrow> bit (drop_bit k a) n"
  proof (cases "n < 8")
    case True
    then show ?thesis using n by (simp add: bit_simps)
  next
    case False
    then obtain m where "n = 8 + m" using le_Suc_ex not_less by blast
    then show ?thesis using n by (simp add: bit_simps ac_simps)
  qed
qed

lemma octet_start:
  fixes a :: u32
  shows "ucast (ucast (drop_bit 24 a) :: u8) = drop_bit 24 a"
  by (rule bit_word_eqI) (auto simp: bit_simps dest: bit_imp_le_length)

lemma v4_of_octets_v4_octets: "v4_of_octets (v4_octets a) = a"
  using octet_step [of 16 a] octet_step [of 8 a] octet_step [of 0 a]
  by (simp add: v4_of_octets_def v4_octets_def upt_rec octet_start)

lemma length_v6_segments [simp]: "length (v6_segments a) = 8"
  by (simp add: v6_segments_def)

lemma length_v4_octets [simp]: "length (v4_octets a) = 4"
  by (simp add: v4_octets_def)

end
