(* ===== verification/IpText.thy ===== *)
theory IpText
  imports IpAddr
begin

text \<open>
  The textual form of an address reads back as the address: every number that the program prints
  (decimal octets, hexadecimal segments, the sixteen digits of a seed) is read back by the parser of
  the standard library, and so is every printed IP address. The persisted state keys its bindings by
  that text.
\<close>

section \<open>Numbers\<close>

abbreviation (input) horner :: "nat \<Rightarrow> nat \<Rightarrow> nat list \<Rightarrow> nat" where
  "horner radix \<equiv> foldl (\<lambda>a d. a * radix + d)"

lemma code_digit_char: "d < 16 \<Longrightarrow> code (digit_char d) = (if d < 10 then 48 + d else 87 + d)"
  by (simp add: digit_char_def code_char_of)

lemma to_digit_digit_char: "d < radix \<Longrightarrow> radix \<le> 16 \<Longrightarrow> to_digit radix (digit_char d) = Some d"
  by (auto simp: to_digit_def Let_def code_digit_char)

lemma horner_ge: "1 \<le> radix \<Longrightarrow> a \<le> horner radix a ds"
proof (induction ds arbitrary: a)
  case (Cons d ds)
  have "a \<le> a * radix + d" using Cons.prems by (simp add: trans_le_add1)
  then show ?case using Cons.IH [OF Cons.prems, of "a * radix + d"] by simp
qed simp

lemma acc_digits_map:
  assumes "\<forall>d \<in> set ds. d < radix" "1 \<le> radix" "radix \<le> 16" "horner radix a ds < bound"
  shows "acc_digits radix bound a (map digit_char ds) = Some (horner radix a ds)"
  using assms
proof (induction ds arbitrary: a)
  case (Cons d ds)
  have "a * radix + d < bound"
    using horner_ge [of radix "a * radix + d" ds] Cons.prems by simp
  then show ?case using Cons by (simp add: to_digit_digit_char Let_def)
qed simp

lemma digits_rev_bound: "1 \<le> radix \<Longrightarrow> d \<in> set (digits_rev k radix n) \<Longrightarrow> d < radix"
  by (induction k arbitrary: n) auto

lemma length_digits_rev [simp]: "length (digits_rev k radix n) = k"
  by (induction k arbitrary: n) auto

lemma horner_digits_rev:
  "horner radix a (rev (digits_rev k radix n)) = a * radix ^ k + n mod radix ^ k"
proof (induction k arbitrary: n)
  case (Suc k)
  have "n mod (radix * radix ^ k) = radix * (n div radix mod radix ^ k) + n mod radix"
    by (simp add: mod_mult2_eq)
  then show ?case using Suc by (simp add: algebra_simps)
qed simp

lemma horner_dropWhile: "horner radix 0 (dropWhile (\<lambda>d. d = 0) ds) = horner radix 0 ds"
  by (induction ds) auto

text \<open>A number of a fixed width reads back (\<open>{:016x}\<close>).\<close>

lemma acc_digits_fixed:
  assumes "n < radix ^ k" "1 \<le> radix" "radix \<le> 16" "n < bound"
  shows "acc_digits radix bound 0 (fixed_digits k radix n) = Some n"
proof -
  have "horner radix 0 (rev (digits_rev k radix n)) = n"
    using assms(1) horner_digits_rev [of radix 0 k n] by simp
  then show ?thesis
    using acc_digits_map [of "rev (digits_rev k radix n)" radix 0 bound]
      digits_rev_bound [OF assms(2)] assms by (auto simp: fixed_digits_def)
qed

text \<open>The digits of a number without leading zeros.\<close>

lemma show_digits_eq:
  assumes "n < radix ^ k" "1 \<le> radix" "radix \<le> 16" "1 \<le> k"
  obtains ds where "show_digits k radix n = map digit_char ds" "ds \<noteq> []" "length ds \<le> k"
    "\<forall>d \<in> set ds. d < radix" "horner radix 0 ds = n" "hd ds = 0 \<Longrightarrow> length ds = 1"
proof -
  let ?r = "rev (digits_rev k radix n)"
  let ?d = "dropWhile (\<lambda>d. d = 0) ?r"
  have bound: "\<forall>d \<in> set ?d. d < radix"
    using digits_rev_bound [OF assms(2)] by (auto dest: set_dropWhileD)
  have len: "length ?d \<le> k"
    using length_dropWhile_le [of "\<lambda>d. d = 0" ?r] by simp
  have val: "horner radix 0 ?d = n"
    using assms(1) horner_digits_rev [of radix 0 k n] by (simp add: horner_dropWhile)
  show ?thesis
  proof (cases "?d = []")
    case True
    have "n = 0" using val unfolding True by simp
    then show ?thesis
      using that [of "[0]"] assms unfolding show_digits_def True by simp
  next
    case False
    then have "hd ?d \<noteq> 0" using hd_dropWhile by blast
    then show ?thesis
      using that [of ?d] False bound len val
      by (simp add: show_digits_def Let_def del: dropWhile_eq_Nil_conv)
  qed
qed

definition no_digit_head :: "nat \<Rightarrow> string \<Rightarrow> bool" where
  "no_digit_head radix s = (case s of [] \<Rightarrow> True | c # _ \<Rightarrow> to_digit radix c = None)"

lemma while_no_digit:
  assumes "\<forall>c \<in> set ds. to_digit radix c \<noteq> None" "no_digit_head radix rest"
  shows "takeWhile (\<lambda>c. to_digit radix c \<noteq> None) (ds @ rest) = ds"
    "dropWhile (\<lambda>c. to_digit radix c \<noteq> None) (ds @ rest) = rest"
  using assms by (induction ds) (auto simp: no_digit_head_def split: list.splits)

lemma read_number_show:
  assumes n: "n < radix ^ k" "n < bound" and r: "1 \<le> radix" "radix \<le> 16"
    and k: "1 \<le> k" "k \<le> m" and rest: "no_digit_head radix rest"
  shows "read_number radix (Some m) az bound (show_digits k radix n @ rest) = Some (n, rest)"
proof -
  obtain ds where ds: "show_digits k radix n = map digit_char ds" "ds \<noteq> []" "length ds \<le> k"
    "\<forall>d \<in> set ds. d < radix" "horner radix 0 ds = n" "hd ds = 0 \<Longrightarrow> length ds = 1"
    using show_digits_eq [OF n(1) r k(1)] by metis
  have dig: "\<forall>c \<in> set (map digit_char ds). to_digit radix c \<noteq> None"
    using ds(4) r by (auto simp: to_digit_digit_char)
  have acc: "acc_digits radix bound 0 (map digit_char ds) = Some n"
    using acc_digits_map [OF ds(4) r] ds(5) n(2) by simp
  have hd: "hd ds = 0" if "digit_char (hd ds) = CHR ''0''"
  proof -
    have "hd ds < 16" using ds(2,4) r by (meson less_le_trans hd_in_set)
    moreover have "code (digit_char (hd ds)) = 48" using that by (simp add: code_def)
    ultimately show ?thesis by (auto simp: code_digit_char split: if_splits)
  qed
  show ?thesis
    unfolding read_number_def ds(1) while_no_digit [OF dig rest]
    using ds(2,3,6) k hd acc by (auto simp: Let_def hd_map)
qed

section \<open>IPv4\<close>

lemma no_digit_punct:
  "no_digit_head radix []" "radix \<le> 16 \<Longrightarrow> no_digit_head radix (CHR ''.'' # s)"
  "radix \<le> 16 \<Longrightarrow> no_digit_head radix (CHR '':'' # s)"
  by (simp_all add: no_digit_head_def to_digit_def code_def Let_def)

lemma read_octet_show:
  "no_digit_head 10 rest \<Longrightarrow>
     read_number 10 (Some 3) False 256 (show_digits 3 10 (unat (b :: u8)) @ rest) = Some (unat b, rest)"
  using unsigned_less [of b, where ?'a = nat] by (intro read_number_show) auto

lemma read_ipv4_show:
  assumes "no_digit_head 10 rest"
  shows "read_ipv4_addr (show_v4 a @ rest) = Some (a, rest)"
proof -
  obtain b0 b1 b2 b3 where b: "v4_octets a = [b0, b1, b2, b3]"
    by (simp add: v4_octets_def upt_rec)
  have "read_octets 4 0 (show_v4 a @ rest) = Some ([b0, b1, b2, b3], rest)"
    by (simp add: octet_eval show_v4_def b read_separator_def read_given_char_def
        read_octet_show no_digit_punct assms)
  then show ?thesis
    using v4_of_octets_v4_octets [of a] b by (simp add: read_ipv4_addr_def)
qed

section \<open>IPv6\<close>

text \<open>A text whose decimal digits are not followed by a dot holds no IPv4 address.\<close>

lemma read_ipv4_no_dot:
  assumes "\<And>r. dropWhile (\<lambda>c. to_digit 10 c \<noteq> None) s \<noteq> CHR ''.'' # r"
  shows "read_ipv4_addr s = None"
proof (cases "read_number 10 (Some 3) False 256 s")
  case None
  then show ?thesis
    by (simp add: read_ipv4_addr_def octet_eval read_separator_def)
next
  case (Some p)
  obtain n r where p: "p = (n, r)" by fastforce
  then have r: "r = dropWhile (\<lambda>c. to_digit 10 c \<noteq> None) s"
    using Some by (auto simp: read_number_def Let_def split: if_splits option.splits)
  have "read_given_char (CHR ''.'') r = None"
    using assms r by (auto simp: read_given_char_def split: list.splits)
  then show ?thesis
    by (simp add: read_ipv4_addr_def octet_eval read_separator_def Some p)
qed

definition segment_text :: "u16 \<Rightarrow> string" where
  "segment_text g = show_digits 4 16 (unat g)"

text \<open>What may follow the segments: the end, or the double colon.\<close>

definition colon_rest :: "string \<Rightarrow> bool" where
  "colon_rest s \<longleftrightarrow> s = [] \<or> (\<exists>r. s = CHR '':'' # r)"

lemma segment_text_chars: "c \<in> set (segment_text g) \<Longrightarrow> c \<noteq> CHR ''.''"
proof -
  assume c: "c \<in> set (segment_text g)"
  have "unat g < 16 ^ 4" using unsigned_less [of g, where ?'a = nat] by simp
  then obtain ds where "segment_text g = map digit_char ds" "\<forall>d \<in> set ds. d < 16"
    unfolding segment_text_def by (rule show_digits_eq) auto
  with c obtain d where "c = digit_char d" "d < 16" by auto
  then have "code c \<noteq> 46" by (simp add: code_digit_char)
  then show "c \<noteq> CHR ''.''" by (auto simp: code_def)
qed

lemma read_ipv4_segment: "colon_rest rest \<Longrightarrow> read_ipv4_addr (segment_text g @ rest) = None"
proof (rule read_ipv4_no_dot)
  let ?P = "\<lambda>c. to_digit 10 c \<noteq> None"
  fix r assume rest: "colon_rest rest"
  show "dropWhile ?P (segment_text g @ rest) \<noteq> CHR ''.'' # r"
  proof (cases "\<forall>c \<in> set (segment_text g). ?P c")
    case True
    then have "dropWhile ?P (segment_text g @ rest) = dropWhile ?P rest" by simp
    also have "\<dots> = rest"
      using rest by (auto simp: colon_rest_def to_digit_def code_def Let_def)
    finally show ?thesis using rest by (auto simp: colon_rest_def)
  next
    case False
    then have "dropWhile ?P (segment_text g @ rest) = dropWhile ?P (segment_text g) @ rest"
      "dropWhile ?P (segment_text g) \<noteq> []" by (auto simp: dropWhile_append)
    then show ?thesis
      using segment_text_chars [of "CHR ''.''" g] set_dropWhileD [of "CHR ''.''" ?P "segment_text g"]
      by (cases "dropWhile ?P (segment_text g)") auto
  qed
qed

lemma read_ipv4_colon: "colon_rest s \<Longrightarrow> read_ipv4_addr s = None"
  by (rule read_ipv4_no_dot) (auto simp: colon_rest_def to_digit_def code_def Let_def)

lemma read_number_colon: "colon_rest s \<Longrightarrow> read_number 16 (Some 4) True 65536 s = None"
  by (auto simp: colon_rest_def read_number_def to_digit_def code_def Let_def)

lemma read_number_segment:
  "colon_rest rest \<Longrightarrow>
     read_number 16 (Some 4) True 65536 (segment_text g @ rest) = Some (unat g, rest)"
  unfolding segment_text_def using unsigned_less [of g, where ?'a = nat]
  by (intro read_number_show) (auto simp: colon_rest_def no_digit_punct)

definition segments_text :: "nat \<Rightarrow> u16 list \<Rightarrow> string" where
  "segments_text i gs =
     (if i = 0 then fmt_subslice gs else concat (map (\<lambda>g. CHR '':'' # segment_text g) gs))"

lemma join_Cons: "join c (x # xs) = x @ concat (map (\<lambda>y. c # y) xs)"
  by (induction xs arbitrary: x) auto

lemma segments_text_Nil [simp]: "segments_text i [] = []"
  by (simp add: segments_text_def fmt_subslice_def)

lemma segments_text_Cons:
  "segments_text i (g # gs) =
     (if i = 0 then [] else '':'') @ segment_text g @ segments_text (Suc i) gs"
  by (simp add: segments_text_def fmt_subslice_def join_Cons segment_text_def comp_def)

lemma colon_rest_segments: "colon_rest rest \<Longrightarrow> colon_rest (segments_text (Suc i) gs @ rest)"
  by (cases gs) (auto simp: segments_text_Cons colon_rest_def)

lemma read_groups_segments:
  assumes "i + length gs \<le> limit" and "rest = [] \<or> (\<exists>r. rest = CHR '':'' # CHR '':'' # r)"
  shows "read_groups limit i (segments_text i gs @ rest) = (gs, False, rest)"
  using assms
proof (induction gs arbitrary: i)
  case Nil
  show ?case
  proof (cases "limit \<le> i")
    case False
    have "read_separator (CHR '':'') i read_ipv4_addr rest = None"
      "read_separator (CHR '':'') i (read_number 16 (Some 4) True 65536) rest = None"
      using Nil.prems(2)
      by (auto simp: read_separator_def read_given_char_def colon_rest_def
          intro!: read_ipv4_colon read_number_colon)
    with False show ?thesis by (simp add: read_groups.simps [of limit i])
  qed (simp add: read_groups.simps)
next
  case (Cons g gs)
  let ?more = "segments_text (Suc i) gs @ rest"
  have more: "colon_rest ?more"
    using Cons.prems(2) by (intro colon_rest_segments) (auto simp: colon_rest_def)
  have sep: "read_separator (CHR '':'') i p (segments_text i (g # gs) @ rest)
      = p (segment_text g @ ?more)" for p :: "'a parser"
    by (simp add: segments_text_Cons read_separator_def read_given_char_def)
  have IH: "read_groups limit (Suc i) ?more = (gs, False, rest)"
    using Cons.IH [of "Suc i"] Cons.prems by simp
  show ?case
    using Cons.prems(1)
    by (subst read_groups.simps)
       (simp add: sep read_ipv4_segment [OF more] read_number_segment [OF more] IH)
qed

lemma zero_run_split:
  assumes "zero_run gs i (ls, ll) (cs, cl) = (s, l)"
    and "length pre = i" and "ls + ll \<le> i" and "cl = 0 \<or> cs + cl = i"
    and "\<forall>j. ls \<le> j \<and> j < ls + ll \<longrightarrow> (pre @ gs) ! j = 0"
    and "\<forall>j. cs \<le> j \<and> j < cs + cl \<longrightarrow> (pre @ gs) ! j = 0"
  shows "s + l \<le> i + length gs \<and> (\<forall>j. s \<le> j \<and> j < s + l \<longrightarrow> (pre @ gs) ! j = 0)"
  using assms
proof (induction gs arbitrary: i ls ll cs cl pre)
  case (Cons g gs)
  let ?cs = "if g = 0 then (if cl = 0 then i else cs) else 0"
  let ?cl = "if g = 0 then cl + 1 else 0"
  let ?long = "g = 0 \<and> ll < ?cl"
  have at: "((pre @ [g]) @ gs) ! i = g" using Cons.prems(2) by (simp add: nth_append)
  have run: "zero_run gs (Suc i) (if ?long then ?cs else ls, if ?long then ?cl else ll) (?cs, ?cl)
      = (s, l)"
    using Cons.prems(1) by (auto simp: Let_def split: if_splits)
  have cur: "\<forall>j. ?cs \<le> j \<and> j < ?cs + ?cl \<longrightarrow> ((pre @ [g]) @ gs) ! j = 0"
    using Cons.prems(4,6) at by (auto simp: less_Suc_eq)
  have "s + l \<le> Suc i + length gs
      \<and> (\<forall>j. s \<le> j \<and> j < s + l \<longrightarrow> ((pre @ [g]) @ gs) ! j = 0)"
    by (rule Cons.IH [OF run]) (use Cons.prems cur in auto)
  then show ?case by simp
qed simp

lemma zero_run_segments:
  assumes "zero_run gs 0 (0, 0) (0, 0) = (s, l)"
  shows "s + l \<le> length gs" "take s gs @ replicate l 0 @ drop (s + l) gs = gs"
proof -
  have *: "s + l \<le> 0 + length gs \<and> (\<forall>j. s \<le> j \<and> j < s + l \<longrightarrow> ([] @ gs) ! j = 0)"
    by (rule zero_run_split [OF assms]) auto
  then show "s + l \<le> length gs" by simp
  show "take s gs @ replicate l 0 @ drop (s + l) gs = gs"
    using * by (intro nth_equalityI) (auto simp: nth_append)
qed

lemma v6_mapped_segments:
  assumes "take 6 (v6_segments a) = [0, 0, 0, 0, 0, 0xFFFF]"
  shows "v6_segments a = [0, 0, 0, 0, 0, 0xFFFF, ucast (drop_bit 16 (ucast a :: u32)), ucast (ucast a :: u32)]"
proof -
  have "v6_segments a = take 6 (v6_segments a) @ drop 6 (v6_segments a)" by simp
  also have "drop 6 (v6_segments a) = [ucast (drop_bit 16 a), ucast a]"
    by (simp add: v6_segments_def upt_rec)
  also have "(ucast (drop_bit 16 a) :: u16) = ucast (drop_bit 16 (ucast a :: u32))"
    by (rule bit_word_eqI) (auto simp: bit_simps)
  also have "(ucast a :: u16) = ucast (ucast a :: u32)"
    by (rule bit_word_eqI) (auto simp: bit_simps)
  finally show ?thesis using assms by simp
qed

lemma digit_char_15: "digit_char 15 = CHR ''f''"
  by code_simp

lemma read_v6_mapped:
  assumes "take 6 (v6_segments a) = [0, 0, 0, 0, 0, 0xFFFF]"
  shows "read_ipv6_addr (''::ffff:'' @ show_v4 (ucast a)) = Some (a, [])"
proof -
  let ?v4 = "show_v4 (ucast a)"
  have head: "read_groups 8 0 (''::ffff:'' @ ?v4) = ([], False, ''::ffff:'' @ ?v4)"
    using read_groups_segments [of 0 "[]" 8 "''::ffff:'' @ ?v4"] by simp
  have ffff: "segment_text 0xFFFF = ''ffff''"
    by (simp add: segment_text_def show_digits_def digit_char_15)
  have v4: "read_ipv4_addr ?v4 = Some (ucast a, [])"
    using read_ipv4_show [of "[]" "ucast a"] by (simp add: no_digit_punct)
  have colon: "colon_rest (CHR '':'' # ?v4)" by (simp add: colon_rest_def)
  have tail: "read_groups 7 0 (''ffff:'' @ ?v4)
      = ([0xFFFF, ucast (drop_bit 16 (ucast a :: u32)), ucast (ucast a :: u32)], True, [])"
    using read_ipv4_segment [OF colon, where g = "0xFFFF"] read_number_segment [OF colon, where g = "0xFFFF"]
    by (simp add: read_groups.simps [of 7] read_separator_def read_given_char_def ffff v4)
  have five: "replicate 5 (0 :: u16) = [0, 0, 0, 0, 0]" by (simp add: numeral_eq_Suc)
  have "read_ipv6_addr (''::ffff:'' @ ?v4) = Some (v6_of_segments (v6_segments a), [])"
    unfolding v6_mapped_segments [OF assms] read_ipv6_addr_def
    using head tail by (simp add: read_given_char_def five)
  then show ?thesis by (simp add: v6_of_segments_v6_segments)
qed

lemma fmt_subslice_segments: "fmt_subslice gs = segments_text 0 gs"
  by (simp add: segments_text_def)

lemma read_v6_compressed:
  assumes run: "zero_run (v6_segments a) 0 (0, 0) (0, 0) = (s, l)" and l: "1 < l"
  shows "read_ipv6_addr (fmt_subslice (take s (v6_segments a)) @ ''::''
    @ fmt_subslice (drop (s + l) (v6_segments a))) = Some (a, [])"
proof -
  let ?gs = "v6_segments a"
  let ?h = "take s ?gs" and ?t = "drop (s + l) ?gs"
  have sl: "s + l \<le> 8" using zero_run_segments(1) [OF run] by simp
  have lens: "length ?h = s" "length ?t = 8 - s - l" using sl by simp_all
  have head: "read_groups 8 0 (fmt_subslice ?h @ ''::'' @ fmt_subslice ?t)
      = (?h, False, ''::'' @ fmt_subslice ?t)"
    unfolding fmt_subslice_segments by (rule read_groups_segments) (use lens sl in auto)
  have tail: "read_groups (8 - (s + 1)) 0 (fmt_subslice ?t) = (?t, False, [])"
    using read_groups_segments [of 0 ?t "8 - (s + 1)" "[]"] lens sl l
    by (simp add: fmt_subslice_segments)
  have zeros: "8 - s - (8 - s - l) = l" using sl by simp
  have "read_ipv6_addr (fmt_subslice ?h @ ''::'' @ fmt_subslice ?t)
      = Some (v6_of_segments (?h @ replicate l 0 @ ?t), [])"
    unfolding read_ipv6_addr_def head
    using sl l lens tail by (simp add: read_given_char_def Let_def zeros)
  also have "?h @ replicate l 0 @ ?t = ?gs" by (rule zero_run_segments(2) [OF run])
  finally show ?thesis by (simp add: v6_of_segments_v6_segments)
qed

lemma read_v6_plain: "read_ipv6_addr (fmt_subslice (v6_segments a)) = Some (a, [])"
  using read_groups_segments [of 0 "v6_segments a" 8 "[]"]
  by (simp add: read_ipv6_addr_def fmt_subslice_segments v6_of_segments_v6_segments)

lemma read_ipv6_show: "read_ipv6_addr (show_v6 a) = Some (a, [])"
proof (cases "take 6 (v6_segments a) = [0, 0, 0, 0, 0, 0xFFFF]")
  case True
  then show ?thesis using read_v6_mapped [OF True] by (simp add: show_v6_def Let_def)
next
  case False
  obtain s l where run: "zero_run (v6_segments a) 0 (0, 0) (0, 0) = (s, l)" by fastforce
  show ?thesis
    using False run read_v6_compressed [OF run] read_v6_plain by (simp add: show_v6_def Let_def)
qed

text \<open>No IPv4 address is read from the text of an IPv6 address.\<close>

lemma show_v6_start:
  obtains "colon_rest (show_v6 a)" | g rest where "show_v6 a = segment_text g @ rest" "colon_rest rest"
proof (cases "take 6 (v6_segments a) = [0, 0, 0, 0, 0, 0xFFFF]")
  case True
  then show ?thesis using that(1) by (simp add: show_v6_def colon_rest_def)
next
  case False
  have fmt: "fmt_subslice gs = [] \<or> (\<exists>g r. fmt_subslice gs = segment_text g @ r \<and> colon_rest r)" for gs
    by (cases gs) (use colon_rest_segments [of "[]" 0] in
        \<open>auto simp: fmt_subslice_segments segments_text_Cons colon_rest_def\<close>)
  obtain s l where run: "zero_run (v6_segments a) 0 (0, 0) (0, 0) = (s, l)" by fastforce
  show ?thesis
  proof (cases "1 < l")
    case True
    let ?rest = "''::'' @ fmt_subslice (drop (s + l) (v6_segments a))"
    have show_eq: "show_v6 a = fmt_subslice (take s (v6_segments a)) @ ?rest"
      using False True run by (simp add: show_v6_def Let_def)
    show ?thesis
      using fmt [of "take s (v6_segments a)"] show_eq that
      by (metis append.assoc append_Nil append_Cons colon_rest_def)
  next
    case not_long: False
    then have "show_v6 a = fmt_subslice (v6_segments a)"
      using False run by (simp add: show_v6_def Let_def)
    then show ?thesis using fmt [of "v6_segments a"] that by (metis colon_rest_def)
  qed
qed

lemma read_ipv4_show_v6: "read_ipv4_addr (show_v6 a) = None"
  by (rule show_v6_start [of a]) (simp_all add: read_ipv4_colon read_ipv4_segment)

section \<open>Characters of a printed address\<close>

lemma code_slash: "code (CHR ''/'') = 47"
  by (simp add: code_def)

lemma digit_char_no_slash: "d < 16 \<Longrightarrow> digit_char d \<noteq> CHR ''/''"
proof
  assume d: "d < 16" and eq: "digit_char d = CHR ''/''"
  have "code (digit_char d) \<noteq> 47" using d by (simp add: code_digit_char)
  then show False unfolding eq code_slash by simp
qed

lemma show_digits_no_slash:
  assumes "n < radix ^ k" "1 \<le> radix" "radix \<le> 16" "1 \<le> k"
  shows "CHR ''/'' \<notin> set (show_digits k radix n)"
proof -
  obtain ds where ds: "show_digits k radix n = map digit_char ds" "ds \<noteq> []" "length ds \<le> k"
    "\<forall>d \<in> set ds. d < radix" "horner radix 0 ds = n"
    using show_digits_eq [OF assms] by blast
  show ?thesis
    unfolding ds(1) set_map
  proof (rule notI, erule imageE)
    fix d assume eq: "CHR ''/'' = digit_char d" and "d \<in> set ds"
    then have "d < radix" using ds(4) by blast
    then have "d < 16" using assms(3) by simp
    then show False using digit_char_no_slash eq [symmetric] by blast
  qed
qed

lemma set_join: "c \<noteq> d \<Longrightarrow> c \<in> set (join d xs) \<longleftrightarrow> (\<exists>x \<in> set xs. c \<in> set x)"
  by (induction d xs rule: join.induct) auto

lemma show_v4_no_slash: "CHR ''/'' \<notin> set (show_v4 a)"
proof -
  have "CHR ''/'' \<notin> set (show_digits 3 10 (unat b))" for b :: u8
    using unsigned_less [of b, where ?'a = nat] by (intro show_digits_no_slash) auto
  then show ?thesis by (auto simp: show_v4_def set_join)
qed

lemma fmt_subslice_no_slash: "CHR ''/'' \<notin> set (fmt_subslice gs)"
proof -
  have "CHR ''/'' \<notin> set (show_digits 4 16 (unat g))" for g :: u16
    using unsigned_less [of g, where ?'a = nat] by (intro show_digits_no_slash) auto
  then show ?thesis by (auto simp: fmt_subslice_def set_join)
qed

lemma show_v6_no_slash: "CHR ''/'' \<notin> set (show_v6 a)"
proof -
  obtain s l where run: "zero_run (v6_segments a) 0 (0, 0) (0, 0) = (s, l)" by fastforce
  show ?thesis
    unfolding show_v6_def Let_def run prod.case
    by (simp add: show_v4_no_slash fmt_subslice_no_slash)
qed

lemma show_ip_no_slash: "CHR ''/'' \<notin> set (show_ip ip)"
  by (cases ip) (simp_all add: show_v4_no_slash show_v6_no_slash)

lemma ip_text_roundtrip_lemma: "parse_ip_addr (show_ip ip) = Some ip"
proof (cases ip)
  case (IpV4 a)
  then show ?thesis
    using read_ipv4_show [of "[]" a]
    by (simp add: parse_ip_addr_def parse_with_def read_ip_addr_def no_digit_punct)
next
  case (IpV6 a)
  then show ?thesis
    using read_ipv6_show [of a] read_ipv4_show_v6 [of a]
    by (simp add: parse_ip_addr_def parse_with_def read_ip_addr_def)
qed

section \<open>Properties\<close>

text \<open>The printed form of an IP address, IPv4 or IPv6, in every form the standard library prints
  (plain, with a compressed run of zeros, IPv4-mapped), parses back to the same address.\<close>

theorem ip_text_roundtrip: "parse_ip_addr (show_ip ip) = Some ip"
  by (rule ip_text_roundtrip_lemma)

end
