(* ===== verification/EgressFilter.thy ===== *)
theory EgressFilter
  imports IpText ModelB
begin

text \<open>
  The egress filter of \<open>src/config.rs\<close>: entries are addresses or CIDRs, the built-in special-use
  ranges always join the deny list, and the decision is model B on the prefix length.

  The networks are those of the crate \<open>ipnet\<close>, whose code is not part of the repository. Its
  operations are the record \<open>ipnet_ops\<close>, an argument of every definition that uses it; the
  predicate \<open>ipnet_laws\<close> collects what the documentation of the crate says of them.
\<close>

section \<open>Networks\<close>

record 'net ipnet_ops =
  net_parse :: "string \<Rightarrow> 'net option"
  net_from_ip :: "ip_addr \<Rightarrow> 'net"
  net_contains :: "'net \<Rightarrow> ip_addr \<Rightarrow> bool"
  net_prefix_len :: "'net \<Rightarrow> u8"
  net_trunc :: "'net \<Rightarrow> 'net"
  net_show :: "'net \<Rightarrow> string"

datatype net_error = InvalidCidr string | InvalidIp string

definition parse_net :: "'net ipnet_ops \<Rightarrow> string \<Rightarrow> net_error + 'net" where
  "parse_net ops entry =
     (if contains_char (CHR ''/'') entry
      then (case net_parse ops entry of None \<Rightarrow> Inl (InvalidCidr entry) | Some n \<Rightarrow> Inr n)
      else (case parse_ip_addr entry of
              None \<Rightarrow> Inl (InvalidIp entry)
            | Some ip \<Rightarrow> Inr (net_from_ip ops ip)))"

definition parse_net_list :: "'net ipnet_ops \<Rightarrow> string list \<Rightarrow> net_error + 'net list" where
  "parse_net_list ops entries = collect_results (parse_net ops) entries"

definition canonicalize_net :: "'net ipnet_ops \<Rightarrow> string \<Rightarrow> net_error + string" where
  "canonicalize_net ops entry =
     res_try (parse_net ops entry) (\<lambda>n. Inr (net_show ops (net_trunc ops n)))"

section \<open>The built-in ranges\<close>

definition builtin_texts :: "string list" where
  "builtin_texts =
     [''::1/128'', ''::/128'', ''::/96'', ''fe80::/10'', ''fc00::/7'', ''ff00::/8'',
      ''::ffff:0:0/96'', ''64:ff9b::/96'', ''2002::/16'', ''2001:db8::/32'']"

text \<open>\<open>s.parse().expect("valid builtin CIDR")\<close> for each: a text the crate rejects is a panic.\<close>

fun builtin_loop :: "'net ipnet_ops \<Rightarrow> string list \<Rightarrow> 'net list run" where
  "builtin_loop ops [] = ret []"
| "builtin_loop ops (s # ss) =
     (case net_parse ops s of
        None \<Rightarrow> panic
      | Some n \<Rightarrow> do { ns \<leftarrow> builtin_loop ops ss; ret (n # ns) })"

definition builtin_blocked_nets :: "'net ipnet_ops \<Rightarrow> 'net list run" where
  "builtin_blocked_nets ops = builtin_loop ops builtin_texts"

section \<open>The filter\<close>

record 'net egress_filter =
  ef_allow :: "'net list"
  ef_deny :: "'net list"

definition egress_filter_default :: "'net egress_filter" where
  "egress_filter_default = \<lparr>ef_allow = [], ef_deny = []\<rparr>"

text \<open>\<open>Iterator::max\<close> of the prefix lengths of the networks that contain the address.\<close>

definition best_net :: "'net ipnet_ops \<Rightarrow> 'net list \<Rightarrow> ip_addr \<Rightarrow> u8 option" where
  "best_net ops nets ip =
     (case map (net_prefix_len ops) (filter (\<lambda>n. net_contains ops n ip) nets) of
        [] \<Rightarrow> None
      | l # ls \<Rightarrow> Some (fold max ls l))"

definition egress_allowed :: "'net ipnet_ops \<Rightarrow> 'net egress_filter \<Rightarrow> ip_addr \<Rightarrow> bool" where
  "egress_allowed ops f ip =
     decide (best_net ops (ef_allow f) ip) (best_net ops (ef_deny f) ip) (ef_allow f = [])"

datatype egress_error = InvalidAllow net_error | InvalidDeny net_error

definition egress_build ::
  "'net ipnet_ops \<Rightarrow> string list \<Rightarrow> string list \<Rightarrow> (egress_error + 'net egress_filter) run" where
  "egress_build ops allow deny =
     (case map_err InvalidAllow (parse_net_list ops allow) of
        Inl e \<Rightarrow> ret (Inl e)
      | Inr allow \<Rightarrow>
          (case map_err InvalidDeny (parse_net_list ops deny) of
             Inl e \<Rightarrow> ret (Inl e)
           | Inr deny \<Rightarrow> do {
               builtin \<leftarrow> builtin_blocked_nets ops;
               ret (Inr \<lparr>ef_allow = allow, ef_deny = deny @ builtin\<rparr>)
             }))"

section \<open>What the crate documents\<close>

text \<open>Membership of an address in the IPv6 network of an address and a prefix length.\<close>

definition in_cidr6 :: "u128 \<Rightarrow> nat \<Rightarrow> ip_addr \<Rightarrow> bool" where
  "in_cidr6 a n ip =
     (case ip of IpV4 b \<Rightarrow> False | IpV6 b \<Rightarrow> drop_bit (128 - n) b = drop_bit (128 - n) a)"

text \<open>The ten special-use ranges, as the comments of the source name them.\<close>

definition builtin_table :: "(string \<times> u128 \<times> nat) list" where
  "builtin_table =
     [(''::1/128'', 1, 128),
      (''::/128'', 0, 128),
      (''::/96'', 0, 96),
      (''fe80::/10'', 0xfe80 * 2 ^ 112, 10),
      (''fc00::/7'', 0xfc00 * 2 ^ 112, 7),
      (''ff00::/8'', 0xff00 * 2 ^ 112, 8),
      (''::ffff:0:0/96'', 0xffff * 2 ^ 32, 96),
      (''64:ff9b::/96'', 0x64ff9b * 2 ^ 96, 96),
      (''2002::/16'', 0x2002 * 2 ^ 112, 16),
      (''2001:db8::/32'', 0x20010db8 * 2 ^ 96, 32)]"

definition net_denotes :: "'net ipnet_ops \<Rightarrow> 'net \<Rightarrow> u128 \<Rightarrow> nat \<Rightarrow> bool" where
  "net_denotes ops net a n \<longleftrightarrow>
     net_prefix_len ops net = of_nat n \<and> (\<forall>ip. net_contains ops net ip = in_cidr6 a n ip)"

text \<open>
  Documented behaviour of \<open>ipnet\<close>: the ten texts parse to the networks they name; a prefix length is
  at most 128; a host network holds exactly its address, at full length; truncation keeps the
  network and clears the host bits once and for all; a printed network has a slash and parses back.
\<close>

definition ipnet_laws :: "'net ipnet_ops \<Rightarrow> bool" where
  "ipnet_laws ops \<longleftrightarrow>
     (\<forall>(s, a, n) \<in> set builtin_table. \<exists>net. net_parse ops s = Some net \<and> net_denotes ops net a n)
     \<and> (\<forall>net. net_prefix_len ops net \<le> 128)
     \<and> (\<forall>a ip. net_contains ops (net_from_ip ops (IpV6 a)) ip = (ip = IpV6 a))
     \<and> (\<forall>a. net_prefix_len ops (net_from_ip ops (IpV6 a)) = 128)
     \<and> (\<forall>net. net_trunc ops (net_trunc ops net) = net_trunc ops net)
     \<and> (\<forall>net ip. net_contains ops (net_trunc ops net) ip = net_contains ops net ip)
     \<and> (\<forall>net. CHR ''/'' \<in> set (net_show ops net) \<and> net_parse ops (net_show ops net) = Some net)"

section \<open>The network lists as an instance of model B\<close>

lemma fold_max_Max: "fold max ls (l :: 'a::linorder) = Max (set (l # ls))"
  by (metis Max.set_eq_fold)

lemma best_net_best_of:
  "best_net ops nets ip =
     best_of (net_prefix_len ops) (\<lambda>n ip. net_contains ops n ip) (set nets) ip"
proof (cases "filter (\<lambda>n. net_contains ops n ip) nets")
  case Nil
  then show ?thesis
    by (auto simp: best_net_def best_of_def Let_def filter_empty_conv)
next
  case (Cons x xs)
  let ?M = "{r \<in> set nets. net_contains ops r ip}"
  have M: "?M = set (x # xs)"
    using arg_cong [OF Cons, of set] by simp
  have "best_net ops nets ip = Some (Max (net_prefix_len ops ` ?M))"
    unfolding M by (simp add: best_net_def Cons fold_max_Max del: Max_insert)
  moreover have "?M \<noteq> {}" unfolding M by simp
  ultimately show ?thesis by (simp add: best_of_def Let_def)
qed

interpretation net: specific_matcher "best_net ops" set "\<lambda>n ip. net_contains ops n ip"
  "net_prefix_len ops" "\<lambda>_. True" "\<lambda>_. True" for ops
  by unfold_locales (simp_all add: best_net_best_of)

lemma egress_allowed_iff:
  "egress_allowed ops f ip \<longleftrightarrow>
     model_b (net_prefix_len ops) (\<lambda>n ip. net_contains ops n ip) (set (ef_allow f))
       (set (ef_deny f)) ip"
  using net.decide_model_b [where ops = ops and a = "ef_allow f" and d = "ef_deny f" and h = ip] by (simp add: egress_allowed_def)

section \<open>Building\<close>

lemma builtin_loop_Some:
  "builtin_loop ops ss = Some ns \<longleftrightarrow> list_all2 (\<lambda>s n. net_parse ops s = Some n) ss ns"
proof (induction ss arbitrary: ns)
  case (Cons s ss)
  show ?case
  proof (cases ns)
    case Nil
    then show ?thesis by (auto split: option.splits bind_splits)
  next
    case (Cons n ns')
    then show ?thesis
      using Cons.IH [of ns'] by (cases "builtin_loop ops ss") (auto split: option.splits)
  qed
qed auto

lemma builtin_texts_table: "builtin_texts = map fst builtin_table"
  by (simp add: builtin_texts_def builtin_table_def)

lemma builtin_loop_ok: "(\<forall>s \<in> set ss. net_parse ops s \<noteq> None) \<Longrightarrow> builtin_loop ops ss \<noteq> None"
  by (induction ss) (auto split: option.splits)

lemma builtin_blocked_ok: "ipnet_laws ops \<Longrightarrow> \<exists>ns. builtin_blocked_nets ops = Some ns"
proof -
  assume laws: "ipnet_laws ops"
  have "builtin_loop ops builtin_texts \<noteq> None"
    using laws by (intro builtin_loop_ok) (force simp: ipnet_laws_def builtin_texts_table)
  then show ?thesis by (auto simp: builtin_blocked_nets_def)
qed

lemma egress_build_Inr:
  "egress_build ops allow deny = Some (Inr f) \<longleftrightarrow>
     (\<exists>as ds bs. parse_net_list ops allow = Inr as \<and> parse_net_list ops deny = Inr ds
        \<and> builtin_blocked_nets ops = Some bs \<and> f = \<lparr>ef_allow = as, ef_deny = ds @ bs\<rparr>)"
  by (cases "parse_net_list ops allow"; cases "parse_net_list ops deny")
     (auto simp: egress_build_def split: bind_splits)

text \<open>Every range of the table has its network in the deny list of a filter that was built.\<close>

lemma egress_build_denies:
  assumes laws: "ipnet_laws ops" and build: "egress_build ops allow deny = Some (Inr f)"
    and entry: "(s, a, n) \<in> set builtin_table"
  shows "\<exists>net \<in> set (ef_deny f). net_denotes ops net a n"
proof -
  obtain bs where bs: "builtin_blocked_nets ops = Some bs" "set bs \<subseteq> set (ef_deny f)"
    using build by (auto simp: egress_build_Inr)
  then have all: "list_all2 (\<lambda>s n. net_parse ops s = Some n) builtin_texts bs"
    by (simp add: builtin_blocked_nets_def builtin_loop_Some)
  obtain net where net: "net_parse ops s = Some net" "net_denotes ops net a n"
    using laws entry by (force simp: ipnet_laws_def)
  have "s \<in> set builtin_texts" using entry by (force simp: builtin_texts_table)
  then obtain i where i: "i < length builtin_texts" "builtin_texts ! i = s"
    by (auto simp: in_set_conv_nth)
  then have "bs ! i = net" "i < length bs"
    using list_all2_nthD [OF all i(1)] list_all2_lengthD [OF all] net(1) by auto
  then have "net \<in> set bs" by auto
  with bs net show ?thesis by blast
qed

text \<open>Building fails exactly on an entry that does not parse, and never panics.\<close>

lemma parse_net_list_error:
  "(\<exists>e. parse_net_list ops xs = Inl e) \<longleftrightarrow> (\<exists>x \<in> set xs. \<exists>e. parse_net ops x = Inl e)"
  by (simp add: parse_net_list_def collect_results_error)

lemma parse_net_list_cases:
  obtains e where "parse_net_list ops xs = Inl e" | ns where "parse_net_list ops xs = Inr ns"
  by (cases "parse_net_list ops xs") auto

definition parsed_nets :: "'net ipnet_ops \<Rightarrow> string list \<Rightarrow> 'net set" where
  "parsed_nets ops ss = {n. \<exists>s \<in> set ss. parse_net ops s = Inr n}"

lemma parse_net_list_set: "parse_net_list ops ss = Inr ns \<Longrightarrow> set ns = parsed_nets ops ss"
  unfolding parse_net_list_def parsed_nets_def by (rule collect_results_set)

section \<open>A concrete network type\<close>

text \<open>
  An instance of the parameter for the witnesses: a network is an address and a prefix length (an
  over-long length is read as the full one).
\<close>

definition plain_len :: "u8 \<Rightarrow> nat" where
  "plain_len l = min 128 (unat l)"

fun plain_contains :: "ip_addr \<times> u8 \<Rightarrow> ip_addr \<Rightarrow> bool" where
  "plain_contains (IpV6 a, l) ip = in_cidr6 a (plain_len l) ip"
| "plain_contains (IpV4 a, l) (IpV6 b) = False"
| "plain_contains (IpV4 a, l) (IpV4 b) =
     (drop_bit (32 - plain_len l) b = drop_bit (32 - plain_len l) a)"

fun plain_trunc :: "ip_addr \<times> u8 \<Rightarrow> ip_addr \<times> u8" where
  "plain_trunc (IpV6 a, l) =
     (IpV6 (push_bit (128 - plain_len l) (drop_bit (128 - plain_len l) a)), l)"
| "plain_trunc (IpV4 a, l) =
     (IpV4 (push_bit (32 - plain_len l) (drop_bit (32 - plain_len l) a)), l)"

definition plain_parse :: "string \<Rightarrow> (ip_addr \<times> u8) option" where
  "plain_parse s =
     (case split_once (CHR ''/'') s of
        None \<Rightarrow> None
      | Some (x, y) \<Rightarrow>
          (case (parse_ip_addr x, parse_uint 10 256 y) of
             (Some ip, Some n) \<Rightarrow> Some (ip, of_nat n)
           | _ \<Rightarrow> None))"

definition plain_ops :: "(ip_addr \<times> u8) ipnet_ops" where
  "plain_ops =
     \<lparr>net_parse = plain_parse,
      net_from_ip = (\<lambda>ip. (ip, case ip of IpV4 a \<Rightarrow> 32 | IpV6 a \<Rightarrow> 128)),
      net_contains = plain_contains,
      net_prefix_len = (\<lambda>(ip, l). of_nat (plain_len l)),
      net_trunc = plain_trunc,
      net_show = (\<lambda>(ip, l). show_ip ip @ ''/'' @ show_digits 3 10 (unat l))\<rparr>"

lemma plain_parse_show:
  "plain_parse (show_ip ip @ ''/'' @ show_digits 3 10 (unat (l :: u8))) = Some (ip, l)"
proof -
  have l: "unat l < 256" using unsigned_less [of l, where ?'a = nat] by simp
  then obtain ds where ds: "show_digits 3 10 (unat l) = map digit_char ds" "ds \<noteq> []"
    "\<forall>d \<in> set ds. d < 10" "horner 10 0 ds = unat l"
    using show_digits_eq [of "unat l" 10 3] by auto
  have "hd (map digit_char ds) \<noteq> CHR ''+''"
  proof -
    have "hd ds < 10" using ds(2,3) by simp
    then have "code (digit_char (hd ds)) \<noteq> 43" by (simp add: code_digit_char)
    then have "digit_char (hd ds) \<noteq> CHR ''+''" by (auto simp: code_def)
    with ds(2) show ?thesis by (simp add: hd_map)
  qed
  then have "parse_uint 10 256 (map digit_char ds) = acc_digits 10 256 0 (map digit_char ds)"
    using ds(2) by (cases ds) (simp_all add: parse_uint_def)
  also have "\<dots> = Some (unat l)"
    using acc_digits_map [OF ds(3), of 0 256] ds(4) l by simp
  finally have n: "parse_uint 10 256 (show_digits 3 10 (unat l)) = Some (unat l)"
    by (simp add: ds(1))
  have "split_once (CHR ''/'') (show_ip ip @ ''/'' @ show_digits 3 10 (unat l))
      = Some (show_ip ip, show_digits 3 10 (unat l))"
    by (simp add: split_once_Some show_ip_no_slash)
  then show ?thesis by (simp add: plain_parse_def ip_text_roundtrip_lemma n)
qed

lemma drop_push_drop: "drop_bit k (push_bit k (drop_bit k (a :: 'a::len word))) = drop_bit k a"
  by (rule bit_word_eqI) (auto simp: bit_simps dest: bit_imp_le_length)

lemma plain_builtin:
  "(s, a, n) \<in> set builtin_table \<Longrightarrow> plain_parse s = Some (IpV6 a, of_nat n) \<and> n \<le> 128"
  unfolding builtin_table_def
  by (auto simp: plain_parse_def split_once_def parse_uint_def ip_eval)

lemma plain_len_le: "plain_len l \<le> 128"
  by (simp add: plain_len_def)

lemma plain_prefix_len: "net_prefix_len plain_ops (ip, l) = of_nat (plain_len l)"
  by (simp add: plain_ops_def)

lemma plain_builtin_denotes:
  assumes "(s, a, n) \<in> set builtin_table"
  shows "\<exists>net. net_parse plain_ops s = Some net \<and> net_denotes plain_ops net a n"
proof -
  have p: "plain_parse s = Some (IpV6 a, of_nat n)" and n: "n \<le> 128"
    using plain_builtin [OF assms] by auto
  then have "unat (of_nat n :: u8) = n" by (simp add: unat_of_nat)
  then have "plain_len (of_nat n) = n" using n by (simp add: plain_len_def)
  then show ?thesis using p by (auto simp: plain_ops_def net_denotes_def)
qed

lemma plain_trunc_idem: "plain_trunc (plain_trunc x) = plain_trunc x"
  by (cases x rule: plain_trunc.cases) (simp_all add: drop_push_drop)

lemma plain_trunc_contains: "plain_contains (plain_trunc x) ip = plain_contains x ip"
  by (cases x rule: plain_trunc.cases; cases ip) (simp_all add: drop_push_drop in_cidr6_def)

lemma plain_laws: "ipnet_laws plain_ops"
proof -
  have len: "(of_nat (plain_len l) :: u8) \<le> 128" for l
    using plain_len_le [of l] by (simp add: word_le_nat_alt unat_of_nat)
  have host: "in_cidr6 a (plain_len 128) ip = (ip = IpV6 a)" for a ip
    by (cases ip) (auto simp: in_cidr6_def plain_len_def)
  have sel: "net_from_ip plain_ops = (\<lambda>ip. (ip, case ip of IpV4 a \<Rightarrow> 32 | IpV6 a \<Rightarrow> 128))"
    "net_contains plain_ops = plain_contains" "net_trunc plain_ops = plain_trunc"
    "net_parse plain_ops = plain_parse"
    "net_show plain_ops = (\<lambda>(ip, l). show_ip ip @ ''/'' @ show_digits 3 10 (unat l))"
    by (simp_all add: plain_ops_def)
  have full: "(of_nat (plain_len 128) :: u8) = 128" by (simp add: plain_len_def)
  show ?thesis
    unfolding ipnet_laws_def
  proof (intro conjI allI)
    show "\<forall>(s, a, n) \<in> set builtin_table.
        \<exists>net. net_parse plain_ops s = Some net \<and> net_denotes plain_ops net a n"
      using plain_builtin_denotes by blast
  qed (auto simp: sel(1-3) plain_prefix_len len host full plain_trunc_idem plain_trunc_contains,
      auto simp: sel plain_parse_show simp del: append.simps)
qed

section \<open>The built-in ranges decide\<close>

lemma parsed_nets_append: "parsed_nets ops (xs @ ys) = parsed_nets ops xs \<union> parsed_nets ops ys"
  by (auto simp: parsed_nets_def)

lemma builtin_texts_slash: "s \<in> set builtin_texts \<Longrightarrow> contains_char (CHR ''/'') s"
  by (auto simp: builtin_texts_def contains_char_def)

lemma builtin_nets_set: "builtin_blocked_nets ops = Some bs \<Longrightarrow> set bs = parsed_nets ops builtin_texts"
proof -
  assume "builtin_blocked_nets ops = Some bs"
  then have "list_all2 (\<lambda>s n. net_parse ops s = Some n) builtin_texts bs"
    by (simp add: builtin_blocked_nets_def builtin_loop_Some)
  then have "set bs = {n. \<exists>s \<in> set builtin_texts. net_parse ops s = Some n}"
    by (induction rule: list_all2_induct) auto
  also have "\<dots> = parsed_nets ops builtin_texts"
    unfolding parsed_nets_def
    by (rule Collect_cong, rule bex_cong [OF refl])
       (auto simp: parse_net_def builtin_texts_slash split: option.splits)
  finally show ?thesis .
qed

lemma egress_build_sets:
  assumes "egress_build ops allow deny = Some (Inr f)"
  shows "set (ef_allow f) = parsed_nets ops allow"
    "set (ef_deny f) = parsed_nets ops (deny @ builtin_texts)"
  using assms by (auto simp: egress_build_Inr parsed_nets_append parse_net_list_set builtin_nets_set)

lemma builtin_override:
  assumes "ipnet_laws ops" "egress_build ops allow deny = Some (Inr f)"
    and "(s, a, n) \<in> set builtin_table" "in_cidr6 a n ip" "egress_allowed ops f ip"
  shows "\<exists>net \<in> parsed_nets ops allow. net_contains ops net ip \<and> of_nat n < net_prefix_len ops net"
proof -
  obtain q where "q \<in> set (ef_deny f)" "net_denotes ops q a n"
    using egress_build_denies [OF assms(1-3)] by blast
  then show ?thesis
    using assms(4,5) unfolding egress_allowed_iff model_b_def egress_build_sets(1) [OF assms(2)]
    by (metis net_denotes_def)
qed

section \<open>An example configuration\<close>

text \<open>One allowed network inside the documentation range, and no deny entry of its own.\<close>

definition example_filter :: "(ip_addr \<times> u8) egress_filter" where
  "example_filter =
     \<lparr>ef_allow = [(IpV6 (0x20010db80001 * 2 ^ 80), 48)],
      ef_deny = map (\<lambda>(s, a, n). (IpV6 a, of_nat n)) builtin_table\<rparr>"

lemma example_entry:
  "parse_net plain_ops ''2001:db8:1::/48'' = Inr (IpV6 (0x20010db80001 * 2 ^ 80), 48)"
  by (simp add: parse_net_def contains_char_def plain_ops_def plain_parse_def split_once_def
      parse_uint_def ip_eval)

lemma plain_builtin_blocked:
  "builtin_blocked_nets plain_ops = Some (map (\<lambda>(s, a, n). (IpV6 a, of_nat n)) builtin_table)"
  unfolding builtin_blocked_nets_def builtin_loop_Some builtin_texts_table
  by (auto simp: list_all2_map1 list_all2_map2 list_all2_same plain_ops_def dest: plain_builtin)

lemma example_build:
  "egress_build plain_ops [''2001:db8:1::/48''] [] = Some (Inr example_filter)"
  by (simp add: egress_build_def parse_net_list_def example_entry plain_builtin_blocked
      example_filter_def)

lemma example_allowed: "egress_allowed plain_ops example_filter (IpV6 (0x20010db80001 * 2 ^ 80))"
  by (simp add: egress_allowed_def best_net_def example_filter_def plain_ops_def plain_len_def
      in_cidr6_def builtin_table_def)

lemma egress_build_succeeds:
  assumes "ipnet_laws ops"
  shows "\<exists>r. egress_build ops allow deny = Some r
     \<and> ((\<exists>f. r = Inr f) \<longleftrightarrow> (\<forall>s \<in> set (allow @ deny). \<exists>n. parse_net ops s = Inr n))"
proof -
  obtain bs where bs: "builtin_blocked_nets ops = Some bs" using builtin_blocked_ok [OF assms] ..
  have ok: "(\<forall>s \<in> set xs. \<exists>n. parse_net ops s = Inr n) \<longleftrightarrow> (\<exists>ns. parse_net_list ops xs = Inr ns)" for xs
    using parse_net_list_error [of ops xs] by (metis Inl_Inr_False old.sum.exhaust)
  show ?thesis
    unfolding set_append ball_Un ok
    by (cases "parse_net_list ops allow"; cases "parse_net_list ops deny")
       (simp_all add: egress_build_def bs)
qed


section \<open>Properties\<close>

text \<open>A built filter decides by model B on the prefix length over the entries of the two lists, the
  built-in ranges counting as deny entries: the longest matching prefix wins, a tie is denied, and an
  address that nothing matches passes exactly when the allow list is empty.\<close>

theorem egress_model_b:
  assumes "egress_build ops allow deny = Some (Inr f)"
  shows "egress_allowed ops f ip \<longleftrightarrow>
     model_b (net_prefix_len ops) (net_contains ops) (parsed_nets ops allow)
       (parsed_nets ops (deny @ builtin_texts)) ip"
  using egress_build_sets [OF assms] by (simp add: egress_allowed_iff)

theorem egress_model_b_witness:
  "model_b (net_prefix_len plain_ops) (net_contains plain_ops)
     (parsed_nets plain_ops [''2001:db8:1::/48'']) (parsed_nets plain_ops ([] @ builtin_texts))
     (IpV6 (0x20010db80001 * 2 ^ 80))"
  using egress_model_b [OF example_build] example_allowed by blast

text \<open>C33: an address of a built-in special-use range is reachable only through an allow entry whose
  prefix is strictly longer than that of the range.\<close>

theorem builtin_needs_longer_allow:
  assumes "ipnet_laws ops" "egress_build ops allow deny = Some (Inr f)"
    and "(s, a, n) \<in> set builtin_table" "in_cidr6 a n ip" "egress_allowed ops f ip"
  shows "\<exists>net \<in> parsed_nets ops allow.
     net_contains ops net ip \<and> of_nat n < net_prefix_len ops net"
  using assms by (rule builtin_override)

theorem builtin_needs_longer_allow_witness:
  "\<exists>net \<in> parsed_nets plain_ops [''2001:db8:1::/48''].
     net_contains plain_ops net (IpV6 (0x20010db80001 * 2 ^ 80))
     \<and> of_nat 32 < net_prefix_len plain_ops net"
proof (rule builtin_needs_longer_allow [OF plain_laws example_build])
  show "(''2001:db8::/32'', 0x20010db8 * 2 ^ 96, 32) \<in> set builtin_table"
    by (simp add: builtin_table_def)
  show "in_cidr6 (0x20010db8 * 2 ^ 96) 32 (IpV6 (0x20010db80001 * 2 ^ 80))"
    by (simp add: in_cidr6_def)
qed (rule example_allowed)

text \<open>The loopback and the unspecified address are never reachable, whatever the configuration: no
  allow entry is longer than a host route, and a tie is denied.\<close>

theorem loopback_never_allowed:
  assumes "ipnet_laws ops" "egress_build ops allow deny = Some (Inr f)"
  shows "\<not> egress_allowed ops f (IpV6 1) \<and> \<not> egress_allowed ops f (IpV6 0)"
proof -
  have len: "\<not> of_nat 128 < net_prefix_len ops net" for net
    using assms(1) by (simp add: ipnet_laws_def not_less)
  have t: "(''::1/128'', 1, 128) \<in> set builtin_table" "(''::/128'', 0, 128) \<in> set builtin_table"
    by (simp_all add: builtin_table_def)
  show ?thesis
    using builtin_override [OF assms t(1), of "IpV6 1"] builtin_override [OF assms t(2), of "IpV6 0"]
      len by (auto simp: in_cidr6_def)
qed

theorem loopback_never_allowed_witness:
  "\<not> egress_allowed plain_ops example_filter (IpV6 1)
   \<and> \<not> egress_allowed plain_ops example_filter (IpV6 0)"
  by (rule loopback_never_allowed [OF plain_laws example_build])

text \<open>The canonical form of an entry is a fixed point and stands for the same set of addresses, so
  two spellings of one network compare equal in the overlay lists.\<close>

theorem canonicalize_net_fixpoint:
  assumes "ipnet_laws ops" "canonicalize_net ops e = Inr c"
  shows "canonicalize_net ops c = Inr c
     \<and> (\<exists>n n'. parse_net ops e = Inr n \<and> parse_net ops c = Inr n'
         \<and> (\<forall>ip. net_contains ops n' ip = net_contains ops n ip))"
proof -
  obtain n where n: "parse_net ops e = Inr n" "c = net_show ops (net_trunc ops n)"
    using assms(2) by (auto simp: canonicalize_net_def res_try_eq_Inr)
  have c: "parse_net ops c = Inr (net_trunc ops n)"
    using assms(1) by (simp add: ipnet_laws_def parse_net_def contains_char_def n(2))
  show ?thesis
    using assms(1) n c by (simp add: canonicalize_net_def ipnet_laws_def)
qed

theorem canonicalize_net_fixpoint_witness:
  "\<exists>c. canonicalize_net plain_ops ''2001:db8:1::/48'' = Inr c \<and> canonicalize_net plain_ops c = Inr c"
proof -
  obtain c where c: "canonicalize_net plain_ops ''2001:db8:1::/48'' = Inr c"
    by (simp add: canonicalize_net_def example_entry)
  with canonicalize_net_fixpoint [OF plain_laws c] show ?thesis by blast
qed

text \<open>Building a filter never panics on its built-in texts, and it succeeds exactly when every
  entry of both lists is an address or a CIDR.\<close>

theorem egress_build_total:
  assumes "ipnet_laws ops"
  shows "\<exists>r. egress_build ops allow deny = Some r
     \<and> ((\<exists>f. r = Inr f) \<longleftrightarrow> (\<forall>s \<in> set (allow @ deny). \<exists>n. parse_net ops s = Inr n))"
  using assms by (rule egress_build_succeeds)

theorem egress_build_total_witness:
  "\<exists>r. egress_build plain_ops [''x''] [''y''] = Some r
     \<and> ((\<exists>f. r = Inr f) \<longleftrightarrow> (\<forall>s \<in> set ([''x''] @ [''y'']). \<exists>n. parse_net plain_ops s = Inr n))"
  by (rule egress_build_total [OF plain_laws])
end
