(* ===== verification/Policies.thy ===== *)
theory Policies
  imports AclDelta IpText "HOL-Library.Countable"
begin

text \<open>
  The persisted data of \<open>src/state.rs\<close>: hash policies, seeds, bindings and the policies record, with
  the encoding that the \<open>serde\<close> attributes of the source prescribe (snake-case variants, the seed as
  \<open>0x\<close> and sixteen hex digits, addresses as string keys, defaulted overlays). The JSON text itself is
  written and read by \<open>serde_json\<close> and the time stamps by \<open>chrono\<close>: these four functions are the
  record \<open>codec\<close>, a parameter. The encoding is over the data model of \<open>serde_json\<close> without floats,
  which no field of the program has. A struct is decoded from an object; the array form that the
  derived code also accepts is not modelled.
\<close>

section \<open>Hash policies and seeds\<close>

datatype hash_policy = SrcIp | SrcDst | FiveTuple

fun hash_policy_display :: "hash_policy \<Rightarrow> string" where
  "hash_policy_display SrcIp = ''src_ip''"
| "hash_policy_display SrcDst = ''src_dst''"
| "hash_policy_display FiveTuple = ''five_tuple''"

datatype policy_error = InvalidHashPolicy string

definition hash_policy_from_str :: "string \<Rightarrow> policy_error + hash_policy" where
  "hash_policy_from_str s =
     (if s = ''src_ip'' then Inr SrcIp
      else if s = ''src_dst'' then Inr SrcDst
      else if s = ''five_tuple'' then Inr FiveTuple
      else Inl (InvalidHashPolicy s))"

definition parse_seed :: "string \<Rightarrow> u64 option" where
  "parse_seed value =
     map_option of_nat
       (case strip_prefix ''0x'' value of
          Some hex \<Rightarrow> parse_uint 16 (2 ^ 64) hex
        | None \<Rightarrow> parse_uint 10 (2 ^ 64) value)"

lemma hash_policy_roundtrip: "hash_policy_from_str (hash_policy_display p) = Inr p"
  by (cases p) (simp_all add: hash_policy_from_str_def)

lemma hash_policy_from_str_Inr: "hash_policy_from_str s = Inr p \<longleftrightarrow> s = hash_policy_display p"
  by (cases p) (auto simp: hash_policy_from_str_def split: if_splits)

lemma parse_uint_map_digits:
  assumes "ds \<noteq> []" "hd ds < 16"
  shows "parse_uint radix bound (map digit_char ds) = acc_digits radix bound 0 (map digit_char ds)"
proof -
  obtain d ds' where ds: "ds = d # ds'" "d < 16" using assms by (cases ds) auto
  then have "code (digit_char d) \<noteq> 43" by (simp add: code_digit_char)
  then have "digit_char d \<noteq> CHR ''+''" by (auto simp: code_def)
  then show ?thesis by (simp add: ds(1) parse_uint_def)
qed

lemma parse_uint_fixed:
  assumes "n < radix ^ k" "1 \<le> radix" "radix \<le> 16" "n < bound" "1 \<le> k"
  shows "parse_uint radix bound (fixed_digits k radix n) = Some n"
proof -
  let ?ds = "rev (digits_rev k radix n)"
  have ne: "?ds \<noteq> []" using assms(5) by (cases k) simp_all
  then have "hd ?ds \<in> set (digits_rev k radix n)" by (metis hd_in_set set_rev)
  then have "hd ?ds < 16" using digits_rev_bound [OF assms(2)] assms(3) by fastforce
  then show ?thesis
    using parse_uint_map_digits [OF ne] acc_digits_fixed [OF assms(1-4)]
    by (simp add: fixed_digits_def)
qed

lemma parse_seed_format: "parse_seed (format_0x016 w) = Some w"
proof -
  have n: "unat w < 2 ^ 64" using unsigned_less [of w, where ?'a = nat] by simp
  then have "parse_uint 16 (2 ^ 64) (fixed_digits 16 16 (unat w)) = Some (unat w)"
    by (intro parse_uint_fixed) simp_all
  then show ?thesis
    unfolding parse_seed_def format_0x016_def strip_prefix_append by simp
qed

section \<open>Bindings and policies\<close>

text \<open>An instant, as the number of nanoseconds since the epoch (\<open>DateTime<Utc>\<close>).\<close>

type_synonym timestamp = int

record binding =
  bd_policy :: hash_policy
  bd_seed :: u64
  bd_updated_at :: timestamp

text \<open>The hash map of the bindings is a finite partial map: its iteration order is not specified.\<close>

record policies =
  pol_version :: u64
  pol_updated_at :: timestamp
  pol_bindings :: "ip_addr \<Rightarrow> binding option"
  pol_domain_acl :: acl_delta
  pol_egress_acl :: acl_delta

definition policies_default :: "timestamp \<Rightarrow> policies" where
  "policies_default now =
     \<lparr>pol_version = 0, pol_updated_at = now, pol_bindings = Map.empty,
      pol_domain_acl = acl_delta_default, pol_egress_acl = acl_delta_default\<rparr>"

section \<open>JSON values\<close>

datatype json =
  JNull | JBool bool | JPos u64 | JNeg "64 word" | JStr string
| JArr "json list" | JObj "(string \<times> json) list"

instance json :: countable
  by countable_datatype

record codec =
  time_show :: "timestamp \<Rightarrow> string"
  time_parse :: "string \<Rightarrow> timestamp option"
  json_print :: "json \<Rightarrow> string"
  json_parse :: "string \<Rightarrow> json option"

text \<open>What the two crates document: each reads back what it prints.\<close>

definition codec_laws :: "codec \<Rightarrow> bool" where
  "codec_laws c \<longleftrightarrow>
     (\<forall>t. time_parse c (time_show c t) = Some t) \<and> (\<forall>j. json_parse c (json_print c j) = Some j)"

text \<open>A field of a derived decoder: required, or with \<open>#[serde(default)]\<close>. A repeated field is an
  error, unknown fields are skipped.\<close>

definition json_required :: "string \<Rightarrow> ('v \<Rightarrow> 'a option) \<Rightarrow> (string \<times> 'v) list \<Rightarrow> 'a option" where
  "json_required name dec fs =
     (case filter (\<lambda>(k, v). k = name) fs of [(k, v)] \<Rightarrow> dec v | _ \<Rightarrow> None)"

definition json_defaulted ::
  "string \<Rightarrow> 'a \<Rightarrow> ('v \<Rightarrow> 'a option) \<Rightarrow> (string \<times> 'v) list \<Rightarrow> 'a option" where
  "json_defaulted name def dec fs =
     (case filter (\<lambda>(k, v). k = name) fs of
        [] \<Rightarrow> Some def | [(k, v)] \<Rightarrow> dec v | _ \<Rightarrow> None)"

fun json_string :: "json \<Rightarrow> string option" where
  "json_string (JStr s) = Some s"
| "json_string _ = None"

fun json_u64 :: "json \<Rightarrow> u64 option" where
  "json_u64 (JPos n) = Some n"
| "json_u64 _ = None"

fun map_all :: "('a \<Rightarrow> 'b option) \<Rightarrow> 'a list \<Rightarrow> 'b list option" where
  "map_all f [] = Some []"
| "map_all f (x # xs) =
     (case f x of None \<Rightarrow> None
      | Some y \<Rightarrow> (case map_all f xs of None \<Rightarrow> None | Some ys \<Rightarrow> Some (y # ys)))"

fun json_strings :: "json \<Rightarrow> string list option" where
  "json_strings (JArr xs) = map_all json_string xs"
| "json_strings _ = None"

definition json_time :: "codec \<Rightarrow> json \<Rightarrow> timestamp option" where
  "json_time c j = (case json_string j of None \<Rightarrow> None | Some s \<Rightarrow> time_parse c s)"

section \<open>Encoding and decoding\<close>

definition hash_policy_to_json :: "hash_policy \<Rightarrow> json" where
  "hash_policy_to_json p = JStr (hash_policy_display p)"

text \<open>A unit variant is read from its name, or from an object with its name and null.\<close>

fun hash_policy_from_json :: "json \<Rightarrow> hash_policy option" where
  "hash_policy_from_json (JStr s) = res_ok (hash_policy_from_str s)"
| "hash_policy_from_json (JObj [(s, JNull)]) = res_ok (hash_policy_from_str s)"
| "hash_policy_from_json _ = None"

definition seed_to_json :: "u64 \<Rightarrow> json" where
  "seed_to_json value = JStr (format_0x016 value)"

text \<open>\<open>SeedVisitor\<close>: an unsigned integer, a signed one that is not negative, or a text.\<close>

fun seed_from_json :: "json \<Rightarrow> u64 option" where
  "seed_from_json (JPos value) = Some value"
| "seed_from_json (JNeg value) = (if value <s 0 then None else Some value)"
| "seed_from_json (JStr value) = parse_seed value"
| "seed_from_json _ = None"

definition binding_to_json :: "codec \<Rightarrow> binding \<Rightarrow> json" where
  "binding_to_json c b =
     JObj [(''policy'', hash_policy_to_json (bd_policy b)),
           (''seed'', seed_to_json (bd_seed b)),
           (''updated_at'', JStr (time_show c (bd_updated_at b)))]"

fun binding_from_json :: "codec \<Rightarrow> json \<Rightarrow> binding option" where
  "binding_from_json c (JObj fs) = do {
     p \<leftarrow> json_required ''policy'' hash_policy_from_json fs;
     s \<leftarrow> json_required ''seed'' seed_from_json fs;
     t \<leftarrow> json_required ''updated_at'' (json_time c) fs;
     Some \<lparr>bd_policy = p, bd_seed = s, bd_updated_at = t\<rparr>
   }"
| "binding_from_json c _ = None"

text \<open>\<open>ip_map\<close>: the entries in the order in which the hash map is traversed. Decoding collects the
  string keys first (the last of two equal keys stays), then parses each key.\<close>

definition ip_map_to_json :: "codec \<Rightarrow> (ip_addr \<times> binding) list \<Rightarrow> json" where
  "ip_map_to_json c entries = JObj (map (\<lambda>(k, v). (show_ip k, binding_to_json c v)) entries)"

definition string_entry :: "codec \<Rightarrow> string \<times> json \<Rightarrow> (string \<times> binding) option" where
  "string_entry c kv = map_option (\<lambda>b. (fst kv, b)) (binding_from_json c (snd kv))"

fun insert_ips :: "(string \<times> binding) list \<Rightarrow> (ip_addr \<Rightarrow> binding option)
    \<Rightarrow> (ip_addr \<Rightarrow> binding option) option" where
  "insert_ips [] m = Some m"
| "insert_ips ((k, v) # es) m =
     (case parse_ip_addr k of None \<Rightarrow> None | Some ip \<Rightarrow> insert_ips es (m(ip \<mapsto> v)))"

text \<open>A string map out of the entries of an object: of two entries with one key the later stays.\<close>

fun string_map :: "(string \<times> 'a) list \<Rightarrow> (string \<times> 'a) list" where
  "string_map [] = []"
| "string_map ((k, v) # es) =
     (if k \<in> fst ` set es then string_map es else (k, v) # string_map es)"

fun ip_map_from_json :: "codec \<Rightarrow> json \<Rightarrow> (ip_addr \<Rightarrow> binding option) option" where
  "ip_map_from_json c (JObj fs) =
     (case map_all (string_entry c) fs of
        None \<Rightarrow> None
      | Some es \<Rightarrow> insert_ips (string_map es) Map.empty)"
| "ip_map_from_json c _ = None"

definition acl_delta_to_json :: "acl_delta \<Rightarrow> json" where
  "acl_delta_to_json d =
     JObj [(''allow_add'', JArr (map JStr (allow_add d))),
           (''allow_del'', JArr (map JStr (allow_del d))),
           (''deny_add'', JArr (map JStr (deny_add d))),
           (''deny_del'', JArr (map JStr (deny_del d)))]"

fun acl_delta_from_json :: "json \<Rightarrow> acl_delta option" where
  "acl_delta_from_json (JObj fs) = do {
     aa \<leftarrow> json_defaulted ''allow_add'' [] json_strings fs;
     ad \<leftarrow> json_defaulted ''allow_del'' [] json_strings fs;
     da \<leftarrow> json_defaulted ''deny_add'' [] json_strings fs;
     dd \<leftarrow> json_defaulted ''deny_del'' [] json_strings fs;
     Some \<lparr>allow_add = aa, allow_del = ad, deny_add = da, deny_del = dd\<rparr>
   }"
| "acl_delta_from_json _ = None"

definition policies_to_json :: "codec \<Rightarrow> (ip_addr \<times> binding) list \<Rightarrow> policies \<Rightarrow> json" where
  "policies_to_json c entries p =
     JObj [(''version'', JPos (pol_version p)),
           (''updated_at'', JStr (time_show c (pol_updated_at p))),
           (''bindings'', ip_map_to_json c entries),
           (''domain_acl'', acl_delta_to_json (pol_domain_acl p)),
           (''egress_acl'', acl_delta_to_json (pol_egress_acl p))]"

fun policies_from_json :: "codec \<Rightarrow> json \<Rightarrow> policies option" where
  "policies_from_json c (JObj fs) = do {
     v \<leftarrow> json_required ''version'' json_u64 fs;
     t \<leftarrow> json_required ''updated_at'' (json_time c) fs;
     b \<leftarrow> json_required ''bindings'' (ip_map_from_json c) fs;
     d \<leftarrow> json_defaulted ''domain_acl'' acl_delta_default acl_delta_from_json fs;
     e \<leftarrow> json_defaulted ''egress_acl'' acl_delta_default acl_delta_from_json fs;
     Some \<lparr>pol_version = v, pol_updated_at = t, pol_bindings = b, pol_domain_acl = d,
       pol_egress_acl = e\<rparr>
   }"
| "policies_from_json c _ = None"

text \<open>The text of the state file.\<close>

definition policies_text :: "codec \<Rightarrow> (ip_addr \<times> binding) list \<Rightarrow> policies \<Rightarrow> string" where
  "policies_text c entries p = json_print c (policies_to_json c entries p)"

definition policies_of_text :: "codec \<Rightarrow> string \<Rightarrow> policies option" where
  "policies_of_text c s = (case json_parse c s of None \<Rightarrow> None | Some j \<Rightarrow> policies_from_json c j)"

section \<open>Round trips\<close>

lemma map_all_map: "(\<And>x. x \<in> set xs \<Longrightarrow> f (g x) = Some (h x)) \<Longrightarrow> map_all f (map g xs) = Some (map h xs)"
  by (induction xs) simp_all

lemma hash_policy_json: "hash_policy_from_json (hash_policy_to_json p) = Some p"
  by (simp add: hash_policy_to_json_def hash_policy_roundtrip)

lemma seed_json: "seed_from_json (seed_to_json w) = Some w"
  by (simp add: seed_to_json_def parse_seed_format)

lemma json_time_show: "codec_laws c \<Longrightarrow> json_time c (JStr (time_show c t)) = Some t"
  by (simp add: json_time_def codec_laws_def)

lemma binding_json: "codec_laws c \<Longrightarrow> binding_from_json c (binding_to_json c b) = Some b"
  by (simp add: binding_to_json_def json_required_def hash_policy_json seed_json json_time_show)

lemma acl_delta_json: "acl_delta_from_json (acl_delta_to_json d) = Some d"
proof -
  have "json_strings (JArr (map JStr xs)) = Some xs" for xs
    using map_all_map [of xs json_string JStr id] by simp
  then show ?thesis by (simp add: acl_delta_to_json_def json_defaulted_def)
qed

lemma show_ip_inject: "show_ip a = show_ip b \<longleftrightarrow> a = b"
  by (metis ip_text_roundtrip_lemma option.inject)

lemma string_map_distinct: "distinct (map fst es) \<Longrightarrow> string_map es = es"
  by (induction es rule: string_map.induct) auto

lemma insert_ips_show:
  "distinct (map fst es) \<Longrightarrow>
     insert_ips (map (\<lambda>(k, v). (show_ip k, v)) es) m = Some (m ++ map_of (rev es))"
proof (induction es arbitrary: m)
  case (Cons e es)
  obtain k v where e: "e = (k, v)" by fastforce
  have "m(k \<mapsto> v) ++ map_of (rev es) = m ++ map_of (rev es @ [(k, v)])"
    by (auto simp: fun_eq_iff map_add_def split: option.splits)
  then show ?case using Cons e by (simp add: ip_text_roundtrip_lemma)
qed simp

lemma map_of_rev_distinct: "distinct (map fst es) \<Longrightarrow> map_of (rev es) = map_of es"
  by (metis map_of_eq_Some_iff ext distinct_rev not_None_eq rev_map set_rev)

lemma ip_map_json:
  assumes "codec_laws c" "distinct (map fst es)"
  shows "ip_map_from_json c (ip_map_to_json c es) = Some (map_of es)"
proof -
  have "map_all (string_entry c) (map (\<lambda>(k, v). (show_ip k, binding_to_json c v)) es)
      = Some (map (\<lambda>(k, v). (show_ip k, v)) es)"
    by (rule map_all_map) (auto simp: string_entry_def binding_json assms(1))
  moreover have "distinct (map fst (map (\<lambda>(k, v). (show_ip k, v)) es))"
  proof -
    have "map fst (map (\<lambda>(k, v). (show_ip k, v)) es) = map show_ip (map fst es)"
      by auto
    then show ?thesis
      using assms(2) by (simp add: distinct_map inj_on_def show_ip_inject)
  qed
  ultimately show ?thesis
    using insert_ips_show [OF assms(2), of Map.empty] map_of_rev_distinct [OF assms(2)]
    by (simp add: ip_map_to_json_def string_map_distinct)
qed

lemma policies_json:
  assumes "codec_laws c" "distinct (map fst es)" "map_of es = pol_bindings p"
  shows "policies_from_json c (policies_to_json c es p) = Some p"
  using ip_map_json [OF assms(1,2)] assms(3)
  by (simp add: policies_to_json_def json_required_def json_defaulted_def json_time_show
      [OF assms(1)] acl_delta_json)

section \<open>A concrete codec\<close>

text \<open>An instance of the parameter: a value is written as its index in an enumeration, in unary.\<close>

definition plain_codec :: codec where
  "plain_codec =
     \<lparr>time_show = (\<lambda>t. replicate (to_nat t) CHR ''t''),
      time_parse = (\<lambda>s. Some (from_nat (length s))),
      json_print = (\<lambda>j. replicate (to_nat j) CHR ''j''),
      json_parse = (\<lambda>s. Some (from_nat (length s)))\<rparr>"

lemma plain_codec_laws: "codec_laws plain_codec"
  by (simp add: codec_laws_def plain_codec_def)

section \<open>Properties\<close>

text \<open>C21: the state file round-trips: what is written for a policies record, in whatever order the hash
  map of its bindings is traversed, reads back as the same record, every binding, seed, overlay and
  the version included.\<close>

theorem policies_text_roundtrip:
  assumes "codec_laws c" "distinct (map fst entries)" "map_of entries = pol_bindings p"
  shows "policies_of_text c (policies_text c entries p) = Some p"
  using policies_json [OF assms] assms(1)
  by (simp add: policies_of_text_def policies_text_def codec_laws_def)

theorem policies_text_roundtrip_witness:
  "let b = \<lparr>bd_policy = FiveTuple, bd_seed = 0xFF, bd_updated_at = 7\<rparr>;
       p = policies_default 5 \<lparr>pol_version := 3, pol_bindings := [IpV6 1 \<mapsto> b]\<rparr>
   in policies_of_text plain_codec (policies_text plain_codec [(IpV6 1, b)] p) = Some p"
  unfolding Let_def by (rule policies_text_roundtrip [OF plain_codec_laws]) simp_all

text \<open>A seed is read the same way everywhere: the form that the program prints reads back, through
  the parser shared by the API and through the decoder of the state file; plain decimal is accepted,
  and an unprefixed hexadecimal or a number of more than 64 bits is not.\<close>

theorem seed_roundtrip:
  "parse_seed (format_0x016 w) = Some w \<and> seed_from_json (seed_to_json w) = Some w
   \<and> parse_seed ''42'' = Some 42 \<and> parse_seed ''ff'' = None
   \<and> parse_seed ''18446744073709551616'' = None"
  by (simp add: parse_seed_format seed_json,
      simp add: parse_seed_def strip_prefix_def parse_uint_def to_digit_def code_def)

end
