(* ===== verification/StateStore.thy ===== *)
theory StateStore
  imports Policies
begin

text \<open>
  The state file and the live policies of \<open>src/state.rs\<close>: \<open>load_policies\<close>, \<open>save_policies\<close> (write a
  temporary file, flush it, rename it over the state file, flush the directory), the once-initialised
  cells and \<open>apply_and_save\<close>. Every system call of the source is one step whose outcome is an input
  of the model; \<open>crash_reads\<close> says what a crash may leave of a file.
\<close>

section \<open>Paths and files\<close>

text \<open>A path that names a file: its directory and its last component (neither \<open>.\<close> nor \<open>..\<close>).\<close>

record file_path =
  fp_dir :: string
  fp_name :: string

definition file_stem :: "string \<Rightarrow> string" where
  "file_stem name =
     (case rfind_char (CHR ''.'') name of
        None \<Rightarrow> name
      | Some i \<Rightarrow> if i = 0 then name else take i name)"

definition with_extension :: "file_path \<Rightarrow> string \<Rightarrow> file_path" where
  "with_extension p ext = p\<lparr>fp_name := file_stem (fp_name p) @ ''.'' @ ext\<rparr>"

text \<open>
  A file has a content and a flag: whether that content has been flushed to the disk. \<open>fs_live\<close> is
  what running programs see, \<open>fs_disk\<close> the directory entries known to be on the disk, \<open>fs_dirs\<close> the
  directories that exist, by the names under which they were made.
\<close>

type_synonym file_entry = "string \<times> bool"

record fs =
  fs_live :: "file_path \<Rightarrow> file_entry option"
  fs_disk :: "file_path \<Rightarrow> file_entry option"
  fs_dirs :: "string set"

definition fs_write :: "file_path \<Rightarrow> string \<Rightarrow> fs \<Rightarrow> fs" where
  "fs_write p content s = s\<lparr>fs_live := (fs_live s)(p \<mapsto> (content, False))\<rparr>"

definition fs_sync :: "file_path \<Rightarrow> fs \<Rightarrow> fs" where
  "fs_sync p s =
     s\<lparr>fs_live := (fs_live s)(p := map_option (\<lambda>(content, synced). (content, True)) (fs_live s p))\<rparr>"

definition fs_rename :: "file_path \<Rightarrow> file_path \<Rightarrow> fs \<Rightarrow> fs" where
  "fs_rename p q s = s\<lparr>fs_live := (fs_live s)(q := fs_live s p, p := None)\<rparr>"

definition fs_sync_dir :: "fs \<Rightarrow> fs" where
  "fs_sync_dir s = s\<lparr>fs_disk := fs_live s\<rparr>"

definition fs_read :: "fs \<Rightarrow> file_path \<Rightarrow> string option" where
  "fs_read s p = map_option fst (fs_live s p)"

text \<open>\<open>create_dir_all\<close>: the directory and those above it, the outermost first; a directory that exists is
  passed over, and the first one that cannot be made ends it. The empty path and the root need nothing.\<close>

definition dir_chain :: "string \<Rightarrow> string list" where
  "dir_chain d =
     filter (\<lambda>d. d \<noteq> ''/'')
       (map (\<lambda>i. take i d) (filter (\<lambda>i. i = length d \<or> d ! i = CHR ''/'') [1..<Suc (length d)]))"

fun make_dirs :: "(string \<Rightarrow> bool) \<Rightarrow> string list \<Rightarrow> fs \<Rightarrow> bool \<times> fs" where
  "make_dirs mkdir_ok [] s = (True, s)"
| "make_dirs mkdir_ok (d # ds) s =
     (if d \<in> fs_dirs s then make_dirs mkdir_ok ds s
      else if \<not> mkdir_ok d then (False, s)
      else make_dirs mkdir_ok ds (s\<lparr>fs_dirs := insert d (fs_dirs s)\<rparr>))"

definition create_dir_all :: "(string \<Rightarrow> bool) \<Rightarrow> string \<Rightarrow> fs \<Rightarrow> bool \<times> fs" where
  "create_dir_all mkdir_ok d s = make_dirs mkdir_ok (dir_chain d) s"

text \<open>After a crash a path has the entry of the disk or the live one; a file that was not flushed may
  have any content.\<close>

definition entry_reads :: "file_entry option \<Rightarrow> string option \<Rightarrow> bool" where
  "entry_reads e c =
     (case e of
        None \<Rightarrow> c = None
      | Some (content, synced) \<Rightarrow> if synced then c = Some content else c \<noteq> None)"

definition crash_reads :: "fs \<Rightarrow> file_path \<Rightarrow> string option \<Rightarrow> bool" where
  "crash_reads s p c = (entry_reads (fs_disk s p) c \<or> entry_reads (fs_live s p) c)"

section \<open>Saving and loading\<close>

text \<open>
  The outcomes of the system calls: what the file holds while it is written and whether the write
  completes, and whether opening, flushing, renaming and flushing the directory succeed. \<open>env_entries\<close>
  is the order in which the hash map is traversed, \<open>env_now\<close> the clock.
\<close>

record env =
  io_partial :: string
  io_write :: bool
  io_open :: bool
  io_sync :: bool
  io_rename :: bool
  io_sync_dir :: bool
  env_entries :: "(ip_addr \<Rightarrow> binding option) \<Rightarrow> (ip_addr \<times> binding) list"
  env_now :: timestamp

datatype save_error =
  FailedToWrite file_path | FailedToOpen file_path | FailedToFsync file_path
| FailedToRename file_path file_path

text \<open>The result, and the file systems passed through, the last one being the final one.\<close>

definition save_policies ::
  "codec \<Rightarrow> env \<Rightarrow> file_path \<Rightarrow> policies \<Rightarrow> fs \<Rightarrow> (save_error + unit) \<times> fs list" where
  "save_policies c env path p fs =
     (let tmp_path = with_extension path ''json.tmp'';
          content = policies_text c (env_entries env (pol_bindings p)) p;
          fs0 = fs_write tmp_path (io_partial env) fs;
          fs1 = fs_write tmp_path content fs;
          fs2 = fs_sync tmp_path fs1;
          fs3 = fs_rename tmp_path path fs2
      in if \<not> io_write env then (Inl (FailedToWrite tmp_path), [fs, fs0])
         else if \<not> io_open env then (Inl (FailedToOpen tmp_path), [fs, fs0, fs1])
         else if \<not> io_sync env then (Inl (FailedToFsync tmp_path), [fs, fs0, fs1])
         else if \<not> io_rename env then (Inl (FailedToRename tmp_path path), [fs, fs0, fs1, fs2])
         else if \<not> io_sync_dir env then (Inr (), [fs, fs0, fs1, fs2, fs3])
         else (Inr (), [fs, fs0, fs1, fs2, fs3, fs_sync_dir fs3]))"

text \<open>The four operations that a save needs succeed; the sync of the directory may fail.\<close>

definition writable :: "env \<Rightarrow> bool" where
  "writable env = (io_write env \<and> io_open env \<and> io_sync env \<and> io_rename env)"

datatype load_error = FailedToRead file_path | FailedToParse file_path

definition load_policies ::
  "codec \<Rightarrow> timestamp \<Rightarrow> bool \<Rightarrow> file_path \<Rightarrow> fs \<Rightarrow> load_error + policies" where
  "load_policies c now read_ok path fs =
     (case fs_read fs path of
        None \<Rightarrow> Inr (policies_default now)
      | Some content \<Rightarrow>
          (if \<not> read_ok then Inl (FailedToRead path)
           else (case policies_of_text c content of
                   None \<Rightarrow> Inl (FailedToParse path)
                 | Some p \<Rightarrow> Inr p)))"

section \<open>The process state\<close>

text \<open>The statics of the process: the live policies and the cells that are set once.\<close>

record proc =
  pr_policies :: policies
  pr_state_path :: "file_path option"
  pr_default_policy :: "hash_policy option"
  pr_default_seed :: "u64 option"
  pr_fs :: fs

definition init_state_path :: "file_path \<Rightarrow> 'a proc_scheme \<Rightarrow> 'a proc_scheme run" where
  "init_state_path path s =
     (case pr_state_path s of
        Some _ \<Rightarrow> panic
      | None \<Rightarrow> ret (s\<lparr>pr_state_path := Some path\<rparr>))"

definition state_path :: "'a proc_scheme \<Rightarrow> file_path run" where
  "state_path s = pr_state_path s"

definition init_default_binding :: "hash_policy \<Rightarrow> u64 \<Rightarrow> 'a proc_scheme \<Rightarrow> 'a proc_scheme run" where
  "init_default_binding policy seed s =
     (case pr_default_policy s of
        Some _ \<Rightarrow> panic
      | None \<Rightarrow>
          (case pr_default_seed s of
             Some _ \<Rightarrow> panic
           | None \<Rightarrow> ret (s\<lparr>pr_default_policy := Some policy, pr_default_seed := Some seed\<rparr>)))"

definition default_hash_policy :: "'a proc_scheme \<Rightarrow> hash_policy \<times> 'a proc_scheme" where
  "default_hash_policy s =
     (case pr_default_policy s of
        Some p \<Rightarrow> (p, s)
      | None \<Rightarrow> (SrcIp, s\<lparr>pr_default_policy := Some SrcIp\<rparr>))"

definition default_binding_seed :: "'a proc_scheme \<Rightarrow> u64 \<times> 'a proc_scheme" where
  "default_binding_seed s =
     (case pr_default_seed s of
        Some n \<Rightarrow> (n, s)
      | None \<Rightarrow> (0, s\<lparr>pr_default_seed := Some 0\<rparr>))"

definition default_binding :: "timestamp \<Rightarrow> 'a proc_scheme \<Rightarrow> binding \<times> 'a proc_scheme" where
  "default_binding now s =
     (let (p, s1) = default_hash_policy s;
          (n, s2) = default_binding_seed s1
      in (\<lparr>bd_policy = p, bd_seed = n, bd_updated_at = now\<rparr>, s2))"

text \<open>
  \<open>apply_and_save\<close> under its lock: clone, mutate (which may panic), count the version (wrapping at 64
  bits), save, and only then publish. \<open>save_start\<close> is what the lock holder decides before the first file
  operation: the outcome and the file systems that the save passes through; \<open>publish\<close> is the store.
\<close>

definition save_start ::
  "codec \<Rightarrow> env \<Rightarrow> (policies \<Rightarrow> policies run) \<Rightarrow> 'a proc_scheme
     \<Rightarrow> ((save_error + policies) \<times> fs list) run" where
  "save_start c env mutator s =
     (case mutator (pr_policies s) of
        None \<Rightarrow> panic
      | Some np \<Rightarrow>
          (let new_policies = np\<lparr>pol_version := pol_version np + 1, pol_updated_at := env_now env\<rparr> in
           case state_path s of
             None \<Rightarrow> panic
           | Some path \<Rightarrow>
               (let (r, trace) = save_policies c env path new_policies (pr_fs s)
                in ret (case r of Inl e \<Rightarrow> Inl e | Inr u \<Rightarrow> Inr new_policies, trace))))"

definition publish :: "save_error + policies \<Rightarrow> 'a proc_scheme \<Rightarrow> 'a proc_scheme" where
  "publish r s = (case r of Inl e \<Rightarrow> s | Inr new_policies \<Rightarrow> s\<lparr>pr_policies := new_policies\<rparr>)"

definition apply_and_save ::
  "codec \<Rightarrow> env \<Rightarrow> (policies \<Rightarrow> policies run) \<Rightarrow> 'a proc_scheme
     \<Rightarrow> (save_error + policies) run \<times> 'a proc_scheme" where
  "apply_and_save c env mutator s =
     (case save_start c env mutator s of
        None \<Rightarrow> (panic, s)
      | Some (r, trace) \<Rightarrow> (ret r, publish r (s\<lparr>pr_fs := last trace\<rparr>)))"

lemmas apply_and_save_defs = apply_and_save_def save_start_def publish_def

section \<open>Facts\<close>

lemma rfind_char_last:
  "c \<notin> set y \<Longrightarrow> rfind_char c (x @ c # y) = Some (length x)"
proof -
  assume c: "c \<notin> set y"
  then have "takeWhile (\<lambda>z. z \<noteq> c) (rev y @ c # rev x) = rev y"
    by (subst takeWhile_append2) auto
  then show ?thesis by (simp add: rfind_char_def)
qed

lemma file_stem_tagged: "file_stem (x @ ''.json.tmp'') = x @ ''.json''"
proof -
  have "x @ ''.json.tmp'' = (x @ ''.json'') @ CHR ''.'' # ''tmp''" by simp
  then have "rfind_char (CHR ''.'') (x @ ''.json.tmp'') = Some (length (x @ ''.json''))"
    by (simp only: rfind_char_last) (rule rfind_char_last, simp)
  then show ?thesis by (simp add: file_stem_def)
qed

lemma tmp_path_neq [simp]: "with_extension path ''json.tmp'' \<noteq> path"
proof
  let ?x = "file_stem (fp_name path)"
  assume "with_extension path ''json.tmp'' = path"
  then have "fp_name (with_extension path ''json.tmp'') = fp_name path" by simp
  then have "fp_name path = ?x @ ''.json.tmp''" by (simp add: with_extension_def)
  then have "?x = file_stem (?x @ ''.json.tmp'')" by (rule arg_cong)
  then have "length ?x = length (?x @ ''.json'')"
    unfolding file_stem_tagged by (rule arg_cong)
  then show False by simp
qed

lemma tmp_path_neq' [simp]: "path \<noteq> with_extension path ''json.tmp''"
  using tmp_path_neq by metis

lemma make_dirs_frame:
  "fs_live (snd (make_dirs ok ds s)) = fs_live s" "fs_disk (snd (make_dirs ok ds s)) = fs_disk s"
  "fs_dirs s \<subseteq> fs_dirs (snd (make_dirs ok ds s))"
  "fs_dirs (snd (make_dirs ok ds s)) \<subseteq> fs_dirs s \<union> set ds"
  by (induction ok ds s rule: make_dirs.induct) auto

lemmas create_dir_all_frame = make_dirs_frame [where ds = "dir_chain d" for d, folded create_dir_all_def]

lemma make_dirs_ok: "(\<And>d. d \<in> set ds \<Longrightarrow> ok d) \<Longrightarrow> fst (make_dirs ok ds s)"
  by (induction ok ds s rule: make_dirs.induct) auto

lemmas create_dir_all_ok = make_dirs_ok [where ds = "dir_chain d" for d, folded create_dir_all_def]

lemma create_dir_all_reads: "fs_read (snd (create_dir_all ok d s)) = fs_read s"
  by (simp add: fs_read_def create_dir_all_frame fun_eq_iff)

lemmas fs_defs = fs_write_def fs_sync_def fs_rename_def fs_sync_dir_def fs_read_def

lemma save_policies_Inl:
  "save_policies c env path p fs = (Inl e, tr) \<Longrightarrow>
     fs_live (last tr) path = fs_live fs path \<and> fs_disk (last tr) = fs_disk fs"
  by (auto simp: save_policies_def Let_def fs_defs split: if_splits)

lemma save_policies_Inr:
  "save_policies c env path p fs = (Inr u, tr) \<Longrightarrow>
     fs_live (last tr) path = Some (policies_text c (env_entries env (pol_bindings p)) p, True)"
  by (auto simp: save_policies_def Let_def fs_defs split: if_splits)

lemma entry_reads_simps [simp]:
  "entry_reads None c \<longleftrightarrow> c = None" "entry_reads (Some (x, True)) c \<longleftrightarrow> c = Some x"
  by (simp_all add: entry_reads_def)

lemma entry_reads_sync:
  "entry_reads (map_option (\<lambda>(content, synced). (content, True)) e) c \<Longrightarrow> entry_reads e c"
  by (cases e) (auto simp: entry_reads_def)

lemma apply_and_save_cases:
  obtains (panic) "apply_and_save c env f s = (None, s)"
      "f (pr_policies s) = None \<or> pr_state_path s = None"
  | (fails) e tr np path where "f (pr_policies s) = Some np" "pr_state_path s = Some path"
      "save_policies c env path
         (np\<lparr>pol_version := pol_version np + 1, pol_updated_at := env_now env\<rparr>) (pr_fs s) = (Inl e, tr)"
      "apply_and_save c env f s = (Some (Inl e), s\<lparr>pr_fs := last tr\<rparr>)"
  | (ok) tr np p path where "f (pr_policies s) = Some np" "pr_state_path s = Some path"
      "p = np\<lparr>pol_version := pol_version np + 1, pol_updated_at := env_now env\<rparr>"
      "save_policies c env path p (pr_fs s) = (Inr (), tr)"
      "apply_and_save c env f s = (Some (Inr p), s\<lparr>pr_fs := last tr, pr_policies := p\<rparr>)"
proof (cases "f (pr_policies s)")
  case None
  then show ?thesis using panic by (simp add: apply_and_save_defs)
next
  case (Some np)
  note mutated = Some
  show ?thesis
  proof (cases "pr_state_path s")
    case None
    then show ?thesis using panic mutated by (simp add: apply_and_save_defs state_path_def Let_def)
  next
    case (Some path)
    obtain r tr where save: "save_policies c env path
        (np\<lparr>pol_version := pol_version np + 1, pol_updated_at := env_now env\<rparr>) (pr_fs s) = (r, tr)"
      by fastforce
    show ?thesis
      using fails [OF mutated Some] ok [OF mutated Some] save mutated Some
      by (cases r) (simp_all add: apply_and_save_defs state_path_def Let_def)
  qed
qed

lemma save_writable: "save_policies c env path p fs = (Inl e, tr) \<Longrightarrow> \<not> writable env"
  by (auto simp: save_policies_def writable_def Let_def split: if_splits)

lemma apply_writable: "apply_and_save c env f s = (Some (Inl e), s') \<Longrightarrow> \<not> writable env"
  by (cases rule: apply_and_save_cases [of c env f s]) (auto dest: save_writable)

text \<open>On the way to its result a save leaves the state file as it was, or it has the new text.\<close>

lemma save_policies_trace:
  assumes "save_policies c env path p fs = (r, tr)" "f \<in> set tr"
  shows "fs_read f path = fs_read fs path
    \<or> r = Inr () \<and> fs_read f path = Some (policies_text c (env_entries env (pol_bindings p)) p)"
  using assms by (auto simp: save_policies_def Let_def fs_defs all_bool_eq ex_bool_eq split: if_splits)

text \<open>A list of entries enumerates a finite map.\<close>

definition enumerates :: "('a \<times> 'b) list \<Rightarrow> ('a \<Rightarrow> 'b option) \<Rightarrow> bool" where
  "enumerates es m \<longleftrightarrow> distinct (map fst es) \<and> map_of es = m"

lemma load_after_save:
  assumes "codec_laws c" "enumerates (env_entries env (pol_bindings p)) (pol_bindings p)"
    and "save_policies c env path p fs = (Inr u, tr)"
  shows "load_policies c now True path (last tr) = Inr p"
proof -
  have "policies_of_text c (policies_text c (env_entries env (pol_bindings p)) p) = Some p"
    using policies_json [OF assms(1)] assms(1,2)
    by (simp add: policies_of_text_def policies_text_def codec_laws_def enumerates_def)
  then show ?thesis
    using save_policies_Inr [OF assms(3)] by (simp add: load_policies_def fs_read_def)
qed

section \<open>Properties\<close>

text \<open>C9: saving is crash safe: at every moment of \<open>save_policies\<close>, whichever system call fails, what a
  crash would leave of the state file is what it could have left before, or the complete new content;
  after a success that reached the directory it is the new content.\<close>

theorem save_crash_safe:
  assumes "save_policies c env path p fs = (r, trace)"
  shows "(\<forall>st \<in> set trace. \<forall>x. crash_reads st path x \<longrightarrow>
      crash_reads fs path x \<or> x = Some (policies_text c (env_entries env (pol_bindings p)) p))
    \<and> (r = Inr () \<and> io_sync_dir env \<longrightarrow>
      (\<forall>x. crash_reads (last trace) path x \<longrightarrow>
         x = Some (policies_text c (env_entries env (pol_bindings p)) p)))"
  using assms
  by (auto simp: save_policies_def Let_def fs_defs crash_reads_def split: if_splits)

definition example_env :: env where
  "example_env =
     \<lparr>io_partial = [], io_write = True, io_open = True, io_sync = True, io_rename = True,
      io_sync_dir = True, env_entries = (\<lambda>m. []), env_now = 9\<rparr>"

definition example_path :: file_path where
  "example_path = \<lparr>fp_dir = ''/var/lib/v6proxy'', fp_name = ''policies.json''\<rparr>"

definition example_proc :: proc where
  "example_proc =
     \<lparr>pr_policies = policies_default 5, pr_state_path = Some example_path,
      pr_default_policy = None, pr_default_seed = None,
      pr_fs = \<lparr>fs_live = Map.empty, fs_disk = Map.empty, fs_dirs = {}\<rparr>\<rparr>"

theorem save_crash_safe_witness:
  "\<exists>trace. save_policies plain_codec (example_env\<lparr>io_rename := False\<rparr>) example_path
       (policies_default 5) (pr_fs example_proc)
     = (Inl (FailedToRename (with_extension example_path ''json.tmp'') example_path), trace)
   \<and> (\<forall>st \<in> set trace. \<forall>x. crash_reads st example_path x \<longrightarrow>
       crash_reads (pr_fs example_proc) example_path x
       \<or> x = Some (policies_text plain_codec [] (policies_default 5)))"
proof -
  obtain r tr where save: "save_policies plain_codec (example_env\<lparr>io_rename := False\<rparr>) example_path
      (policies_default 5) (pr_fs example_proc) = (r, tr)" by fastforce
  moreover from this have "r = Inl (FailedToRename (with_extension example_path ''json.tmp'') example_path)"
    by (simp add: save_policies_def Let_def example_env_def split: if_splits)
  ultimately show ?thesis
    using save_crash_safe [OF save] by (simp add: example_env_def)
qed

text \<open>C20: \<open>apply_and_save\<close> is all or nothing: a panicking mutation changes nothing, a failed save leaves
  the live policies and the state file as they were, and a success publishes the mutated policies
  with the next version, exactly those that a restart would load from the state file.\<close>

theorem apply_and_save_atomic:
  assumes "codec_laws c" "pr_state_path s = Some path"
    and "\<forall>np. f (pr_policies s) = Some np \<longrightarrow>
           enumerates (env_entries env (pol_bindings np)) (pol_bindings np)"
    and "apply_and_save c env f s = (r, s')"
  shows "case r of
      None \<Rightarrow> s' = s
    | Some (Inl e) \<Rightarrow> pr_policies s' = pr_policies s \<and> fs_read (pr_fs s') path = fs_read (pr_fs s) path
    | Some (Inr p) \<Rightarrow> pr_policies s' = p \<and> load_policies c now True path (pr_fs s') = Inr p
        \<and> (\<exists>np. f (pr_policies s) = Some np
              \<and> p = np\<lparr>pol_version := pol_version np + 1, pol_updated_at := env_now env\<rparr>)"
proof (cases rule: apply_and_save_cases [of c env f s])
  case panic
  then show ?thesis using assms(4) by simp
next
  case (fails e tr np q)
  then show ?thesis
    using assms(2,4) save_policies_Inl [OF fails(3)] by (auto simp: fs_read_def)
next
  case (ok tr np p q)
  have "q = path" using ok(2) assms(2) by simp
  moreover have "enumerates (env_entries env (pol_bindings p)) (pol_bindings p)"
    using assms(3) ok(1,3) by simp
  ultimately show ?thesis
    using assms(4) ok load_after_save [OF assms(1), of env p q "pr_fs s"] by auto
qed

theorem apply_and_save_atomic_witness:
  "\<exists>p. apply_and_save plain_codec example_env Some example_proc
       = (Some (Inr p), snd (apply_and_save plain_codec example_env Some example_proc))
     \<and> pol_version p = 1
     \<and> load_policies plain_codec 0 True example_path
         (pr_fs (snd (apply_and_save plain_codec example_env Some example_proc))) = Inr p"
proof -
  let ?p = "(policies_default 5)\<lparr>pol_version := 1, pol_updated_at := 9\<rparr>"
  obtain r s' where run: "apply_and_save plain_codec example_env Some example_proc = (r, s')"
    by fastforce
  have r: "r = Some (Inr ?p)"
    using run by (simp add: apply_and_save_defs state_path_def example_proc_def save_policies_def
        example_env_def Let_def policies_default_def)
  have path: "pr_state_path example_proc = Some example_path" by (simp add: example_proc_def)
  have enum: "\<forall>np. Some (pr_policies example_proc) = Some np \<longrightarrow>
      enumerates (env_entries example_env (pol_bindings np)) (pol_bindings np)"
    by (auto simp: enumerates_def example_env_def example_proc_def policies_default_def)
  have "load_policies plain_codec 0 True example_path (pr_fs s') = Inr ?p"
    using apply_and_save_atomic [OF plain_codec_laws path enum run, of 0] unfolding r by simp
  then show ?thesis
    unfolding run r by (intro exI [of _ ?p]) simp
qed

end
