(* ===== verification/AclRuntime.thy ===== *)
theory AclRuntime
  imports DomainAcl EgressFilter StateStore
begin

text \<open>
  The live filters of \<open>src/acl.rs\<close>: the effective lists (configuration base and persisted overlay)
  are stripped of entries that do not parse, compiled and published for the data plane. The statics
  of the source are fields of one record that extends the process state.
\<close>

section \<open>The process state with its filters\<close>

record 'net app = proc +
  ap_domain_base :: "(string list \<times> string list) option"
  ap_egress_base :: "(string list \<times> string list) option"
  ap_domain_filter :: domain_filter
  ap_egress_filter :: "'net egress_filter"
  ap_domain_blocked :: u64
  ap_egress_blocked :: u64

section \<open>The domain side\<close>

text \<open>The entries that parse, and those that do not, each with its error.\<close>

fun filter_valid_rules :: "string list \<Rightarrow> string list \<times> (string \<times> rule_error) list" where
  "filter_valid_rules [] = ([], [])"
| "filter_valid_rules (r # rs) =
     (let (ok, bad) = filter_valid_rules rs in
      case parse_rule r of Inr x \<Rightarrow> (r # ok, bad) | Inl e \<Rightarrow> (ok, (r, e) # bad))"

definition build_domain_filter ::
  "string list \<Rightarrow> string list \<Rightarrow> acl_delta \<Rightarrow> domain_filter \<times> (string \<times> rule_error) list" where
  "build_domain_filter base_allow base_deny delta =
     (let (allow, bad) = filter_valid_rules (effective_allow delta base_allow);
          (deny, bad_deny) = filter_valid_rules (effective_deny delta base_deny);
          filter = (case domain_filter_build allow deny of
                      Inl e \<Rightarrow> domain_filter_default | Inr f \<Rightarrow> f)
      in (filter, bad @ bad_deny))"

definition rebuild_domain_filter :: "('net, 'a) app_scheme \<Rightarrow> ('net, 'a) app_scheme run" where
  "rebuild_domain_filter s =
     (case ap_domain_base s of
        None \<Rightarrow> panic
      | Some (base_allow, base_deny) \<Rightarrow>
          (let (filter, bad) =
             build_domain_filter base_allow base_deny (pol_domain_acl (pr_policies s))
           in ret (s\<lparr>ap_domain_filter := filter\<rparr>)))"

text \<open>\<open>OnceCell::set\<close> with its error ignored: the first value stays.\<close>

definition set_once :: "'a option \<Rightarrow> 'a \<Rightarrow> 'a option" where
  "set_once cell v = (case cell of None \<Rightarrow> Some v | Some w \<Rightarrow> Some w)"

definition init_domain_filter ::
  "string list \<Rightarrow> string list \<Rightarrow> ('net, 'a) app_scheme \<Rightarrow> ('net, 'a) app_scheme run" where
  "init_domain_filter base_allow base_deny s =
     (let ba = List.map_filter (\<lambda>r. res_ok (canonicalize_rule r)) base_allow;
          bd = List.map_filter (\<lambda>r. res_ok (canonicalize_rule r)) base_deny
      in rebuild_domain_filter (s\<lparr>ap_domain_base := set_once (ap_domain_base s) (ba, bd)\<rparr>))"

definition note_domain_blocked :: "('net, 'a) app_scheme \<Rightarrow> ('net, 'a) app_scheme" where
  "note_domain_blocked s = s\<lparr>ap_domain_blocked := ap_domain_blocked s + 1\<rparr>"

definition domain_base :: "('net, 'a) app_scheme \<Rightarrow> string list \<times> string list" where
  "domain_base s = (case ap_domain_base s of None \<Rightarrow> ([], []) | Some b \<Rightarrow> b)"

section \<open>The egress side\<close>

fun filter_valid_nets :: "'net ipnet_ops \<Rightarrow> string list \<Rightarrow> string list \<times> string list" where
  "filter_valid_nets ops [] = ([], [])"
| "filter_valid_nets ops (e # es) =
     (let (ok, bad) = filter_valid_nets ops es in
      case parse_net ops e of Inr n \<Rightarrow> (e # ok, bad) | Inl x \<Rightarrow> (ok, e # bad))"

definition build_egress_filter ::
  "'net ipnet_ops \<Rightarrow> string list \<Rightarrow> string list \<Rightarrow> acl_delta
     \<Rightarrow> ('net egress_filter \<times> string list) run" where
  "build_egress_filter ops base_allow base_deny delta =
     (let (allow, bad) = filter_valid_nets ops (effective_allow delta base_allow);
          (deny, bad_deny) = filter_valid_nets ops (effective_deny delta base_deny)
      in do {
        built \<leftarrow> egress_build ops allow deny;
        let filter = (case built of Inl e \<Rightarrow> egress_filter_default | Inr f \<Rightarrow> f);
        ret (filter, bad @ bad_deny)
      })"

definition rebuild_egress_filter ::
  "'net ipnet_ops \<Rightarrow> ('net, 'a) app_scheme \<Rightarrow> ('net, 'a) app_scheme run" where
  "rebuild_egress_filter ops s =
     (case ap_egress_base s of
        None \<Rightarrow> panic
      | Some (base_allow, base_deny) \<Rightarrow> do {
          (filter, bad) \<leftarrow>
            build_egress_filter ops base_allow base_deny (pol_egress_acl (pr_policies s));
          ret (s\<lparr>ap_egress_filter := filter\<rparr>)
        })"

definition init_egress_filter ::
  "'net ipnet_ops \<Rightarrow> string list \<Rightarrow> string list \<Rightarrow> ('net, 'a) app_scheme
     \<Rightarrow> ('net, 'a) app_scheme run" where
  "init_egress_filter ops base_allow base_deny s =
     (let ba = List.map_filter (\<lambda>e. res_ok (canonicalize_net ops e)) base_allow;
          bd = List.map_filter (\<lambda>e. res_ok (canonicalize_net ops e)) base_deny
      in rebuild_egress_filter ops (s\<lparr>ap_egress_base := set_once (ap_egress_base s) (ba, bd)\<rparr>))"

definition note_egress_blocked :: "('net, 'a) app_scheme \<Rightarrow> ('net, 'a) app_scheme" where
  "note_egress_blocked s = s\<lparr>ap_egress_blocked := ap_egress_blocked s + 1\<rparr>"

definition egress_base :: "('net, 'a) app_scheme \<Rightarrow> string list \<times> string list" where
  "egress_base s = (case ap_egress_base s of None \<Rightarrow> ([], []) | Some b \<Rightarrow> b)"

section \<open>What the lists keep\<close>

lemma filter_valid_rules_fst:
  "fst (filter_valid_rules rs) = filter (\<lambda>r. \<exists>x. parse_rule r = Inr x) rs"
  by (induction rs) (auto split: sum.splits prod.splits)

lemma filter_valid_rules_snd:
  "snd (filter_valid_rules rs) = [(r, e). r \<leftarrow> rs, e \<leftarrow> (case parse_rule r of Inl e \<Rightarrow> [e] | Inr x \<Rightarrow> [])]"
  by (induction rs) (auto split: sum.splits prod.splits)

lemma filter_valid_nets_fst:
  "fst (filter_valid_nets ops es) = filter (\<lambda>e. \<exists>n. parse_net ops e = Inr n) es"
  by (induction es) (auto split: sum.splits prod.splits)

lemma parsed_rules_filter: "parsed_rules (filter (\<lambda>r. \<exists>x. parse_rule r = Inr x) rs) = parsed_rules rs"
  by (auto simp: parsed_rules_def)

lemma parsed_nets_filter:
  "parsed_nets ops (filter (\<lambda>e. \<exists>n. parse_net ops e = Inr n) es) = parsed_nets ops es"
  by (auto simp: parsed_nets_def)

text \<open>The comment of the source, that every remaining rule parses: the build cannot fail.\<close>

lemma valid_rules_build:
  "\<exists>f. domain_filter_build (fst (filter_valid_rules a)) (fst (filter_valid_rules d)) = Inr f"
proof -
  have "\<exists>ys. collect_results parse_rule (fst (filter_valid_rules rs)) = Inr ys" for rs
    by (rule collect_results_ok) (simp add: filter_valid_rules_fst)
  then obtain x y where "collect_results parse_rule (fst (filter_valid_rules a)) = Inr x"
    "collect_results parse_rule (fst (filter_valid_rules d)) = Inr y" by metis
  then show ?thesis by (simp add: domain_filter_build_def)
qed

lemma build_domain_filter_Inr:
  "domain_filter_build (fst (filter_valid_rules (effective_allow d ba)))
     (fst (filter_valid_rules (effective_deny d bd))) = Inr (fst (build_domain_filter ba bd d))"
  using valid_rules_build [of "effective_allow d ba" "effective_deny d bd"]
  by (auto simp: build_domain_filter_def split: prod.splits)

lemma build_domain_filter_snd:
  "snd (build_domain_filter ba bd d) =
     snd (filter_valid_rules (effective_allow d ba)) @ snd (filter_valid_rules (effective_deny d bd))"
  by (simp add: build_domain_filter_def split: prod.splits)

lemma valid_nets_build:
  assumes "ipnet_laws ops"
  shows "\<exists>f. egress_build ops (fst (filter_valid_nets ops a)) (fst (filter_valid_nets ops d)) = Some (Inr f)"
proof -
  have "\<exists>ns. parse_net_list ops (fst (filter_valid_nets ops es)) = Inr ns" for es
    unfolding parse_net_list_def by (rule collect_results_ok) (simp add: filter_valid_nets_fst)
  then obtain x y where "parse_net_list ops (fst (filter_valid_nets ops a)) = Inr x"
    "parse_net_list ops (fst (filter_valid_nets ops d)) = Inr y" by metis
  then show ?thesis using builtin_blocked_ok [OF assms] by (auto simp: egress_build_Inr)
qed

lemma build_egress_filter_Inr:
  assumes "ipnet_laws ops"
  obtains f bad where "build_egress_filter ops ba bd d = Some (f, bad)"
    "egress_build ops (fst (filter_valid_nets ops (effective_allow d ba)))
       (fst (filter_valid_nets ops (effective_deny d bd))) = Some (Inr f)"
proof -
  obtain f where "egress_build ops (fst (filter_valid_nets ops (effective_allow d ba)))
      (fst (filter_valid_nets ops (effective_deny d bd))) = Some (Inr f)"
    using valid_nets_build [OF assms] by blast
  with that show ?thesis
    by (simp add: build_egress_filter_def case_prod_beta Let_def)
qed

lemma rebuild_egress_total:
  assumes "ipnet_laws ops" "ap_egress_base s = Some (ba, bd)"
  obtains f where "rebuild_egress_filter ops s = Some (s\<lparr>ap_egress_filter := f\<rparr>)"
    "\<forall>ip. egress_allowed ops f ip \<longleftrightarrow>
       model_b (net_prefix_len ops) (net_contains ops)
         (parsed_nets ops (effective_allow (pol_egress_acl (pr_policies s)) ba))
         (parsed_nets ops (effective_deny (pol_egress_acl (pr_policies s)) bd @ builtin_texts)) ip"
proof -
  let ?d = "pol_egress_acl (pr_policies s)"
  obtain f bad where
    f: "build_egress_filter ops ba bd ?d = Some (f, bad)" and
    b: "egress_build ops (fst (filter_valid_nets ops (effective_allow ?d ba)))
          (fst (filter_valid_nets ops (effective_deny ?d bd))) = Some (Inr f)"
    by (rule build_egress_filter_Inr [OF assms(1)])
  have "rebuild_egress_filter ops s = Some (s\<lparr>ap_egress_filter := f\<rparr>)"
    by (simp add: rebuild_egress_filter_def assms(2) f)
  moreover have "egress_allowed ops f ip \<longleftrightarrow>
      model_b (net_prefix_len ops) (net_contains ops) (parsed_nets ops (effective_allow ?d ba))
        (parsed_nets ops (effective_deny ?d bd @ builtin_texts)) ip" for ip
    using egress_build_sets [OF b]
    by (simp add: egress_allowed_iff filter_valid_nets_fst parsed_nets_filter parsed_nets_append)
  ultimately show ?thesis using that by blast
qed

section \<open>Properties\<close>

text \<open>C13: whatever the persisted overlay holds, even entries that do not parse, the compiled domain
  filter decides by model B over the rules of the effective lists (base and additions without the
  suppressed ones), and it reports exactly the entries it had to skip.\<close>

theorem live_domain_filter_model_b:
  assumes "build_domain_filter ba bd d = (f, bad)" "length host \<le> 65535"
  shows "(host_allowed f host \<longleftrightarrow>
      model_b rule_specificity rule_matches (parsed_rules (effective_allow d ba))
        (parsed_rules (effective_deny d bd)) (normalize_name host))
    \<and> map fst bad = filter (\<lambda>r. \<not> (\<exists>x. parse_rule r = Inr x)) (effective_allow d ba @ effective_deny d bd)"
proof -
  have build: "domain_filter_build (fst (filter_valid_rules (effective_allow d ba)))
      (fst (filter_valid_rules (effective_deny d bd))) = Inr f"
    using build_domain_filter_Inr [of d ba bd] assms(1) by simp
  have "map fst (snd (filter_valid_rules rs)) = filter (\<lambda>r. \<not> (\<exists>x. parse_rule r = Inr x)) rs" for rs
    by (induction rs) (auto split: sum.splits prod.splits)
  then have "map fst bad = filter (\<lambda>r. \<not> (\<exists>x. parse_rule r = Inr x))
      (effective_allow d ba @ effective_deny d bd)"
    using build_domain_filter_snd [of ba bd d] assms(1) by simp
  then show ?thesis
    using domain_filter_build_Inr [OF build] assms(2)
    by (simp add: host_allowed_model_b filter_valid_rules_fst parsed_rules_filter)
qed

theorem live_domain_filter_model_b_witness:
  "\<exists>f. build_domain_filter [''domain:a.b''] []
         (acl_delta_default\<lparr>allow_add := [''regexp:x'']\<rparr>) = (f, [(''regexp:x'', InvalidDomain ''regexp:x'')])
     \<and> (host_allowed f ''A.b.'' \<longleftrightarrow>
          model_b rule_specificity rule_matches
            (parsed_rules (effective_allow (acl_delta_default\<lparr>allow_add := [''regexp:x'']\<rparr>) [''domain:a.b'']))
            (parsed_rules (effective_deny (acl_delta_default\<lparr>allow_add := [''regexp:x'']\<rparr>) []))
            (normalize_name ''A.b.''))"
proof -
  let ?d = "acl_delta_default\<lparr>allow_add := [''regexp:x'']\<rparr>"
  obtain f bad where b: "build_domain_filter [''domain:a.b''] [] ?d = (f, bad)" by fastforce
  have p: "parse_rule ''regexp:x'' = Inl (InvalidDomain ''regexp:x'')" by code_simp
  have q: "parse_rule ''domain:a.b'' = Inr (Domain_zone ''a.b'')" by code_simp
  have "bad = [(''regexp:x'', InvalidDomain ''regexp:x'')]"
    using b by (auto simp: build_domain_filter_def effective_allow_def effective_deny_def
        merge_acl_def acl_delta_default_def p q)
  with b live_domain_filter_model_b [OF b, of "''A.b.''"] show ?thesis by auto
qed

text \<open>C14: the same for the egress filter: rebuilding never panics, and the published filter decides by
  model B over the networks of the effective lists, the built-in ranges always among the denied.\<close>

theorem live_egress_filter_model_b:
  assumes "ipnet_laws ops" "ap_egress_base s = Some (ba, bd)"
  shows "\<exists>f. rebuild_egress_filter ops s = Some (s\<lparr>ap_egress_filter := f\<rparr>)
     \<and> (\<forall>ip. egress_allowed ops f ip \<longleftrightarrow>
          model_b (net_prefix_len ops) (net_contains ops)
            (parsed_nets ops (effective_allow (pol_egress_acl (pr_policies s)) ba))
            (parsed_nets ops (effective_deny (pol_egress_acl (pr_policies s)) bd @ builtin_texts)) ip)"
  using rebuild_egress_total [OF assms] by blast

definition example_app :: "(ip_addr \<times> u8) app" where
  "example_app = proc.extend example_proc
     \<lparr>ap_domain_base = Some ([], []), ap_egress_base = Some ([''2001:db8:1::/48''], []),
      ap_domain_filter = domain_filter_default, ap_egress_filter = egress_filter_default,
      ap_domain_blocked = 0, ap_egress_blocked = 0\<rparr>"

theorem live_egress_filter_model_b_witness:
  "\<exists>f. rebuild_egress_filter plain_ops example_app = Some (example_app\<lparr>ap_egress_filter := f\<rparr>)"
proof -
  have "ap_egress_base example_app = Some ([''2001:db8:1::/48''], [])"
    by (simp add: example_app_def proc.defs)
  from live_egress_filter_model_b [OF plain_laws this] show ?thesis by blast
qed

end
