(* ===== verification/ApiHandlers.thy ===== *)
theory ApiHandlers
  imports AclRuntime
begin

text \<open>
  The handlers of the admin API (\<open>src/api/handlers.rs\<close>), each as a function of the decoded request
  and of the process state. A handler that panics returns \<open>panic\<close>; \<open>axum\<close>, which decodes requests
  and encodes responses, is not part of the model. A handler that checks first and applies later is
  split where the source releases the state, so that its parts can also be interleaved.
\<close>

section \<open>Responses\<close>

record binding_response =
  br_srcip :: string
  br_policy :: hash_policy
  br_seed :: string
  br_updated_at :: string
  br_exists :: bool

record acl_list_view =
  lv_base :: "string list"
  lv_add :: "string list"
  lv_del :: "string list"
  lv_effective :: "string list"

record acl_view =
  av_allow :: acl_list_view
  av_deny :: acl_list_view

datatype acl_error = RuleError rule_error | NetError net_error

datatype body =
  BindingBody binding_response
| BindingsBody "binding_response list" nat
| StatusBody string
| ErrorBody string
| InvalidRuleBody string acl_error
| AclBody acl_view
| MetricsBody nat u64 u64
| TextBody string

record response =
  rs_status :: nat
  rs_body :: body

abbreviation (input) respond :: "nat \<Rightarrow> body \<Rightarrow> response" where
  "respond status b \<equiv> \<lparr>rs_status = status, rs_body = b\<rparr>"

abbreviation (input) invalid_ip :: response where
  "invalid_ip \<equiv> respond 400 (ErrorBody ''invalid IP address'')"

abbreviation (input) not_found :: response where
  "not_found \<equiv> respond 404 (ErrorBody ''srcip not found'')"

abbreviation (input) failed_to_save :: response where
  "failed_to_save \<equiv> respond 500 (ErrorBody ''failed to save'')"

text \<open>The crates that the API uses: networks, the codec of the state file and the time stamps of the
  responses (\<open>to_rfc3339\<close>).\<close>

record 'net api =
  api_nets :: "'net ipnet_ops"
  api_codec :: codec
  api_rfc3339 :: "timestamp \<Rightarrow> string"

definition from_binding :: "'net api \<Rightarrow> ip_addr \<Rightarrow> binding \<Rightarrow> bool \<Rightarrow> binding_response" where
  "from_binding api srcip b found =
     \<lparr>br_srcip = show_ip srcip, br_policy = bd_policy b, br_seed = format_0x016 (bd_seed b),
      br_updated_at = api_rfc3339 api (bd_updated_at b), br_exists = found\<rparr>"

section \<open>Reading\<close>

definition healthz :: response where
  "healthz = respond 200 (StatusBody ''ok'')"

definition metrics_handler :: "('net, 'a) app_scheme \<Rightarrow> response" where
  "metrics_handler s =
     respond 200 (MetricsBody (card (dom (pol_bindings (pr_policies s))))
       (ap_domain_blocked s) (ap_egress_blocked s))"

definition list_bindings :: "'net api \<Rightarrow> env \<Rightarrow> ('net, 'a) app_scheme \<Rightarrow> response" where
  "list_bindings api env s =
     (let bindings = map (\<lambda>(ip, b). from_binding api ip b True)
            (env_entries env (pol_bindings (pr_policies s)))
      in respond 200 (BindingsBody bindings (length bindings)))"

definition get_binding ::
  "'net api \<Rightarrow> env \<Rightarrow> string \<Rightarrow> ('net, 'a) app_scheme \<Rightarrow> response \<times> ('net, 'a) app_scheme" where
  "get_binding api env srcip s =
     (case parse_ip_addr srcip of
        None \<Rightarrow> (invalid_ip, s)
      | Some ip \<Rightarrow>
          (case pol_bindings (pr_policies s) ip of
             Some b \<Rightarrow> (respond 200 (BindingBody (from_binding api ip b True)), s)
           | None \<Rightarrow>
               (let (b, s1) = default_binding (env_now env) s
                in (respond 200 (BindingBody (from_binding api ip b False)), s1))))"

section \<open>Bindings\<close>

text \<open>The end that the handlers share: a response for the new policies, or the failure to save.\<close>

definition save_response ::
  "(policies \<Rightarrow> response run) \<Rightarrow> (save_error + policies) run \<times> 's \<Rightarrow> response run \<times> 's" where
  "save_response k result =
     (case result of
        (None, s) \<Rightarrow> (panic, s)
      | (Some (Inl e), s) \<Rightarrow> (ret failed_to_save, s)
      | (Some (Inr p), s) \<Rightarrow> (k p, s))"

record put_request =
  pb_policy :: "string option"
  pb_seed :: "string option"

text \<open>The policy and the seed of a put request: given, or those of the existing binding, or the
  defaults of the process.\<close>

definition put_policy ::
  "put_request \<Rightarrow> binding option \<Rightarrow> ('net, 'a) app_scheme
     \<Rightarrow> hash_policy option \<times> ('net, 'a) app_scheme" where
  "put_policy body existing s =
     (case pb_policy body of
        Some p \<Rightarrow> (res_ok (hash_policy_from_str p), s)
      | None \<Rightarrow>
          (case existing of
             Some b \<Rightarrow> (Some (bd_policy b), s)
           | None \<Rightarrow> (let (p, s1) = default_hash_policy s in (Some p, s1))))"

definition put_seed ::
  "put_request \<Rightarrow> binding option \<Rightarrow> ('net, 'a) app_scheme \<Rightarrow> u64 option \<times> ('net, 'a) app_scheme" where
  "put_seed body existing s =
     (case pb_seed body of
        Some v \<Rightarrow> (parse_seed v, s)
      | None \<Rightarrow>
          (case existing of
             Some b \<Rightarrow> (Some (bd_seed b), s)
           | None \<Rightarrow> (let (n, s1) = default_binding_seed s in (Some n, s1))))"

text \<open>What a put does to the policies under the lock, and its answer.\<close>

definition put_update :: "ip_addr \<Rightarrow> binding \<Rightarrow> policies \<Rightarrow> policies" where
  "put_update ip b p = p\<lparr>pol_bindings := (pol_bindings p)(ip \<mapsto> b)\<rparr>"

definition put_answer :: "'net api \<Rightarrow> ip_addr \<Rightarrow> binding \<Rightarrow> policies \<Rightarrow> response run" where
  "put_answer api ip b p = ret (respond 200 (BindingBody (from_binding api ip b True)))"

definition put_apply ::
  "'net api \<Rightarrow> env \<Rightarrow> ip_addr \<Rightarrow> binding \<Rightarrow> ('net, 'a) app_scheme
     \<Rightarrow> response run \<times> ('net, 'a) app_scheme" where
  "put_apply api env ip b s =
     save_response (put_answer api ip b)
       (apply_and_save (api_codec api) env (\<lambda>p. ret (put_update ip b p)) s)"

text \<open>A put up to its save: the existing binding is read before the lock is taken.\<close>

definition put_check ::
  "env \<Rightarrow> string \<Rightarrow> put_request \<Rightarrow> ('net, 'a) app_scheme
     \<Rightarrow> (response + ip_addr \<times> binding) \<times> ('net, 'a) app_scheme" where
  "put_check env srcip body s =
     (case parse_ip_addr srcip of
        None \<Rightarrow> (Inl invalid_ip, s)
      | Some ip \<Rightarrow>
          (let existing = pol_bindings (pr_policies s) ip in
           case put_policy body existing s of
             (None, s1) \<Rightarrow>
               (Inl (respond 400 (ErrorBody ''invalid policy, must be: src_ip, src_dst, five_tuple'')), s1)
           | (Some policy, s1) \<Rightarrow>
               (case put_seed body existing s1 of
                  (None, s2) \<Rightarrow>
                    (Inl (respond 400
                       (ErrorBody ''invalid seed, expected decimal or 0x-prefixed hex'')), s2)
                | (Some seed, s2) \<Rightarrow>
                    (Inr (ip, \<lparr>bd_policy = policy, bd_seed = seed, bd_updated_at = env_now env\<rparr>), s2))))"

definition put_binding ::
  "'net api \<Rightarrow> env \<Rightarrow> string \<Rightarrow> put_request \<Rightarrow> ('net, 'a) app_scheme
     \<Rightarrow> response run \<times> ('net, 'a) app_scheme" where
  "put_binding api env srcip body s =
     (case put_check env srcip body s of
        (Inl r, s1) \<Rightarrow> (ret r, s1)
      | (Inr (ip, b), s1) \<Rightarrow> put_apply api env ip b s1)"

text \<open>The first half of the handlers that need an existing binding.\<close>

definition check_binding :: "string \<Rightarrow> ('net, 'a) app_scheme \<Rightarrow> response + ip_addr" where
  "check_binding srcip s =
     (case parse_ip_addr srcip of
        None \<Rightarrow> Inl invalid_ip
      | Some ip \<Rightarrow>
          (case pol_bindings (pr_policies s) ip of None \<Rightarrow> Inl not_found | Some b \<Rightarrow> Inr ip))"

definition delete_update :: "ip_addr \<Rightarrow> policies \<Rightarrow> policies" where
  "delete_update ip p = p\<lparr>pol_bindings := (pol_bindings p)(ip := None)\<rparr>"

definition delete_answer :: "policies \<Rightarrow> response run" where
  "delete_answer p = ret (respond 200 (StatusBody ''deleted''))"

definition delete_apply ::
  "'net api \<Rightarrow> env \<Rightarrow> ip_addr \<Rightarrow> ('net, 'a) app_scheme \<Rightarrow> response run \<times> ('net, 'a) app_scheme" where
  "delete_apply api env ip s =
     save_response delete_answer
       (apply_and_save (api_codec api) env (\<lambda>p. ret (delete_update ip p)) s)"

definition delete_binding ::
  "'net api \<Rightarrow> env \<Rightarrow> string \<Rightarrow> ('net, 'a) app_scheme \<Rightarrow> response run \<times> ('net, 'a) app_scheme" where
  "delete_binding api env srcip s =
     (case check_binding srcip s of
        Inl r \<Rightarrow> (ret r, s)
      | Inr ip \<Rightarrow> delete_apply api env ip s)"

text \<open>\<open>if let Some(b) = policies.bindings.get_mut(&ip)\<close> and, in the response of the new policies,
  \<open>new_policies.bindings.get(&ip).unwrap()\<close>.\<close>

definition update_binding :: "ip_addr \<Rightarrow> (binding \<Rightarrow> binding) \<Rightarrow> policies \<Rightarrow> policies" where
  "update_binding ip f p =
     (case pol_bindings p ip of
        None \<Rightarrow> p
      | Some b \<Rightarrow> p\<lparr>pol_bindings := (pol_bindings p)(ip \<mapsto> f b)\<rparr>)"

definition binding_of_new :: "'net api \<Rightarrow> ip_addr \<Rightarrow> policies \<Rightarrow> response run" where
  "binding_of_new api ip p =
     (case pol_bindings p ip of
        None \<Rightarrow> panic
      | Some b \<Rightarrow> ret (respond 200 (BindingBody (from_binding api ip b True))))"

definition patch_update :: "env \<Rightarrow> hash_policy \<Rightarrow> ip_addr \<Rightarrow> policies \<Rightarrow> policies" where
  "patch_update env new_policy ip =
     update_binding ip (\<lambda>b. b\<lparr>bd_policy := new_policy, bd_updated_at := env_now env\<rparr>)"

definition patch_apply ::
  "'net api \<Rightarrow> env \<Rightarrow> hash_policy \<Rightarrow> ip_addr \<Rightarrow> ('net, 'a) app_scheme
     \<Rightarrow> response run \<times> ('net, 'a) app_scheme" where
  "patch_apply api env new_policy ip s =
     save_response (binding_of_new api ip)
       (apply_and_save (api_codec api) env (\<lambda>p. ret (patch_update env new_policy ip p)) s)"

definition patch_check ::
  "string \<Rightarrow> string \<Rightarrow> ('net, 'a) app_scheme \<Rightarrow> response + hash_policy \<times> ip_addr" where
  "patch_check srcip policy s =
     (case parse_ip_addr srcip of
        None \<Rightarrow> Inl invalid_ip
      | Some ip \<Rightarrow>
          (case hash_policy_from_str policy of
             Inl e \<Rightarrow> Inl (respond 400 (ErrorBody ''invalid policy''))
           | Inr new_policy \<Rightarrow>
               (case check_binding srcip s of Inl r \<Rightarrow> Inl r | Inr ip \<Rightarrow> Inr (new_policy, ip))))"

definition patch_hash_policy ::
  "'net api \<Rightarrow> env \<Rightarrow> string \<Rightarrow> string \<Rightarrow> ('net, 'a) app_scheme
     \<Rightarrow> response run \<times> ('net, 'a) app_scheme" where
  "patch_hash_policy api env srcip policy s =
     (case patch_check srcip policy s of
        Inl r \<Rightarrow> (ret r, s)
      | Inr (new_policy, ip) \<Rightarrow> patch_apply api env new_policy ip s)"

definition reseed_update :: "env \<Rightarrow> u64 \<Rightarrow> ip_addr \<Rightarrow> policies \<Rightarrow> policies" where
  "reseed_update env new_seed ip =
     update_binding ip (\<lambda>b. b\<lparr>bd_seed := new_seed, bd_updated_at := env_now env\<rparr>)"

definition reseed_apply ::
  "'net api \<Rightarrow> env \<Rightarrow> u64 \<Rightarrow> ip_addr \<Rightarrow> ('net, 'a) app_scheme
     \<Rightarrow> response run \<times> ('net, 'a) app_scheme" where
  "reseed_apply api env new_seed ip s =
     save_response (binding_of_new api ip)
       (apply_and_save (api_codec api) env (\<lambda>p. ret (reseed_update env new_seed ip p)) s)"

definition reseed ::
  "'net api \<Rightarrow> env \<Rightarrow> u64 \<Rightarrow> string \<Rightarrow> ('net, 'a) app_scheme
     \<Rightarrow> response run \<times> ('net, 'a) app_scheme" where
  "reseed api env new_seed srcip s =
     (case check_binding srcip s of
        Inl r \<Rightarrow> (ret r, s)
      | Inr ip \<Rightarrow> reseed_apply api env new_seed ip s)"

section \<open>Access lists\<close>

datatype acl_list = Allow | Deny
datatype acl_op = Add | Del

text \<open>\<open>AclKind\<close>: the functions that describe one access list. A selector of a mutable reference is the
  update of the selected part.\<close>

record 's acl_kind =
  k_canonicalize :: "string \<Rightarrow> acl_error + string"
  k_base :: "'s \<Rightarrow> string list \<times> string list"
  k_select :: "(acl_delta \<Rightarrow> acl_delta) \<Rightarrow> policies \<Rightarrow> policies"
  k_rebuild :: "'s \<Rightarrow> 's run"
  k_view :: "'s \<Rightarrow> acl_view"

definition select_domain :: "(acl_delta \<Rightarrow> acl_delta) \<Rightarrow> policies \<Rightarrow> policies" where
  "select_domain f p = p\<lparr>pol_domain_acl := f (pol_domain_acl p)\<rparr>"

definition select_egress :: "(acl_delta \<Rightarrow> acl_delta) \<Rightarrow> policies \<Rightarrow> policies" where
  "select_egress f p = p\<lparr>pol_egress_acl := f (pol_egress_acl p)\<rparr>"

definition acl_view_of :: "string list \<times> string list \<Rightarrow> acl_delta \<Rightarrow> acl_view" where
  "acl_view_of base delta =
     (let (base_allow, base_deny) = base in
      \<lparr>av_allow = \<lparr>lv_base = base_allow, lv_add = allow_add delta, lv_del = allow_del delta,
         lv_effective = effective_allow delta base_allow\<rparr>,
       av_deny = \<lparr>lv_base = base_deny, lv_add = deny_add delta, lv_del = deny_del delta,
         lv_effective = effective_deny delta base_deny\<rparr>\<rparr>)"

definition domain_view :: "('net, 'a) app_scheme \<Rightarrow> acl_view" where
  "domain_view s = acl_view_of (domain_base s) (pol_domain_acl (pr_policies s))"

definition egress_view :: "('net, 'a) app_scheme \<Rightarrow> acl_view" where
  "egress_view s = acl_view_of (egress_base s) (pol_egress_acl (pr_policies s))"

definition domain_kind :: "('net, 'a) app_scheme acl_kind" where
  "domain_kind =
     \<lparr>k_canonicalize = (\<lambda>r. map_err RuleError (canonicalize_rule r)), k_base = domain_base,
      k_select = select_domain, k_rebuild = rebuild_domain_filter, k_view = domain_view\<rparr>"

definition egress_kind :: "'net api \<Rightarrow> ('net, 'a) app_scheme acl_kind" where
  "egress_kind api =
     \<lparr>k_canonicalize = (\<lambda>r. map_err NetError (canonicalize_net (api_nets api) r)), k_base = egress_base,
      k_select = select_egress, k_rebuild = rebuild_egress_filter (api_nets api),
      k_view = egress_view\<rparr>"

definition get_domains :: "('net, 'a) app_scheme \<Rightarrow> response" where
  "get_domains s = respond 200 (AclBody (domain_view s))"

definition get_egress :: "('net, 'a) app_scheme \<Rightarrow> response" where
  "get_egress s = respond 200 (AclBody (egress_view s))"

definition acl_step ::
  "acl_list \<Rightarrow> acl_op \<Rightarrow> string list \<Rightarrow> string list \<Rightarrow> string \<Rightarrow> acl_delta \<Rightarrow> acl_delta" where
  "acl_step list op base_allow base_deny r =
     (case (list, op) of
        (Allow, Add) \<Rightarrow> add_allow base_allow r
      | (Allow, Del) \<Rightarrow> del_allow base_allow r
      | (Deny, Add) \<Rightarrow> add_deny base_deny r
      | (Deny, Del) \<Rightarrow> del_deny base_deny r)"

text \<open>The whole batch is canonicalised first; the first rule that is refused ends it.\<close>

definition canon_batch ::
  "(string \<Rightarrow> acl_error + string) \<Rightarrow> string list \<Rightarrow> string \<times> acl_error + string list" where
  "canon_batch canonicalize rules =
     collect_results (\<lambda>r. map_err (\<lambda>e. (r, e)) (canonicalize r)) rules"

definition acl_update ::
  "acl_list \<Rightarrow> acl_op \<Rightarrow> string list \<Rightarrow> 's acl_kind \<Rightarrow> 's \<Rightarrow> policies \<Rightarrow> policies" where
  "acl_update list op canon kind s =
     (let (base_allow, base_deny) = k_base kind s in
      k_select kind (fold (acl_step list op base_allow base_deny) canon))"

definition acl_apply ::
  "codec \<Rightarrow> env \<Rightarrow> acl_list \<Rightarrow> acl_op \<Rightarrow> string list \<Rightarrow> ('net, 'a) app_scheme acl_kind
     \<Rightarrow> ('net, 'a) app_scheme \<Rightarrow> (save_error + policies) run \<times> ('net, 'a) app_scheme" where
  "acl_apply c env list op canon kind s =
     apply_and_save c env (\<lambda>p. ret (acl_update list op canon kind s p)) s"

definition mutate_acl ::
  "codec \<Rightarrow> env \<Rightarrow> acl_list \<Rightarrow> acl_op \<Rightarrow> string list \<Rightarrow> ('net, 'a) app_scheme acl_kind
     \<Rightarrow> ('net, 'a) app_scheme \<Rightarrow> response run \<times> ('net, 'a) app_scheme" where
  "mutate_acl c env list op rules kind s =
     (case canon_batch (k_canonicalize kind) rules of
        Inl (r, e) \<Rightarrow> (ret (respond 400 (InvalidRuleBody r e)), s)
      | Inr canon \<Rightarrow>
          (case acl_apply c env list op canon kind s of
             (None, s1) \<Rightarrow> (panic, s1)
           | (Some (Inl e), s1) \<Rightarrow> (ret failed_to_save, s1)
           | (Some (Inr p), s1) \<Rightarrow>
               (case k_rebuild kind s1 of
                  None \<Rightarrow> (panic, s1)
                | Some s2 \<Rightarrow> (ret (respond 200 (AclBody (k_view kind s2))), s2))))"

text \<open>The eight handlers of the access lists.\<close>

definition post_domains_allow ::
  "'net api \<Rightarrow> env \<Rightarrow> string list \<Rightarrow> ('net, 'a) app_scheme \<Rightarrow> response run \<times> ('net, 'a) app_scheme" where
  "post_domains_allow api env rules s = mutate_acl (api_codec api) env Allow Add rules domain_kind s"

definition delete_domains_allow ::
  "'net api \<Rightarrow> env \<Rightarrow> string list \<Rightarrow> ('net, 'a) app_scheme \<Rightarrow> response run \<times> ('net, 'a) app_scheme" where
  "delete_domains_allow api env rules s = mutate_acl (api_codec api) env Allow Del rules domain_kind s"

definition post_domains_deny ::
  "'net api \<Rightarrow> env \<Rightarrow> string list \<Rightarrow> ('net, 'a) app_scheme \<Rightarrow> response run \<times> ('net, 'a) app_scheme" where
  "post_domains_deny api env rules s = mutate_acl (api_codec api) env Deny Add rules domain_kind s"

definition delete_domains_deny ::
  "'net api \<Rightarrow> env \<Rightarrow> string list \<Rightarrow> ('net, 'a) app_scheme \<Rightarrow> response run \<times> ('net, 'a) app_scheme" where
  "delete_domains_deny api env rules s = mutate_acl (api_codec api) env Deny Del rules domain_kind s"

definition post_egress_allow ::
  "'net api \<Rightarrow> env \<Rightarrow> string list \<Rightarrow> ('net, 'a) app_scheme \<Rightarrow> response run \<times> ('net, 'a) app_scheme" where
  "post_egress_allow api env rules s = mutate_acl (api_codec api) env Allow Add rules (egress_kind api) s"

definition delete_egress_allow ::
  "'net api \<Rightarrow> env \<Rightarrow> string list \<Rightarrow> ('net, 'a) app_scheme \<Rightarrow> response run \<times> ('net, 'a) app_scheme" where
  "delete_egress_allow api env rules s = mutate_acl (api_codec api) env Allow Del rules (egress_kind api) s"

definition post_egress_deny ::
  "'net api \<Rightarrow> env \<Rightarrow> string list \<Rightarrow> ('net, 'a) app_scheme \<Rightarrow> response run \<times> ('net, 'a) app_scheme" where
  "post_egress_deny api env rules s = mutate_acl (api_codec api) env Deny Add rules (egress_kind api) s"

definition delete_egress_deny ::
  "'net api \<Rightarrow> env \<Rightarrow> string list \<Rightarrow> ('net, 'a) app_scheme \<Rightarrow> response run \<times> ('net, 'a) app_scheme" where
  "delete_egress_deny api env rules s = mutate_acl (api_codec api) env Deny Del rules (egress_kind api) s"

end
