(* ===== verification/AclService.thy ===== *)
theory AclService
  imports ApiHandlers
begin

text \<open>
  What a mutation of an access list promises (\<open>mutate_acl\<close> of \<open>src/api/handlers.rs\<close>). The source
  describes an access list by the record \<open>AclKind\<close> of functions; the locale \<open>acl_service\<close> states the
  laws those functions owe, proves the mutation correct once, and is interpreted for both kinds.
\<close>

section \<open>The published filter and the policies\<close>

text \<open>The live filter is the one that the current base and overlay compile to.\<close>

definition live_domain :: "('net, 'a) app_scheme \<Rightarrow> bool" where
  "live_domain s \<longleftrightarrow>
     (\<exists>ba bd. ap_domain_base s = Some (ba, bd)
        \<and> ap_domain_filter s = fst (build_domain_filter ba bd (pol_domain_acl (pr_policies s))))"

definition live_egress :: "'net ipnet_ops \<Rightarrow> ('net, 'a) app_scheme \<Rightarrow> bool" where
  "live_egress ops s \<longleftrightarrow>
     (\<exists>ba bd bad. ap_egress_base s = Some (ba, bd)
        \<and> build_egress_filter ops ba bd (pol_egress_acl (pr_policies s))
          = Some (ap_egress_filter s, bad))"

lemma rebuild_domain_live:
  "rebuild_domain_filter s = Some s' \<Longrightarrow>
     live_domain s' \<and> (live_egress ops s \<longrightarrow> live_egress ops s') \<and> pr_policies s' = pr_policies s
     \<and> domain_base s' = domain_base s \<and> egress_base s' = egress_base s
     \<and> pr_state_path s' = pr_state_path s \<and> pr_fs s' = pr_fs s"
  by (auto simp: rebuild_domain_filter_def live_domain_def live_egress_def domain_base_def
      egress_base_def Let_def case_prod_beta split: option.splits)

lemma rebuild_egress_live:
  "rebuild_egress_filter ops s = Some s' \<Longrightarrow>
     live_egress ops s' \<and> (live_domain s \<longrightarrow> live_domain s') \<and> pr_policies s' = pr_policies s
     \<and> domain_base s' = domain_base s \<and> egress_base s' = egress_base s
     \<and> pr_state_path s' = pr_state_path s \<and> pr_fs s' = pr_fs s"
  by (auto simp: rebuild_egress_filter_def live_domain_def live_egress_def domain_base_def
      egress_base_def Let_def case_prod_beta split: option.splits bind_splits)

lemma rebuild_domain_ok: "ap_domain_base s \<noteq> None \<Longrightarrow> \<exists>s'. rebuild_domain_filter s = Some s'"
  by (auto simp: rebuild_domain_filter_def Let_def case_prod_beta)

lemma rebuild_egress_ok:
  "ipnet_laws ops \<Longrightarrow> ap_egress_base s \<noteq> None \<Longrightarrow> \<exists>s'. rebuild_egress_filter ops s = Some s'"
  using rebuild_egress_total [of ops s] by fastforce

section \<open>One side of an overlay\<close>

definition side_effective :: "acl_list \<Rightarrow> acl_delta \<Rightarrow> string list \<times> string list \<Rightarrow> string list" where
  "side_effective list d base =
     (case list of Allow \<Rightarrow> effective_allow d (fst base) | Deny \<Rightarrow> effective_deny d (snd base))"

fun other_list :: "acl_list \<Rightarrow> acl_list" where
  "other_list Allow = Deny"
| "other_list Deny = Allow"

definition expected_set :: "acl_op \<Rightarrow> string list \<Rightarrow> string set \<Rightarrow> string set" where
  "expected_set op canon old = (case op of Add \<Rightarrow> set canon \<union> old | Del \<Rightarrow> old - set canon)"

lemma acl_step_eqs:
  "acl_step Allow Add ba bd = add_allow ba" "acl_step Allow Del ba bd = del_allow ba"
  "acl_step Deny Add ba bd = add_deny bd" "acl_step Deny Del ba bd = del_deny bd"
  by (rule ext, simp add: acl_step_def)+

lemma acl_batch_effective:
  "set (side_effective list (fold (acl_step list op ba bd) canon d) (ba, bd))
     = expected_set op canon (set (side_effective list d (ba, bd)))"
  by (cases list; cases op)
     (simp_all only: acl_step_eqs side_effective_def expected_set_def acl_list.case acl_op.case
       fst_conv snd_conv overlay_facts)

lemma acl_batch_other:
  "side_effective (other_list list) (fold (acl_step list op ba bd) canon d) (ba, bd)
     = side_effective (other_list list) d (ba, bd)"
  by (cases list; cases op)
     (simp_all only: acl_step_eqs side_effective_def other_list.simps acl_list.case
       fst_conv snd_conv overlay_facts)

lemma acl_batch_wf:
  "delta_wf ba bd d \<Longrightarrow> delta_wf ba bd (fold (acl_step list op ba bd) canon d)"
proof (induction canon arbitrary: d)
  case (Cons r canon)
  have "delta_wf ba bd (acl_step list op ba bd r d)"
    using delta_wf_ops [OF Cons.prems] by (cases list; cases op; simp add: acl_step_def)
  with Cons show ?case by simp
qed simp

text \<open>What a mutation owes its caller: nothing changes on a refused rule or a failed save; otherwise
  the effective list of the side gains or loses exactly the canonical rules, the other side and the
  bindings stay, the version is counted, and the published filter is the one of the new policies.\<close>

definition promised ::
  "('net, 'a) app_scheme acl_kind \<Rightarrow> (policies \<Rightarrow> acl_delta) \<Rightarrow> (('net, 'a) app_scheme \<Rightarrow> bool)
     \<Rightarrow> acl_list \<Rightarrow> acl_op \<Rightarrow> string list \<Rightarrow> ('net, 'a) app_scheme \<Rightarrow> response run
     \<Rightarrow> ('net, 'a) app_scheme \<Rightarrow> bool" where
  "promised kind overlay live list op rules s r s' \<longleftrightarrow>
     (case canon_batch (k_canonicalize kind) rules of
        Inl (q, e) \<Rightarrow> r = Some (respond 400 (InvalidRuleBody q e)) \<and> s' = s
      | Inr canon \<Rightarrow>
          r = Some failed_to_save \<and> pr_policies s' = pr_policies s \<and> live s' = live s
          \<or> (r = Some (respond 200 (AclBody (k_view kind s')))
             \<and> set (side_effective list (overlay (pr_policies s')) (k_base kind s))
               = expected_set op canon (set (side_effective list (overlay (pr_policies s)) (k_base kind s)))
             \<and> side_effective (other_list list) (overlay (pr_policies s')) (k_base kind s)
               = side_effective (other_list list) (overlay (pr_policies s)) (k_base kind s)
             \<and> pol_bindings (pr_policies s') = pol_bindings (pr_policies s)
             \<and> pol_version (pr_policies s') = pol_version (pr_policies s) + 1
             \<and> live s'))"

section \<open>The interface\<close>

locale acl_service =
  fixes kind :: "('net, 'a) app_scheme acl_kind"
    and overlay :: "policies \<Rightarrow> acl_delta"
    and live :: "('net, 'a) app_scheme \<Rightarrow> bool"
    and ready :: "('net, 'a) app_scheme \<Rightarrow> bool"
  assumes select_overlay: "overlay (k_select kind f p) = f (overlay p)"
    and select_frame: "pol_bindings (k_select kind f p) = pol_bindings p"
      "pol_version (k_select kind f p) = pol_version p"
    and overlay_stamp: "overlay (p\<lparr>pol_version := v, pol_updated_at := t\<rparr>) = overlay p"
    and view_base: "k_view kind s = acl_view_of (k_base kind s) (overlay (pr_policies s))"
    and base_frame: "k_base kind (s\<lparr>pr_fs := x, pr_policies := p\<rparr>) = k_base kind s"
    and ready_frame: "ready (s\<lparr>pr_fs := x, pr_policies := p\<rparr>) = ready s"
    and live_frame: "overlay p = overlay (pr_policies s) \<Longrightarrow>
      live (s\<lparr>pr_fs := x, pr_policies := p\<rparr>) = live s"
    and rebuild_ready: "ready s \<Longrightarrow> \<exists>s'. k_rebuild kind s = Some s'"
    and rebuild_live: "k_rebuild kind s = Some s' \<Longrightarrow>
      live s' \<and> pr_policies s' = pr_policies s \<and> k_base kind s' = k_base kind s"
begin

lemma mutate_promised:
  assumes path: "pr_state_path s \<noteq> None" and ready: "ready s"
    and run: "mutate_acl c env list op rules kind s = (r, s')"
  shows "promised kind overlay live list op rules s r s'"
proof (cases "canon_batch (k_canonicalize kind) rules")
  case (Inl qe)
  then show ?thesis using run by (cases qe) (simp add: mutate_acl_def promised_def)
next
  case (Inr canon)
  obtain ba bd where base: "k_base kind s = (ba, bd)" by fastforce
  let ?f = "\<lambda>p. Some (k_select kind (fold (acl_step list op ba bd) canon) p)"
  have saved: "acl_apply c env list op canon kind s = apply_and_save c env ?f s"
    by (simp add: acl_apply_def acl_update_def base)
  show ?thesis
  proof (cases rule: apply_and_save_cases [of c env ?f s])
    case panic
    then show ?thesis using path by simp
  next
    case (fails e tr np q)
    have same: "s\<lparr>pr_fs := last tr\<rparr> = s\<lparr>pr_fs := last tr, pr_policies := pr_policies s\<rparr>" by simp
    have s': "s' = s\<lparr>pr_fs := last tr\<rparr>" and r: "r = Some failed_to_save"
      using run fails(4) by (simp_all add: mutate_acl_def Inr saved)
    have "live s' = live s"
      using live_frame [of "pr_policies s" s "last tr"] unfolding s' same [symmetric] by simp
    then show ?thesis using s' r by (simp add: promised_def Inr)
  next
    case (ok tr np p q)
    let ?s1 = "s\<lparr>pr_fs := last tr, pr_policies := p\<rparr>"
    obtain s2 where s2: "k_rebuild kind ?s1 = Some s2"
      using rebuild_ready [of ?s1] ready ready_frame by blast
    have res: "r = Some (respond 200 (AclBody (k_view kind s')))" "s' = s2"
      using run ok(5) s2 by (auto simp: mutate_acl_def Inr saved)
    have after: "live s'" "pr_policies s' = p" "k_base kind s' = (ba, bd)"
      using rebuild_live [OF s2] res(2) base_frame base by simp_all
    have p: "overlay p = fold (acl_step list op ba bd) canon (overlay (pr_policies s))"
      "pol_bindings p = pol_bindings (pr_policies s)" "pol_version p = pol_version (pr_policies s) + 1"
      using ok(1,3) select_frame by (auto simp: overlay_stamp select_overlay)
    show ?thesis
      using res(1) after p by (simp add: promised_def Inr base acl_batch_effective acl_batch_other)
  qed
qed

end

text \<open>What a mutation of one list owes the rest of the server: a condition on the process that neither
  the selected overlay nor the rebuilt filter bears on.\<close>

locale acl_service_rest = acl_service kind overlay live ready
  for kind :: "('net, 'a) app_scheme acl_kind" and overlay live ready +
  fixes rest :: "('net, 'a) app_scheme \<Rightarrow> bool"
  assumes rest_fs: "rest (s\<lparr>pr_fs := x\<rparr>) = rest s"
    and rest_select: "rest (s\<lparr>pr_fs := x, pr_policies :=
      (k_select kind f (pr_policies s))\<lparr>pol_version := v, pol_updated_at := t\<rparr>\<rparr>) = rest s"
    and rest_rebuild: "k_rebuild kind s = Some s' \<Longrightarrow> rest s \<Longrightarrow> rest s'"
begin

lemma mutate_rest:
  assumes rest: "rest s" and run: "mutate_acl c env list op rules kind s = (r, s')"
  shows "rest s'"
proof (cases "canon_batch (k_canonicalize kind) rules")
  case (Inl qe)
  then show ?thesis using run rest by (cases qe) (simp add: mutate_acl_def)
next
  case (Inr canon)
  obtain ba bd where base: "k_base kind s = (ba, bd)" by fastforce
  let ?f = "\<lambda>p. Some (k_select kind (fold (acl_step list op ba bd) canon) p)"
  have saved: "acl_apply c env list op canon kind s = apply_and_save c env ?f s"
    by (simp add: acl_apply_def acl_update_def base)
  show ?thesis
  proof (cases rule: apply_and_save_cases [of c env ?f s])
    case panic
    then show ?thesis using run rest by (simp add: mutate_acl_def Inr saved)
  next
    case (fails e tr np q)
    then show ?thesis using run rest by (auto simp: mutate_acl_def Inr saved rest_fs)
  next
    case (ok tr np p q)
    let ?s1 = "s\<lparr>pr_fs := last tr, pr_policies := p\<rparr>"
    have "rest ?s1" using rest ok(1,3) by (auto simp: rest_select)
    then show ?thesis
      using run ok(5) rest_rebuild [of ?s1]
      by (auto simp: mutate_acl_def Inr saved split: option.splits)
  qed
qed

end

lemma domain_kind_simps [simp]:
  "k_canonicalize domain_kind = (\<lambda>r. map_err RuleError (canonicalize_rule r))"
  "k_base domain_kind = domain_base" "k_select domain_kind = select_domain"
  "k_rebuild domain_kind = rebuild_domain_filter" "k_view domain_kind = domain_view"
  by (simp_all add: domain_kind_def)

lemma egress_kind_simps [simp]:
  "k_canonicalize (egress_kind api) = (\<lambda>r. map_err NetError (canonicalize_net (api_nets api) r))"
  "k_base (egress_kind api) = egress_base" "k_select (egress_kind api) = select_egress"
  "k_rebuild (egress_kind api) = rebuild_egress_filter (api_nets api)"
  "k_view (egress_kind api) = egress_view"
  by (simp_all add: egress_kind_def)

lemma live_frames:
  "pol_domain_acl p = pol_domain_acl (pr_policies s) \<Longrightarrow>
     live_domain (s\<lparr>pr_fs := x, pr_policies := p\<rparr>) = live_domain s"
  "pol_egress_acl p = pol_egress_acl (pr_policies s) \<Longrightarrow>
     live_egress ops (s\<lparr>pr_fs := x, pr_policies := p\<rparr>) = live_egress ops s"
  by (simp_all add: live_domain_def live_egress_def)

lemma base_frames:
  "domain_base (s\<lparr>pr_fs := x, pr_policies := p\<rparr>) = domain_base s"
  "egress_base (s\<lparr>pr_fs := x, pr_policies := p\<rparr>) = egress_base s"
  by (simp_all add: domain_base_def egress_base_def)

lemmas service_laws = live_frames base_frames select_domain_def select_egress_def domain_view_def
  egress_view_def rebuild_domain_live rebuild_egress_live rebuild_domain_ok rebuild_egress_ok

interpretation domain_service: acl_service domain_kind pol_domain_acl live_domain
  "\<lambda>s. ap_domain_base s \<noteq> None"
  by unfold_locales (simp_all add: service_laws)

interpretation egress_service: acl_service "egress_kind api" pol_egress_acl
  "live_egress (api_nets api)" "\<lambda>s. ipnet_laws (api_nets api) \<and> ap_egress_base s \<noteq> None" for api
  by unfold_locales (simp_all add: service_laws)

interpretation domain_rest: acl_service_rest domain_kind pol_domain_acl live_domain
  "\<lambda>s. ap_domain_base s \<noteq> None" "\<lambda>s. pr_state_path s \<noteq> None \<and> live_egress ops s" for ops
  by unfold_locales (simp_all add: service_laws, simp_all add: live_egress_def)

interpretation egress_rest: acl_service_rest "egress_kind api" pol_egress_acl
  "live_egress (api_nets api)" "\<lambda>s. ipnet_laws (api_nets api) \<and> ap_egress_base s \<noteq> None"
  "\<lambda>s. pr_state_path s \<noteq> None \<and> live_domain s" for api
  by unfold_locales (simp_all add: service_laws, simp_all add: live_domain_def)

lemma example_app_simps [simp]:
  "pr_state_path example_app = Some example_path" "ap_domain_base example_app = Some ([], [])"
  "ap_egress_base example_app = Some ([''2001:db8:1::/48''], [])"
  "pr_policies example_app = policies_default 5"
  "pr_fs example_app = \<lparr>fs_live = Map.empty, fs_disk = Map.empty, fs_dirs = {}\<rparr>"
  by (simp_all add: example_app_def proc.defs example_proc_def)

section \<open>Properties\<close>

text \<open>C18: a mutation of the domain list by the admin API keeps its promise: a batch with one refused
  rule changes nothing, a failed save changes nothing that is live, and otherwise the effective list
  gains or loses exactly the canonical rules of the batch, the other list and all bindings stay, the
  version is counted and the filter that the data plane reads is the one of the new policies.\<close>

theorem mutate_domains_correct:
  assumes "pr_state_path s \<noteq> None" "ap_domain_base s \<noteq> None"
    and "mutate_acl c env list op rules domain_kind s = (r, s')"
  shows "promised domain_kind pol_domain_acl live_domain list op rules s r s'"
  using domain_service.mutate_promised [OF assms(1)] assms(2,3) by blast

theorem mutate_domains_correct_witness:
  "promised domain_kind pol_domain_acl live_domain Deny Add [''ads.com''] example_app
     (fst (mutate_acl plain_codec example_env Deny Add [''ads.com''] domain_kind example_app))
     (snd (mutate_acl plain_codec example_env Deny Add [''ads.com''] domain_kind example_app))"
  by (rule mutate_domains_correct [where c = plain_codec and env = example_env]) simp_all

text \<open>C19: the same promise for the egress list, whose rules are addresses and CIDRs.\<close>

theorem mutate_egress_correct:
  assumes "ipnet_laws (api_nets api)" "pr_state_path s \<noteq> None" "ap_egress_base s \<noteq> None"
    and "mutate_acl c env list op rules (egress_kind api) s = (r, s')"
  shows "promised (egress_kind api) pol_egress_acl (live_egress (api_nets api)) list op rules s r s'"
  using egress_service.mutate_promised [OF assms(2)] assms(1,3,4) by blast

theorem mutate_egress_correct_witness:
  "\<exists>api. promised (egress_kind api) pol_egress_acl (live_egress (api_nets api)) Allow Del
     [''2001:db8:1::/48''] example_app
     (fst (mutate_acl plain_codec example_env Allow Del [''2001:db8:1::/48''] (egress_kind api) example_app))
     (snd (mutate_acl plain_codec example_env Allow Del [''2001:db8:1::/48''] (egress_kind api) example_app))"
  by (intro exI [of _ "\<lparr>api_nets = plain_ops, api_codec = plain_codec, api_rfc3339 = (\<lambda>t. [])\<rparr>"]
      mutate_egress_correct [where c = plain_codec and env = example_env]) (simp_all add: plain_laws)

end
