(* ===== verification/ApiServer.thy ===== *)
theory ApiServer
  imports AclService
begin

text \<open>
  The admin API as a whole (\<open>src/api/mod.rs\<close>, \<open>src/api/auth.rs\<close>): the routes in their three tiers,
  the allow list of peer addresses, the bearer token and the handlers behind them. The verification
  of a password hash is that of the crate \<open>argon2\<close>: a parameter. An \<open>endpoint\<close> is a matched route
  with its decoded path and body; unmatched routes and undecodable bodies are answered by \<open>axum\<close>.
\<close>

section \<open>Endpoints\<close>

datatype endpoint =
  Healthz
| Metrics
| ListBindings
| GetBinding string
| PutBinding string put_request
| DeleteBinding string
| PatchHashPolicy string string
| Reseed string u64
| GetDomains
| GetEgress
| MutateDomains acl_list acl_op "string list"
| MutateEgress acl_list acl_op "string list"

text \<open>The endpoints that can change the policies.\<close>

fun mutating :: "endpoint \<Rightarrow> bool" where
  "mutating (PutBinding srcip body) = True"
| "mutating (DeleteBinding srcip) = True"
| "mutating (PatchHashPolicy srcip policy) = True"
| "mutating (Reseed srcip n) = True"
| "mutating (MutateDomains list op rules) = True"
| "mutating (MutateEgress list op rules) = True"
| "mutating _ = False"

text \<open>\<open>acl_router\<close>: which handler serves which list and method.\<close>

fun domains_route ::
  "acl_list \<Rightarrow> acl_op \<Rightarrow> 'net api \<Rightarrow> env \<Rightarrow> string list \<Rightarrow> ('net, 'a) app_scheme
     \<Rightarrow> response run \<times> ('net, 'a) app_scheme" where
  "domains_route Allow Add = post_domains_allow"
| "domains_route Allow Del = delete_domains_allow"
| "domains_route Deny Add = post_domains_deny"
| "domains_route Deny Del = delete_domains_deny"

fun egress_route ::
  "acl_list \<Rightarrow> acl_op \<Rightarrow> 'net api \<Rightarrow> env \<Rightarrow> string list \<Rightarrow> ('net, 'a) app_scheme
     \<Rightarrow> response run \<times> ('net, 'a) app_scheme" where
  "egress_route Allow Add = post_egress_allow"
| "egress_route Allow Del = delete_egress_allow"
| "egress_route Deny Add = post_egress_deny"
| "egress_route Deny Del = delete_egress_deny"

definition run_endpoint ::
  "'net api \<Rightarrow> env \<Rightarrow> endpoint \<Rightarrow> ('net, 'a) app_scheme \<Rightarrow> response run \<times> ('net, 'a) app_scheme" where
  "run_endpoint api env e s =
     (case e of
        Healthz \<Rightarrow> (ret healthz, s)
      | Metrics \<Rightarrow> (ret (metrics_handler s), s)
      | ListBindings \<Rightarrow> (ret (list_bindings api env s), s)
      | GetBinding srcip \<Rightarrow> (let (r, s1) = get_binding api env srcip s in (ret r, s1))
      | PutBinding srcip body \<Rightarrow> put_binding api env srcip body s
      | DeleteBinding srcip \<Rightarrow> delete_binding api env srcip s
      | PatchHashPolicy srcip policy \<Rightarrow> patch_hash_policy api env srcip policy s
      | Reseed srcip new_seed \<Rightarrow> reseed api env new_seed srcip s
      | GetDomains \<Rightarrow> (ret (get_domains s), s)
      | GetEgress \<Rightarrow> (ret (get_egress s), s)
      | MutateDomains list op rules \<Rightarrow> domains_route list op api env rules s
      | MutateEgress list op rules \<Rightarrow> egress_route list op api env rules s)"

lemmas acl_handler_defs =
  post_domains_allow_def delete_domains_allow_def post_domains_deny_def delete_domains_deny_def
  post_egress_allow_def delete_egress_allow_def post_egress_deny_def delete_egress_deny_def

lemma acl_routes:
  "domains_route list op api env rules s = mutate_acl (api_codec api) env list op rules domain_kind s"
  "egress_route list op api env rules s = mutate_acl (api_codec api) env list op rules (egress_kind api) s"
  by (cases list; cases op; simp add: acl_handler_defs)+

section \<open>Access control\<close>

record 'net tokens =
  tk_admin_token_hash :: string
  tk_admin_allowlist :: "'net list"

definition parse_allowlist :: "'net ipnet_ops \<Rightarrow> string \<Rightarrow> string list \<Rightarrow> net_error + 'net tokens" where
  "parse_allowlist ops token_hash allowlist =
     res_try (parse_net_list ops allowlist)
       (\<lambda>nets. Inr \<lparr>tk_admin_token_hash = token_hash, tk_admin_allowlist = nets\<rparr>)"

datatype verify_outcome = Verified | WrongPassword | VerifyError

record argon =
  pw_hash_ok :: "string \<Rightarrow> bool"
  pw_verify :: "string \<Rightarrow> string \<Rightarrow> verify_outcome"

text \<open>The verdict, or nothing for an error of the crate.\<close>

definition verify_token :: "argon \<Rightarrow> string \<Rightarrow> string \<Rightarrow> bool option" where
  "verify_token argon token hash =
     (if \<not> pw_hash_ok argon hash then None
      else (case pw_verify argon token hash of
              Verified \<Rightarrow> Some True | WrongPassword \<Rightarrow> Some False | VerifyError \<Rightarrow> None))"

record request =
  rq_peer :: ip_addr
  rq_authorization :: "string option"
  rq_endpoint :: endpoint

text \<open>The middlewares; \<open>reply\<close> turns a response into what the server does with it, the inner handler
  decides what becomes of a request that is let through.\<close>

definition ip_allowlist_middleware ::
  "(response \<Rightarrow> 'r) \<Rightarrow> 'net ipnet_ops \<Rightarrow> 'net tokens \<Rightarrow> request \<Rightarrow> ('s \<Rightarrow> 'r \<times> 's) \<Rightarrow> 's \<Rightarrow> 'r \<times> 's" where
  "ip_allowlist_middleware reply ops tokens rq nxt s =
     (if \<not> list_ex (\<lambda>net. net_contains ops net (rq_peer rq)) (tk_admin_allowlist tokens)
      then (reply (respond 403 (TextBody ''forbidden: IP not in allowlist'')), s)
      else nxt s)"

definition token_middleware ::
  "(response \<Rightarrow> 'r) \<Rightarrow> argon \<Rightarrow> 'net tokens \<Rightarrow> request \<Rightarrow> ('s \<Rightarrow> 'r \<times> 's) \<Rightarrow> 's \<Rightarrow> 'r \<times> 's" where
  "token_middleware reply argon tokens rq nxt s =
     (case (case rq_authorization rq of None \<Rightarrow> None | Some h \<Rightarrow> strip_prefix ''Bearer '' h) of
        None \<Rightarrow> (reply (respond 401 (TextBody ''unauthorized: missing or invalid token'')), s)
      | Some token \<Rightarrow>
          (if verify_token argon token (tk_admin_token_hash tokens) = Some True then nxt s
           else (reply (respond 401 (TextBody ''unauthorized: invalid token'')), s)))"

datatype tier = NoAuth | IpOnly | Authenticated

fun endpoint_tier :: "endpoint \<Rightarrow> tier" where
  "endpoint_tier Healthz = NoAuth"
| "endpoint_tier Metrics = IpOnly"
| "endpoint_tier _ = Authenticated"

text \<open>The last layer added is the first to see a request: the allow list, then the token.\<close>

definition router ::
  "(response \<Rightarrow> 'r) \<Rightarrow> 'net ipnet_ops \<Rightarrow> argon \<Rightarrow> 'net tokens \<Rightarrow> request \<Rightarrow> ('s \<Rightarrow> 'r \<times> 's) \<Rightarrow> 's \<Rightarrow> 'r \<times> 's" where
  "router reply ops argon tokens rq handler =
     (case endpoint_tier (rq_endpoint rq) of
        NoAuth \<Rightarrow> handler
      | IpOnly \<Rightarrow> ip_allowlist_middleware reply ops tokens rq handler
      | Authenticated \<Rightarrow>
          ip_allowlist_middleware reply ops tokens rq (token_middleware reply argon tokens rq handler))"

definition serve ::
  "'net api \<Rightarrow> argon \<Rightarrow> 'net tokens \<Rightarrow> env \<Rightarrow> request \<Rightarrow> ('net, 'a) app_scheme
     \<Rightarrow> response run \<times> ('net, 'a) app_scheme" where
  "serve api argon tokens env rq =
     router ret (api_nets api) argon tokens rq (run_endpoint api env (rq_endpoint rq))"

text \<open>Who may do what, in the words of the documentation.\<close>

definition authorised :: "'net ipnet_ops \<Rightarrow> argon \<Rightarrow> 'net tokens \<Rightarrow> request \<Rightarrow> bool" where
  "authorised ops argon tokens rq \<longleftrightarrow>
     rq_endpoint rq = Healthz
     \<or> (\<exists>net \<in> set (tk_admin_allowlist tokens). net_contains ops net (rq_peer rq))
       \<and> (rq_endpoint rq = Metrics
          \<or> (\<exists>token. rq_authorization rq = Some (''Bearer '' @ token)
               \<and> pw_hash_ok argon (tk_admin_token_hash tokens)
               \<and> pw_verify argon token (tk_admin_token_hash tokens) = Verified))"

section \<open>The running server\<close>

text \<open>What startup establishes: the cells are set and the published filters are those of the policies.\<close>

definition server_wf :: "'net ipnet_ops \<Rightarrow> ('net, 'a) app_scheme \<Rightarrow> bool" where
  "server_wf ops s \<longleftrightarrow> pr_state_path s \<noteq> None \<and> live_domain s \<and> live_egress ops s"

lemma server_wf_bases: "server_wf ops s \<Longrightarrow> ap_domain_base s \<noteq> None \<and> ap_egress_base s \<noteq> None"
  by (auto simp: server_wf_def live_domain_def live_egress_def)

lemma server_wf_frame:
  "pol_domain_acl p = pol_domain_acl (pr_policies s) \<Longrightarrow>
   pol_egress_acl p = pol_egress_acl (pr_policies s) \<Longrightarrow>
     server_wf ops (s\<lparr>pr_fs := x, pr_policies := p\<rparr>) = server_wf ops s"
  by (simp add: server_wf_def live_frames)

lemma server_wf_cells [simp]:
  "server_wf ops (s\<lparr>pr_default_policy := x\<rparr>) = server_wf ops s"
  "server_wf ops (s\<lparr>pr_default_seed := y\<rparr>) = server_wf ops s"
  "server_wf ops (s\<lparr>pr_fs := z\<rparr>) = server_wf ops s"
  by (simp_all add: server_wf_def live_domain_def live_egress_def)

text \<open>A save that leaves the access lists alone keeps the server well formed.\<close>

lemma apply_bindings_wf:
  assumes wf: "server_wf ops s"
    and run: "save_response k (apply_and_save c env (\<lambda>p. Some (g p)) s) = (r, s')"
    and acl: "pol_domain_acl (g (pr_policies s)) = pol_domain_acl (pr_policies s)"
      "pol_egress_acl (g (pr_policies s)) = pol_egress_acl (pr_policies s)"
    and k: "\<And>p. pol_bindings p = pol_bindings (g (pr_policies s)) \<Longrightarrow> \<exists>r. k p = Some r"
  shows "(\<exists>x. r = Some x) \<and> server_wf ops s'"
proof (cases rule: apply_and_save_cases [of c env "\<lambda>p. Some (g p)" s])
  case panic
  then show ?thesis using wf by (simp add: server_wf_def)
next
  case (fails e tr np' q)
  then show ?thesis using run wf by (auto simp: save_response_def)
next
  case (ok tr np' p q)
  then have p: "pol_bindings p = pol_bindings (g (pr_policies s))"
    "pol_domain_acl p = pol_domain_acl (g (pr_policies s))"
    "pol_egress_acl p = pol_egress_acl (g (pr_policies s))" by auto
  have "s' = s\<lparr>pr_fs := last tr, pr_policies := p\<rparr>" "r = k p"
    using run ok(5) by (auto simp: save_response_def)
  then show ?thesis
    using k [OF p(1)] server_wf_frame [of p s ops "last tr"] wf acl p by simp
qed

lemma default_binding_wf:
  "server_wf ops s \<Longrightarrow> server_wf ops (snd (default_hash_policy s))"
  "server_wf ops s \<Longrightarrow> server_wf ops (snd (default_binding_seed s))"
  "server_wf ops s \<Longrightarrow> server_wf ops (snd (default_binding now s))"
  by (auto simp: default_binding_def default_hash_policy_def default_binding_seed_def
      split: option.splits)

lemma default_policies:
  "pr_policies (snd (default_hash_policy s)) = pr_policies s"
  "pr_policies (snd (default_binding_seed s)) = pr_policies s"
  "pr_policies (snd (default_binding now s)) = pr_policies s"
  by (auto simp: default_binding_def default_hash_policy_def default_binding_seed_def
      split: option.splits)

lemma put_policy_wf: "server_wf ops s \<Longrightarrow> put_policy body ex s = (p, s1) \<Longrightarrow> server_wf ops s1"
  using default_binding_wf(1) [of ops s]
  by (auto simp: put_policy_def split: option.splits prod.splits)

lemma put_seed_wf: "server_wf ops s \<Longrightarrow> put_seed body ex s = (p, s1) \<Longrightarrow> server_wf ops s1"
  using default_binding_wf(2) [of ops s]
  by (auto simp: put_seed_def split: option.splits prod.splits)

lemma put_apply_wf:
  "server_wf ops s \<Longrightarrow> put_apply api env ip b s = (r, s') \<Longrightarrow> (\<exists>x. r = Some x) \<and> server_wf ops s'"
  unfolding put_apply_def put_update_def put_answer_def by (erule (1) apply_bindings_wf) auto

lemma delete_apply_wf:
  "server_wf ops s \<Longrightarrow> delete_apply api env ip s = (r, s') \<Longrightarrow> (\<exists>x. r = Some x) \<and> server_wf ops s'"
  unfolding delete_apply_def delete_update_def delete_answer_def by (erule (1) apply_bindings_wf) auto

lemma update_binding_simps:
  "pol_domain_acl (update_binding ip f p) = pol_domain_acl p"
  "pol_egress_acl (update_binding ip f p) = pol_egress_acl p"
  "pol_bindings (update_binding ip f p) = (pol_bindings p)(ip := map_option f (pol_bindings p ip))"
  by (auto simp: update_binding_def fun_upd_idem split: option.splits)

text \<open>A handler that found the binding does not panic on it.\<close>

lemma patch_apply_wf:
  "server_wf ops s \<Longrightarrow> pol_bindings (pr_policies s) ip \<noteq> None \<Longrightarrow>
     patch_apply api env hp ip s = (r, s') \<Longrightarrow> (\<exists>x. r = Some x) \<and> server_wf ops s'"
  unfolding patch_apply_def patch_update_def
  by (erule (1) apply_bindings_wf) (auto simp: update_binding_simps binding_of_new_def)

lemma reseed_apply_wf:
  "server_wf ops s \<Longrightarrow> pol_bindings (pr_policies s) ip \<noteq> None \<Longrightarrow>
     reseed_apply api env n ip s = (r, s') \<Longrightarrow> (\<exists>x. r = Some x) \<and> server_wf ops s'"
  unfolding reseed_apply_def reseed_update_def
  by (erule (1) apply_bindings_wf) (auto simp: update_binding_simps binding_of_new_def)

lemma check_binding_Inr:
  "check_binding srcip s = Inr ip \<Longrightarrow>
     parse_ip_addr srcip = Some ip \<and> pol_bindings (pr_policies s) ip \<noteq> None"
  by (auto simp: check_binding_def split: option.splits)

lemma patch_check_Inr:
  "patch_check srcip policy s = Inr (hp, ip) \<Longrightarrow> pol_bindings (pr_policies s) ip \<noteq> None"
  by (auto simp: patch_check_def split: option.splits sum.splits dest: check_binding_Inr)

lemma mutate_domains_wf:
  assumes wf: "server_wf ops s" and run: "mutate_acl c env list op rules domain_kind s = (r, s')"
  shows "(\<exists>x. r = Some x) \<and> server_wf ops s'"
proof -
  have ready: "pr_state_path s \<noteq> None" "ap_domain_base s \<noteq> None"
    using wf server_wf_bases [OF wf] by (simp_all add: server_wf_def)
  have "pr_state_path s' \<noteq> None \<and> live_egress ops s'"
    using domain_rest.mutate_rest [where ops = ops, OF _ run] wf by (simp add: server_wf_def)
  then show ?thesis
    using domain_service.mutate_promised [OF ready run] wf
    by (auto simp: promised_def server_wf_def split: sum.splits)
qed

lemma mutate_egress_wf:
  assumes laws: "ipnet_laws (api_nets api)" and wf: "server_wf (api_nets api) s"
    and run: "mutate_acl c env list op rules (egress_kind api) s = (r, s')"
  shows "(\<exists>x. r = Some x) \<and> server_wf (api_nets api) s'"
proof -
  have ready: "pr_state_path s \<noteq> None" "ipnet_laws (api_nets api) \<and> ap_egress_base s \<noteq> None"
    using wf server_wf_bases [OF wf] laws by (simp_all add: server_wf_def)
  have "pr_state_path s' \<noteq> None \<and> live_domain s'"
    using egress_rest.mutate_rest [OF _ run] wf by (simp add: server_wf_def)
  then show ?thesis
    using egress_service.mutate_promised [OF ready run] wf
    by (auto simp: promised_def server_wf_def split: sum.splits)
qed

lemma put_binding_wf:
  assumes wf: "server_wf ops s" and run: "put_binding api env srcip body s = (r, s')"
  shows "(\<exists>x. r = Some x) \<and> server_wf ops s'"
proof (cases "parse_ip_addr srcip")
  case None
  then show ?thesis using assms by (auto simp: put_binding_def put_check_def)
next
  case (Some ip)
  let ?ex = "pol_bindings (pr_policies s) ip"
  obtain p s1 where p: "put_policy body ?ex s = (p, s1)" by fastforce
  obtain n s2 where n: "put_seed body ?ex s1 = (n, s2)" by fastforce
  note wf1 = put_policy_wf [OF wf p] and wf2 = put_seed_wf [OF put_policy_wf [OF wf p] n]
  show ?thesis
    using run Some p n wf1 wf2 put_apply_wf [OF wf2]
    by (auto simp: put_binding_def put_check_def Let_def split: option.splits)
qed

lemma run_endpoint_wf:
  assumes laws: "ipnet_laws (api_nets api)" and wf: "server_wf (api_nets api) s"
    and run: "run_endpoint api env e s = (r, s')"
  shows "(\<exists>x. r = Some x) \<and> server_wf (api_nets api) s'"
proof (cases e)
  case (GetBinding srcip)
  have "server_wf (api_nets api) (snd (default_binding (env_now env) s))"
    by (rule default_binding_wf [OF wf])
  then show ?thesis
    using run wf
    by (auto simp: GetBinding run_endpoint_def get_binding_def case_prod_beta Let_def
        split: option.splits)
next
  case (PutBinding srcip body)
  then show ?thesis using run put_binding_wf [OF wf] by (simp add: run_endpoint_def)
next
  case (DeleteBinding srcip)
  then show ?thesis
    using run wf delete_apply_wf [OF wf]
    by (auto simp: run_endpoint_def delete_binding_def split: sum.splits)
next
  case (PatchHashPolicy srcip policy)
  show ?thesis
  proof (cases "patch_check srcip policy s")
    case (Inl x)
    then show ?thesis
      using run wf by (auto simp: PatchHashPolicy run_endpoint_def patch_hash_policy_def)
  next
    case (Inr x)
    then obtain hp ip where x: "x = (hp, ip)" by fastforce
    then have "pol_bindings (pr_policies s) ip \<noteq> None" using patch_check_Inr Inr by blast
    then show ?thesis
      using run Inr x patch_apply_wf [OF wf]
      by (simp add: PatchHashPolicy run_endpoint_def patch_hash_policy_def)
  qed
next
  case (Reseed srcip n)
  show ?thesis
  proof (cases "check_binding srcip s")
    case (Inl x)
    then show ?thesis using run wf by (auto simp: Reseed run_endpoint_def reseed_def)
  next
    case (Inr ip)
    then have "pol_bindings (pr_policies s) ip \<noteq> None" using check_binding_Inr by blast
    then show ?thesis
      using run Inr reseed_apply_wf [OF wf] by (simp add: Reseed run_endpoint_def reseed_def)
  qed
next
  case (MutateDomains list op rules)
  then show ?thesis using run mutate_domains_wf [OF wf] by (simp add: run_endpoint_def acl_routes)
next
  case (MutateEgress list op rules)
  then show ?thesis using run mutate_egress_wf [OF laws wf] by (simp add: run_endpoint_def acl_routes)
qed (use run wf in \<open>auto simp: run_endpoint_def\<close>)

section \<open>Access control\<close>

lemma strip_bearer: "strip_prefix ''Bearer '' h = Some t \<longleftrightarrow> h = ''Bearer '' @ t"
  by (rule strip_prefix_Some)

lemma verify_token_True:
  "verify_token argon t h = Some True \<longleftrightarrow> pw_hash_ok argon h \<and> pw_verify argon t h = Verified"
  by (auto simp: verify_token_def split: verify_outcome.splits)

lemma bearer_token:
  "(case rq_authorization rq of None \<Rightarrow> None | Some h \<Rightarrow> strip_prefix ''Bearer '' h) = Some t
     \<longleftrightarrow> rq_authorization rq = Some (''Bearer '' @ t)"
  by (cases "rq_authorization rq") (simp_all add: strip_bearer)

lemma token_middleware_passes:
  "(\<exists>t. rq_authorization rq = Some (''Bearer '' @ t)
      \<and> verify_token argon t (tk_admin_token_hash tokens) = Some True)
     \<Longrightarrow> token_middleware reply argon tokens rq nxt s = nxt s"
  unfolding token_middleware_def bearer_token [symmetric]
  by (cases "case rq_authorization rq of None \<Rightarrow> None | Some h \<Rightarrow> strip_prefix ''Bearer '' h"; simp)

text \<open>What a refused request is told.\<close>

definition refusal :: "'net ipnet_ops \<Rightarrow> 'net tokens \<Rightarrow> request \<Rightarrow> response" where
  "refusal ops tokens rq =
     (if \<not> list_ex (\<lambda>net. net_contains ops net (rq_peer rq)) (tk_admin_allowlist tokens)
      then respond 403 (TextBody ''forbidden: IP not in allowlist'')
      else if (case rq_authorization rq of None \<Rightarrow> None | Some h \<Rightarrow> strip_prefix ''Bearer '' h) = None
      then respond 401 (TextBody ''unauthorized: missing or invalid token'')
      else respond 401 (TextBody ''unauthorized: invalid token''))"

lemma router_authorised:
  "authorised ops argon tokens rq \<Longrightarrow> router reply ops argon tokens rq handler s = handler s"
proof -
  assume auth: "authorised ops argon tokens rq"
  show ?thesis
  proof (cases "endpoint_tier (rq_endpoint rq)")
    case NoAuth
    then show ?thesis by (simp add: router_def)
  next
    case IpOnly
    then have "rq_endpoint rq \<noteq> Healthz" by auto
    with auth IpOnly show ?thesis
      by (auto simp: router_def authorised_def ip_allowlist_middleware_def list_ex_iff)
  next
    case Authenticated
    then have "rq_endpoint rq \<noteq> Healthz" "rq_endpoint rq \<noteq> Metrics" by auto
    with auth Authenticated show ?thesis
      using token_middleware_passes [of rq argon tokens]
      by (auto simp: router_def authorised_def ip_allowlist_middleware_def list_ex_iff
          verify_token_True)
  qed
qed

lemma router_refused:
  assumes auth: "\<not> authorised ops argon tokens rq"
  shows "router reply ops argon tokens rq handler s = (reply (refusal ops tokens rq), s)"
proof (cases "list_ex (\<lambda>net. net_contains ops net (rq_peer rq)) (tk_admin_allowlist tokens)")
  case False
  have "rq_endpoint rq \<noteq> Healthz" using auth by (auto simp: authorised_def)
  then have "endpoint_tier (rq_endpoint rq) \<noteq> NoAuth" by (cases "rq_endpoint rq") auto
  then show ?thesis
    using False
    by (cases "endpoint_tier (rq_endpoint rq)") (simp_all add: router_def ip_allowlist_middleware_def refusal_def)
next
  case True
  then have no: "rq_endpoint rq \<noteq> Healthz" "rq_endpoint rq \<noteq> Metrics"
    "\<not> (\<exists>t. rq_authorization rq = Some (''Bearer '' @ t)
        \<and> verify_token argon t (tk_admin_token_hash tokens) = Some True)"
    using auth by (auto simp: authorised_def list_ex_iff verify_token_True)
  have "endpoint_tier (rq_endpoint rq) = Authenticated"
    using no(1,2) by (cases "rq_endpoint rq") auto
  moreover have "token_middleware reply argon tokens rq handler s = (reply (refusal ops tokens rq), s)"
    using no(3) True unfolding token_middleware_def bearer_token [symmetric] refusal_def
    by (cases "case rq_authorization rq of None \<Rightarrow> None | Some h \<Rightarrow> strip_prefix ''Bearer '' h") simp_all
  ultimately show ?thesis
    using True by (simp add: router_def ip_allowlist_middleware_def)
qed

lemma refusal_status: "\<exists>code b. refusal ops tokens rq = respond code b \<and> code \<in> {401, 403}"
  by (simp add: refusal_def)

lemma serve_authorised:
  "authorised (api_nets api) argon tokens rq \<Longrightarrow>
     serve api argon tokens env rq s = run_endpoint api env (rq_endpoint rq) s"
  by (simp add: serve_def router_authorised)

lemma serve_refused:
  "\<not> authorised (api_nets api) argon tokens rq \<Longrightarrow>
     \<exists>code b. serve api argon tokens env rq s = (Some (respond code b), s) \<and> code \<in> {401, 403}"
  unfolding serve_def using router_refused refusal_status by metis

lemma serve_wf:
  assumes "ipnet_laws (api_nets api)" "server_wf (api_nets api) s"
    and "serve api argon tokens env rq s = (r, s')"
  shows "(\<exists>x. r = Some x) \<and> server_wf (api_nets api) s'"
proof (cases "authorised (api_nets api) argon tokens rq")
  case True
  then show ?thesis using run_endpoint_wf [OF assms(1,2)] assms(3) by (simp add: serve_authorised)
next
  case False
  then show ?thesis using serve_refused [OF False, of env s] assms(2,3) by auto
qed

text \<open>A sequence of requests, each with the outcomes of its system calls.\<close>

fun serve_all ::
  "'net api \<Rightarrow> argon \<Rightarrow> 'net tokens \<Rightarrow> (env \<times> request) list \<Rightarrow> ('net, 'a) app_scheme
     \<Rightarrow> response run list \<times> ('net, 'a) app_scheme" where
  "serve_all api argon tokens [] s = ([], s)"
| "serve_all api argon tokens ((env, rq) # rqs) s =
     (let (r, s1) = serve api argon tokens env rq s;
          (rs, s2) = serve_all api argon tokens rqs s1
      in (r # rs, s2))"

section \<open>Bindings read back\<close>

lemma put_policy_Some:
  "put_policy body ex s = (Some p, s1) \<Longrightarrow>
     (\<forall>t. pb_policy body = Some t \<longrightarrow> hash_policy_from_str t = Inr p) \<and> pr_policies s1 = pr_policies s"
  by (cases "pb_policy body"; cases ex)
     (auto simp: put_policy_def case_prod_beta Let_def default_policies res_ok_eq_Some)

lemma put_seed_Some:
  "put_seed body ex s = (Some n, s1) \<Longrightarrow>
     (\<forall>t. pb_seed body = Some t \<longrightarrow> parse_seed t = Some n) \<and> pr_policies s1 = pr_policies s"
  by (cases "pb_seed body"; cases ex)
     (auto simp: put_seed_def case_prod_beta Let_def default_policies)

lemma put_apply_200:
  assumes "put_apply api env ip b s = (Some rsp, s')" "rs_status rsp = 200"
  shows "rsp = respond 200 (BindingBody (from_binding api ip b True))"
    "pol_bindings (pr_policies s') = (pol_bindings (pr_policies s))(ip \<mapsto> b)"
  using assms unfolding put_apply_def put_update_def put_answer_def
  by (cases rule: apply_and_save_cases [of "api_codec api" env
        "\<lambda>p. Some (p\<lparr>pol_bindings := (pol_bindings p)(ip \<mapsto> b)\<rparr>)" s]; auto simp: save_response_def)+

section \<open>An example server\<close>

definition example_server :: "(ip_addr \<times> u8) app" where
  "example_server = example_app\<lparr>ap_egress_filter := example_filter\<rparr>"

definition example_api :: "(ip_addr \<times> u8) api" where
  "example_api =
     \<lparr>api_nets = plain_ops, api_codec = plain_codec, api_rfc3339 = time_show plain_codec\<rparr>"

lemma example_api_simps [simp]:
  "api_nets example_api = plain_ops" "api_codec example_api = plain_codec"
  by (simp_all add: example_api_def)

lemma example_server_wf: "server_wf plain_ops example_server"
proof -
  have e: "effective_allow acl_delta_default b = merge_acl b [] []"
    "effective_deny acl_delta_default b = merge_acl b [] []" for b
    by (simp_all add: effective_allow_def effective_deny_def acl_delta_default_def)
  have "ap_domain_filter example_server = fst (build_domain_filter [] [] acl_delta_default)"
    by (simp add: build_domain_filter_def e merge_acl_def domain_filter_build_def from_rules_def
        example_server_def example_app_def proc.defs domain_filter_default_def)
  moreover have "build_egress_filter plain_ops [''2001:db8:1::/48''] [] acl_delta_default
      = Some (example_filter, [])"
    by (simp add: build_egress_filter_def e merge_acl_def example_entry example_build)
  ultimately show ?thesis
    by (simp add: server_wf_def live_domain_def live_egress_def example_server_def
        policies_default_def)
qed

lemma serve_all_wf:
  assumes "ipnet_laws (api_nets api)" "server_wf (api_nets api) s"
    and "serve_all api argon tokens rqs s = (rs, s')"
  shows "list_all (\<lambda>r. r \<noteq> None) rs \<and> length rs = length rqs \<and> server_wf (api_nets api) s'"
  using assms(2,3)
proof (induction rqs arbitrary: s rs)
  case (Cons q rqs)
  obtain env rq where q: "q = (env, rq)" by fastforce
  obtain r s1 where one: "serve api argon tokens env rq s = (r, s1)" by fastforce
  obtain rs' where rest: "serve_all api argon tokens rqs s1 = (rs', s')" "rs = r # rs'"
    using Cons.prems(2) q one by (auto split: prod.splits)
  show ?case
    using serve_wf [OF assms(1) Cons.prems(1) one] Cons.IH [OF _ rest(1)] rest(2) by auto
qed simp

section \<open>Properties\<close>

text \<open>C7: the running server is safe: from a well-formed state, no sequence of requests, in whatever
  order, from whomever, with whatever failures of the file system, makes a handler panic, and after
  every request the filters that the data plane reads are those of the current policies.\<close>

theorem server_never_panics:
  assumes "ipnet_laws (api_nets api)" "server_wf (api_nets api) s"
    and "serve_all api argon tokens rqs s = (rs, s')"
  shows "list_all (\<lambda>r. r \<noteq> None) rs \<and> length rs = length rqs \<and> server_wf (api_nets api) s'"
  using assms by (rule serve_all_wf)

theorem server_never_panics_witness:
  "\<exists>r s'. serve_all example_api \<lparr>pw_hash_ok = (\<lambda>h. True), pw_verify = (\<lambda>t h. Verified)\<rparr>
       \<lparr>tk_admin_token_hash = [], tk_admin_allowlist = [(IpV6 1, 128)]\<rparr>
       [(example_env, \<lparr>rq_peer = IpV6 1, rq_authorization = Some ''Bearer x'',
          rq_endpoint = MutateDomains Deny Add [''ads.com'']\<rparr>)] example_server = ([r], s')
     \<and> r \<noteq> None \<and> server_wf plain_ops s'"
proof -
  let ?a = "\<lparr>pw_hash_ok = (\<lambda>h. True), pw_verify = (\<lambda>t h. Verified)\<rparr>"
  let ?t = "\<lparr>tk_admin_token_hash = [], tk_admin_allowlist = [(IpV6 1, 128)]\<rparr>"
  let ?q = "[(example_env, \<lparr>rq_peer = IpV6 1, rq_authorization = Some ''Bearer x'',
      rq_endpoint = MutateDomains Deny Add [''ads.com'']\<rparr>)]"
  obtain rs s' where run: "serve_all example_api ?a ?t ?q example_server = (rs, s')" by fastforce
  from server_never_panics [OF _ _ run] have "list_all (\<lambda>r. r \<noteq> None) rs \<and> length rs = 1
      \<and> server_wf plain_ops s'"
    by (simp add: plain_laws example_server_wf)
  then obtain r where "rs = [r]" "r \<noteq> None" "server_wf plain_ops s'" by (cases rs) auto
  with run show ?thesis by blast
qed

text \<open>C8: access control: an authorised request (any health check; metrics from a listed address; the
  rest from a listed address with a bearer token that the password hash verifies) reaches its
  handler, and any other is answered 401 or 403 with no effect at all.\<close>

theorem access_control:
  "if authorised (api_nets api) argon tokens rq
   then serve api argon tokens env rq s = run_endpoint api env (rq_endpoint rq) s
   else (\<exists>code b. serve api argon tokens env rq s = (Some (respond code b), s) \<and> code \<in> {401, 403})"
  using serve_authorised [of api argon tokens rq env s] serve_refused [of api argon tokens rq env s]
  by simp

text \<open>A put that is answered 200 is what a later get shows: the same response, with the given policy
  and seed where the request names them, and no other binding is touched.\<close>

theorem put_then_get:
  assumes "parse_ip_addr srcip = Some ip" "put_binding api env srcip body s = (Some rsp, s')"
    and "rs_status rsp = 200"
  shows "get_binding api env' srcip s' = (rsp, s')
    \<and> (\<exists>b. pol_bindings (pr_policies s') = (pol_bindings (pr_policies s))(ip \<mapsto> b)
        \<and> rsp = respond 200 (BindingBody (from_binding api ip b True))
        \<and> (\<forall>t. pb_policy body = Some t \<longrightarrow> hash_policy_from_str t = Inr (bd_policy b))
        \<and> (\<forall>t. pb_seed body = Some t \<longrightarrow> parse_seed t = Some (bd_seed b)))"
proof -
  let ?ex = "pol_bindings (pr_policies s) ip"
  obtain p s1 where p: "put_policy body ?ex s = (p, s1)" by fastforce
  obtain n s2 where n: "put_seed body ?ex s1 = (n, s2)" by fastforce
  obtain hp sd where hp: "p = Some hp" "n = Some sd"
    using assms p n by (auto simp: put_binding_def put_check_def split: option.splits)
  let ?b = "\<lparr>bd_policy = hp, bd_seed = sd, bd_updated_at = env_now env\<rparr>"
  have "put_apply api env ip ?b s2 = (Some rsp, s')"
    using assms(1,2) p n hp by (simp add: put_binding_def put_check_def)
  note stored = put_apply_200 [OF this assms(3)]
  have "pr_policies s2 = pr_policies s"
    using put_policy_Some p put_seed_Some n hp by metis
  then have b: "pol_bindings (pr_policies s') = (pol_bindings (pr_policies s))(ip \<mapsto> ?b)"
    using stored(2) by simp
  have "get_binding api env' srcip s' = (rsp, s')"
    using stored(1) b assms(1) by (simp add: get_binding_def)
  moreover have "\<forall>t. pb_policy body = Some t \<longrightarrow> hash_policy_from_str t = Inr hp"
    "\<forall>t. pb_seed body = Some t \<longrightarrow> parse_seed t = Some sd"
    using put_policy_Some put_seed_Some p n hp by metis+
  ultimately show ?thesis using b stored(1) by (intro conjI exI [of _ ?b]) simp_all
qed


theorem put_then_get_witness:
  "\<exists>rsp s'. put_binding example_api example_env ''::1''
       \<lparr>pb_policy = Some ''five_tuple'', pb_seed = Some ''0x2a''\<rparr> example_server = (Some rsp, s')
     \<and> get_binding example_api example_env ''::1'' s' = (rsp, s')"
proof -
  let ?body = "\<lparr>pb_policy = Some ''five_tuple'', pb_seed = Some ''0x2a''\<rparr>"
  have ip: "parse_ip_addr ''::1'' = Some (IpV6 1)" by (simp add: ip_eval)
  have seed: "parse_seed ''0x2a'' = Some 42"
    by (simp add: parse_seed_def strip_prefix_def parse_uint_def to_digit_def code_def)
  obtain r s' where run: "put_binding example_api example_env ''::1'' ?body example_server = (r, s')"
    by fastforce
  then obtain rsp where r: "r = Some rsp" "rs_status rsp = 200"
    by (auto simp: put_binding_def put_check_def ip put_policy_def put_seed_def hash_policy_from_str_def seed
        put_apply_def put_update_def put_answer_def save_response_def apply_and_save_defs state_path_def example_server_def
        save_policies_def example_env_def Let_def)
  from put_then_get [OF ip run [unfolded r(1)] r(2)] run r(1) show ?thesis by blast
qed
end
