(* ===== verification/ApiTasks.thy ===== *)
theory ApiTasks
  imports ApiServer
begin

text \<open>
  Requests of the admin API as tasks that can run at the same time. A handler lets other tasks run
  between its check, its save, the compilation of a new filter, the publication of it and the reading
  of the answer; a task is a request at one of these points, and a step advances one task. The save
  is under the write lock, but only other saves wait for the lock: between two file operations, and
  between the last of them and the store of the live policies, every other task may take its steps.
  A task that runs by itself computes what \<open>serve\<close> computes.
\<close>

section \<open>Tasks\<close>

text \<open>What a handler does when its save has succeeded: it answers (or panics), or it rebuilds a filter.\<close>

datatype after_save = Ended "response run" | RebuildDomain | RebuildEgress

text \<open>A request at the points where its handler lets other tasks run: before the middlewares, before the
  handler, after a check, within the save (the file systems still to come, the outcome, and what
  follows), after the save, between the compilation of a filter and its publication, before the view
  of the answer is read.\<close>

datatype 'net task =
  Arrived request
| Admitted endpoint
| PutReady ip_addr binding
| PatchChecked hash_policy ip_addr
| ReseedChecked u64 ip_addr
| DeleteChecked ip_addr
| DomainReady acl_list acl_op "string list"
| EgressReady acl_list acl_op "string list"
| Saving "fs list" "save_error + policies" "policies \<Rightarrow> after_save"
| DomainSaved
| DomainCompiled domain_filter
| DomainPublished
| EgressSaved
| EgressCompiled "'net egress_filter"
| EgressPublished
| Answered response
| Panicked

text \<open>The write lock: the tasks whose next step takes it, and those that have it.\<close>

fun wants_lock :: "'net task \<Rightarrow> bool" where
  "wants_lock (PutReady ip b) = True"
| "wants_lock (PatchChecked hp ip) = True"
| "wants_lock (ReseedChecked n ip) = True"
| "wants_lock (DeleteChecked ip) = True"
| "wants_lock (DomainReady list op canon) = True"
| "wants_lock (EgressReady list op canon) = True"
| "wants_lock _ = False"

fun holds_lock :: "'net task \<Rightarrow> bool" where
  "holds_lock (Saving fss r k) = True"
| "holds_lock _ = False"

definition lock_free :: "'net task \<Rightarrow> 'net task list \<Rightarrow> bool" where
  "lock_free t ts \<longleftrightarrow> (wants_lock t \<longrightarrow> filter holds_lock ts = [])"

definition finish :: "response run \<times> 's \<Rightarrow> 'net task \<times> 's" where
  "finish result =
     (case result of (None, s) \<Rightarrow> (Panicked, s) | (Some r, s) \<Rightarrow> (Answered r, s))"

text \<open>\<open>apply_and_save\<close> as a task: the lock is taken, the policies are read and changed and the outcome of
  the file operations is fixed; then follows one operation after the other, then the store.\<close>

definition begin_save ::
  "codec \<Rightarrow> env \<Rightarrow> (policies \<Rightarrow> policies) \<Rightarrow> (policies \<Rightarrow> after_save) \<Rightarrow> ('net, 'a) app_scheme
     \<Rightarrow> 'net task \<times> ('net, 'a) app_scheme" where
  "begin_save c env update k s =
     (case save_start c env (\<lambda>p. ret (update p)) s of
        None \<Rightarrow> (Panicked, s)
      | Some (r, trace) \<Rightarrow> (Saving (tl trace) r k, s))"

definition after_saving :: "save_error + policies \<Rightarrow> (policies \<Rightarrow> after_save) \<Rightarrow> 'net task" where
  "after_saving r k =
     (case r of
        Inl e \<Rightarrow> Answered failed_to_save
      | Inr p \<Rightarrow>
          (case k p of
             Ended answer \<Rightarrow> (case answer of None \<Rightarrow> Panicked | Some rsp \<Rightarrow> Answered rsp)
           | RebuildDomain \<Rightarrow> DomainSaved
           | RebuildEgress \<Rightarrow> EgressSaved))"

text \<open>\<open>mutate_acl\<close> up to the lock: the batch is canonicalised.\<close>

definition mutate_ready ::
  "(string \<Rightarrow> acl_error + string) \<Rightarrow> string list \<Rightarrow> (string list \<Rightarrow> 'net task) \<Rightarrow> 'net task" where
  "mutate_ready canonicalize rules ready =
     (case canon_batch canonicalize rules of
        Inl (r, e) \<Rightarrow> Answered (respond 400 (InvalidRuleBody r e))
      | Inr canon \<Rightarrow> ready canon)"

text \<open>The first part of a handler.\<close>

definition endpoint_start ::
  "'net api \<Rightarrow> env \<Rightarrow> endpoint \<Rightarrow> ('net, 'a) app_scheme \<Rightarrow> 'net task \<times> ('net, 'a) app_scheme" where
  "endpoint_start api env e s =
     (case e of
        PutBinding srcip body \<Rightarrow>
          (case put_check env srcip body s of
             (Inl r, s1) \<Rightarrow> (Answered r, s1) | (Inr (ip, b), s1) \<Rightarrow> (PutReady ip b, s1))
      | PatchHashPolicy srcip policy \<Rightarrow>
          (case patch_check srcip policy s of
             Inl r \<Rightarrow> (Answered r, s) | Inr (hp, ip) \<Rightarrow> (PatchChecked hp ip, s))
      | Reseed srcip n \<Rightarrow>
          (case check_binding srcip s of Inl r \<Rightarrow> (Answered r, s) | Inr ip \<Rightarrow> (ReseedChecked n ip, s))
      | DeleteBinding srcip \<Rightarrow>
          (case check_binding srcip s of Inl r \<Rightarrow> (Answered r, s) | Inr ip \<Rightarrow> (DeleteChecked ip, s))
      | MutateDomains list op rules \<Rightarrow>
          (mutate_ready (k_canonicalize (domain_kind :: ('net, 'a) app_scheme acl_kind)) rules (DomainReady list op), s)
      | MutateEgress list op rules \<Rightarrow>
          (mutate_ready (k_canonicalize (egress_kind api :: ('net, 'a) app_scheme acl_kind)) rules (EgressReady list op), s)
      | _ \<Rightarrow> finish (run_endpoint api env e s))"

text \<open>One step of a task. The two rebuilds are split into reading and compiling the policies, and storing
  the result.\<close>

fun task_step ::
  "'net api \<Rightarrow> argon \<Rightarrow> 'net tokens \<Rightarrow> env \<Rightarrow> 'net task \<Rightarrow> ('net, 'a) app_scheme
     \<Rightarrow> 'net task \<times> ('net, 'a) app_scheme" where
  "task_step api argon tokens env (Arrived rq) s =
     router Answered (api_nets api) argon tokens rq (\<lambda>s. (Admitted (rq_endpoint rq), s)) s"
| "task_step api argon tokens env (Admitted e) s = endpoint_start api env e s"
| "task_step api argon tokens env (PutReady ip b) s =
     begin_save (api_codec api) env (put_update ip b) (\<lambda>p. Ended (put_answer api ip b p)) s"
| "task_step api argon tokens env (PatchChecked hp ip) s =
     begin_save (api_codec api) env (patch_update env hp ip) (\<lambda>p. Ended (binding_of_new api ip p)) s"
| "task_step api argon tokens env (ReseedChecked n ip) s =
     begin_save (api_codec api) env (reseed_update env n ip) (\<lambda>p. Ended (binding_of_new api ip p)) s"
| "task_step api argon tokens env (DeleteChecked ip) s =
     begin_save (api_codec api) env (delete_update ip) (\<lambda>p. Ended (delete_answer p)) s"
| "task_step api argon tokens env (DomainReady list op canon) s =
     begin_save (api_codec api) env (acl_update list op canon domain_kind s) (\<lambda>p. RebuildDomain) s"
| "task_step api argon tokens env (EgressReady list op canon) s =
     begin_save (api_codec api) env (acl_update list op canon (egress_kind api) s) (\<lambda>p. RebuildEgress) s"
| "task_step api argon tokens env (Saving (f # fss) r k) s = (Saving fss r k, s\<lparr>pr_fs := f\<rparr>)"
| "task_step api argon tokens env (Saving [] r k) s = (after_saving r k, publish r s)"
| "task_step api argon tokens env DomainSaved s =
     (case ap_domain_base s of
        None \<Rightarrow> (Panicked, s)
      | Some (ba, bd) \<Rightarrow>
          (DomainCompiled (fst (build_domain_filter ba bd (pol_domain_acl (pr_policies s)))), s))"
| "task_step api argon tokens env (DomainCompiled f) s = (DomainPublished, s\<lparr>ap_domain_filter := f\<rparr>)"
| "task_step api argon tokens env DomainPublished s =
     (Answered (respond 200 (AclBody (domain_view s))), s)"
| "task_step api argon tokens env EgressSaved s =
     (case ap_egress_base s of
        None \<Rightarrow> (Panicked, s)
      | Some (ba, bd) \<Rightarrow>
          (case build_egress_filter (api_nets api) ba bd (pol_egress_acl (pr_policies s)) of
             None \<Rightarrow> (Panicked, s)
           | Some (f, bad) \<Rightarrow> (EgressCompiled f, s)))"
| "task_step api argon tokens env (EgressCompiled f) s = (EgressPublished, s\<lparr>ap_egress_filter := f\<rparr>)"
| "task_step api argon tokens env EgressPublished s =
     (Answered (respond 200 (AclBody (egress_view s))), s)"
| "task_step api argon tokens env (Answered r) s = (Answered r, s)"
| "task_step api argon tokens env Panicked s = (Panicked, s)"

text \<open>What the standard library promises of the traversal of a hash map.\<close>

definition env_ok :: "env \<Rightarrow> bool" where
  "env_ok env \<longleftrightarrow> (\<forall>m. finite (dom m) \<longrightarrow> enumerates (env_entries env m) m)"

text \<open>The server: some tasks, of which any one takes the next step, unless it has to wait for the lock.\<close>

record 'net api_world =
  aw_api :: "'net api"
  aw_argon :: argon
  aw_tokens :: "'net tokens"

inductive api_step ::
  "'net api_world \<Rightarrow> ('net, 'a) app_scheme \<times> 'net task list \<Rightarrow> ('net, 'a) app_scheme \<times> 'net task list \<Rightarrow> bool"
  for w where
  step: "i < length ts \<Longrightarrow> env_ok env \<Longrightarrow> lock_free (ts ! i) ts
     \<Longrightarrow> task_step (aw_api w) (aw_argon w) (aw_tokens w) env (ts ! i) s = (t, s')
     \<Longrightarrow> api_step w (s, ts) (s', ts[i := t])"

inductive_cases api_stepE: "api_step w (s, ts) st"

abbreviation api_steps ::
  "'net api_world \<Rightarrow> ('net, 'a) app_scheme \<times> 'net task list \<Rightarrow> ('net, 'a) app_scheme \<times> 'net task list \<Rightarrow> bool" where
  "api_steps w \<equiv> (api_step w)\<^sup>*\<^sup>*"

section \<open>A task by itself\<close>

abbreviation (input) alone ::
  "'net api \<Rightarrow> argon \<Rightarrow> 'net tokens \<Rightarrow> env \<Rightarrow> 'net task \<times> ('net, 'a) app_scheme \<Rightarrow> 'net task \<times> ('net, 'a) app_scheme" where
  "alone api argon tokens env \<equiv> \<lambda>(t, s). task_step api argon tokens env t s"

definition leads_to ::
  "'net api \<Rightarrow> argon \<Rightarrow> 'net tokens \<Rightarrow> env \<Rightarrow> 'net task \<times> ('net, 'a) app_scheme
     \<Rightarrow> 'net task \<times> ('net, 'a) app_scheme \<Rightarrow> bool" where
  "leads_to api argon tokens env x y \<longleftrightarrow> (\<exists>n. (alone api argon tokens env ^^ n) x = y)"

lemma leads_refl: "leads_to api argon tokens env x x"
  unfolding leads_to_def by (rule exI [of _ 0]) simp

lemma leads_trans:
  assumes "leads_to api argon tokens env x y" "leads_to api argon tokens env y z"
  shows "leads_to api argon tokens env x z"
proof -
  obtain m n where "(alone api argon tokens env ^^ m) x = y" "(alone api argon tokens env ^^ n) y = z"
    using assms by (auto simp: leads_to_def)
  then have "(alone api argon tokens env ^^ (n + m)) x = z" by (simp add: funpow_add)
  then show ?thesis unfolding leads_to_def by blast
qed

lemma leads_step:
  assumes "leads_to api argon tokens env (task_step api argon tokens env t s) y"
  shows "leads_to api argon tokens env (t, s) y"
proof -
  obtain n where "(alone api argon tokens env ^^ n) (task_step api argon tokens env t s) = y"
    using assms by (auto simp: leads_to_def)
  then have "(alone api argon tokens env ^^ Suc n) (t, s) = y" by (simp add: funpow_swap1)
  then show ?thesis unfolding leads_to_def by blast
qed

lemma save_start_trace: "save_start c env f s = Some (r, trace) \<Longrightarrow> trace = pr_fs s # tl trace"
  by (auto simp: save_start_def save_policies_def Let_def split: option.splits if_splits)

lemma saving_alone:
  "leads_to api argon tokens env (Saving fss r k, s) (after_saving r k, publish r (s\<lparr>pr_fs := last (pr_fs s # fss)\<rparr>))"
proof (induction fss arbitrary: s)
  case Nil
  show ?case by (rule leads_step) (simp add: leads_refl)
next
  case (Cons f fss)
  show ?case
    by (rule leads_step) (use Cons.IH [where s = "s\<lparr>pr_fs := f\<rparr>"] in \<open>simp split: if_splits\<close>)
qed

lemma begin_alone:
  "leads_to api argon tokens env (begin_save c env update k s)
     (case apply_and_save c env (\<lambda>p. ret (update p)) s of
        (None, s1) \<Rightarrow> (Panicked, s1) | (Some r, s1) \<Rightarrow> (after_saving r k, s1))"
proof (cases "save_start c env (\<lambda>p. ret (update p)) s")
  case None
  then show ?thesis by (simp add: begin_save_def apply_and_save_def leads_refl)
next
  case (Some x)
  obtain r trace where x: "x = (r, trace)" by fastforce
  have "last (pr_fs s # tl trace) = last trace" using save_start_trace [OF Some [unfolded x]] by metis
  then show ?thesis
    using saving_alone [of api argon tokens env "tl trace" r k s] Some
    by (simp add: begin_save_def apply_and_save_def x)
qed

lemma answer_alone:
  "leads_to api argon tokens env (begin_save c env update (\<lambda>p. Ended (k p)) s)
     (finish (save_response k (apply_and_save c env (\<lambda>p. ret (update p)) s)))"
proof -
  obtain r s1 where r: "apply_and_save c env (\<lambda>p. ret (update p)) s = (r, s1)" by fastforce
  show ?thesis
    using begin_alone [of api argon tokens env c update "\<lambda>p. Ended (k p)" s] unfolding r
    by (auto simp: finish_def save_response_def after_saving_def split: option.splits sum.splits)
qed

lemma domain_saved_alone:
  "leads_to api argon tokens env (DomainSaved, s)
     (finish (case rebuild_domain_filter s of
        None \<Rightarrow> (panic, s) | Some s2 \<Rightarrow> (ret (respond 200 (AclBody (domain_view s2))), s2)))"
proof (cases "ap_domain_base s")
  case None
  then show ?thesis by (intro leads_step) (simp add: rebuild_domain_filter_def finish_def leads_refl)
next
  case (Some base)
  then show ?thesis
    by (intro leads_step; cases base)
       (auto simp: rebuild_domain_filter_def finish_def domain_view_def domain_base_def case_prod_beta Let_def
         intro!: leads_step leads_refl)
qed

lemma egress_saved_alone:
  "leads_to api argon tokens env (EgressSaved, s)
     (finish (case rebuild_egress_filter (api_nets api) s of
        None \<Rightarrow> (panic, s) | Some s2 \<Rightarrow> (ret (respond 200 (AclBody (egress_view s2))), s2)))"
proof (cases "ap_egress_base s")
  case None
  then show ?thesis by (intro leads_step) (simp add: rebuild_egress_filter_def finish_def leads_refl)
next
  case (Some base)
  then show ?thesis
    by (intro leads_step; cases base)
       (auto simp: rebuild_egress_filter_def finish_def egress_view_def egress_base_def case_prod_beta Let_def
         split: option.splits bind_splits intro!: leads_step leads_refl)
qed

lemma domain_mutation_alone:
  "leads_to api argon tokens env (DomainReady list op canon, s)
     (finish (case acl_apply (api_codec api) env list op canon domain_kind s of
        (None, s1) \<Rightarrow> (panic, s1)
      | (Some (Inl e), s1) \<Rightarrow> (ret failed_to_save, s1)
      | (Some (Inr p), s1) \<Rightarrow>
          (case k_rebuild domain_kind s1 of
             None \<Rightarrow> (panic, s1) | Some s2 \<Rightarrow> (ret (respond 200 (AclBody (k_view domain_kind s2))), s2))))"
proof -
  obtain r s1 where r: "acl_apply (api_codec api) env list op canon domain_kind s = (r, s1)" by fastforce
  have "leads_to api argon tokens env (DomainReady list op canon, s)
      (case r of None \<Rightarrow> (Panicked, s1) | Some r \<Rightarrow> (after_saving r (\<lambda>p. RebuildDomain), s1))"
    using begin_alone [of api argon tokens env "api_codec api" "acl_update list op canon domain_kind s" "\<lambda>p. RebuildDomain" s]
      r by (intro leads_step) (simp add: acl_apply_def)
  then show ?thesis
    using domain_saved_alone [of api argon tokens env s1] leads_trans unfolding r
    by (fastforce simp: after_saving_def finish_def split: option.splits sum.splits)
qed

lemma egress_mutation_alone:
  "leads_to api argon tokens env (EgressReady list op canon, s)
     (finish (case acl_apply (api_codec api) env list op canon (egress_kind api) s of
        (None, s1) \<Rightarrow> (panic, s1)
      | (Some (Inl e), s1) \<Rightarrow> (ret failed_to_save, s1)
      | (Some (Inr p), s1) \<Rightarrow>
          (case k_rebuild (egress_kind api) s1 of
             None \<Rightarrow> (panic, s1) | Some s2 \<Rightarrow> (ret (respond 200 (AclBody (k_view (egress_kind api) s2))), s2))))"
proof -
  obtain r s1 where r: "acl_apply (api_codec api) env list op canon (egress_kind api) s = (r, s1)" by fastforce
  have "leads_to api argon tokens env (EgressReady list op canon, s)
      (case r of None \<Rightarrow> (Panicked, s1) | Some r \<Rightarrow> (after_saving r (\<lambda>p. RebuildEgress), s1))"
    using begin_alone [of api argon tokens env "api_codec api" "acl_update list op canon (egress_kind api) s" "\<lambda>p. RebuildEgress" s]
      r by (intro leads_step) (simp add: acl_apply_def)
  then show ?thesis
    using egress_saved_alone [of api argon tokens env s1] leads_trans unfolding r
    by (fastforce simp: after_saving_def finish_def split: option.splits sum.splits)
qed

lemma endpoint_alone:
  "leads_to api argon tokens env (Admitted e, s) (finish (run_endpoint api env e s))"
proof (rule leads_step, unfold task_step.simps, cases e)
  case (PutBinding srcip body)
  then show "leads_to api argon tokens env (endpoint_start api env e s) (finish (run_endpoint api env e s))"
    by (auto simp: endpoint_start_def run_endpoint_def put_binding_def finish_def [of "(Some r, s')" for r s'] put_apply_def
        intro!: leads_refl leads_step [where t = "PutReady ip b" for ip b] answer_alone split: prod.splits sum.splits)
next
  case (PatchHashPolicy srcip policy)
  then show "leads_to api argon tokens env (endpoint_start api env e s) (finish (run_endpoint api env e s))"
    by (auto simp: endpoint_start_def run_endpoint_def patch_hash_policy_def finish_def [of "(Some r, s')" for r s'] patch_apply_def
        intro!: leads_refl leads_step [where t = "PatchChecked hp ip" for hp ip] answer_alone split: prod.splits sum.splits)
next
  case (Reseed srcip n)
  then show "leads_to api argon tokens env (endpoint_start api env e s) (finish (run_endpoint api env e s))"
    by (auto simp: endpoint_start_def run_endpoint_def reseed_def finish_def [of "(Some r, s')" for r s'] reseed_apply_def
        intro!: leads_refl leads_step [where t = "ReseedChecked n ip" for n ip] answer_alone split: prod.splits sum.splits)
next
  case (DeleteBinding srcip)
  then show "leads_to api argon tokens env (endpoint_start api env e s) (finish (run_endpoint api env e s))"
    by (auto simp: endpoint_start_def run_endpoint_def delete_binding_def finish_def [of "(Some r, s')" for r s'] delete_apply_def
        intro!: leads_refl leads_step [where t = "DeleteChecked ip" for ip] answer_alone split: prod.splits sum.splits)
next
  case (MutateDomains list op rules)
  show "leads_to api argon tokens env (endpoint_start api env e s) (finish (run_endpoint api env e s))"
  proof (cases "canon_batch (k_canonicalize (domain_kind :: ('a, 'b) app_scheme acl_kind)) rules")
    case (Inl x)
    then show ?thesis
      by (cases x) (simp add: MutateDomains endpoint_start_def run_endpoint_def acl_routes mutate_ready_def mutate_acl_def
          finish_def leads_refl)
  next
    case (Inr canon)
    then show ?thesis
      using domain_mutation_alone [of api argon tokens env list op canon s]
      by (simp add: MutateDomains endpoint_start_def run_endpoint_def acl_routes mutate_ready_def mutate_acl_def)
  qed
next
  case (MutateEgress list op rules)
  show "leads_to api argon tokens env (endpoint_start api env e s) (finish (run_endpoint api env e s))"
  proof (cases "canon_batch (k_canonicalize (egress_kind api :: ('a, 'b) app_scheme acl_kind)) rules")
    case (Inl x)
    then show ?thesis
      by (cases x) (simp add: MutateEgress endpoint_start_def run_endpoint_def acl_routes mutate_ready_def mutate_acl_def
          finish_def leads_refl)
  next
    case (Inr canon)
    then show ?thesis
      using egress_mutation_alone [of api argon tokens env list op canon s]
      by (simp add: MutateEgress endpoint_start_def run_endpoint_def acl_routes mutate_ready_def mutate_acl_def)
  qed
qed (simp_all add: endpoint_start_def leads_refl)

text \<open>The task of a request is its handler, cut at the waiting points.\<close>

lemma request_alone:
  "leads_to api argon tokens env (Arrived rq, s) (finish (serve api argon tokens env rq s))"
proof (cases "authorised (api_nets api) argon tokens rq")
  case True
  then show ?thesis by (intro leads_step) (simp add: router_authorised endpoint_alone serve_authorised)
next
  case False
  then show ?thesis
    by (intro leads_step) (simp add: router_refused serve_def finish_def leads_refl)
qed

section \<open>What a step does to the statics\<close>

text \<open>The statics that the admin API publishes and the filters are compiled from.\<close>

definition published :: "('net, 'a) app_scheme \<Rightarrow>
    policies \<times> (string list \<times> string list) option \<times> (string list \<times> string list) option
      \<times> domain_filter \<times> 'net egress_filter \<times> file_path option" where
  "published s = (pr_policies s, ap_domain_base s, ap_egress_base s, ap_domain_filter s, ap_egress_filter s,
     pr_state_path s)"

text \<open>The same with the file system and whatever else the process keeps beside the statics.\<close>

definition stored :: "('net, 'a) app_scheme \<Rightarrow>
    (policies \<times> (string list \<times> string list) option \<times> (string list \<times> string list) option
      \<times> domain_filter \<times> 'net egress_filter \<times> file_path option) \<times> fs \<times> 'a" where
  "stored s = (published s, pr_fs s, app.more s)"

text \<open>A change of the policies that keeps the table of bindings finite.\<close>

definition keeps_table :: "(policies \<Rightarrow> policies) \<Rightarrow> bool" where
  "keeps_table g \<longleftrightarrow> (\<forall>p. finite (dom (pol_bindings p)) \<longrightarrow> finite (dom (pol_bindings (g p))))"

lemma updates_keep_table:
  "keeps_table (put_update ip b)" "keeps_table (patch_update env hp ip)" "keeps_table (reseed_update env n ip)"
  "keeps_table (delete_update ip)" "keeps_table (acl_update list op canon domain_kind s)"
  "keeps_table (acl_update list op canon (egress_kind api) s)"
  by (simp_all add: keeps_table_def put_update_def patch_update_def reseed_update_def delete_update_def acl_update_def
      update_binding_simps select_domain_def select_egress_def case_prod_beta)

lemma default_stored:
  "stored (snd (default_hash_policy s)) = stored s"
  "stored (snd (default_binding_seed s)) = stored s"
  "stored (snd (default_binding now s)) = stored s"
  by (auto simp: stored_def published_def default_binding_def default_hash_policy_def
      default_binding_seed_def split: option.splits)

lemma put_check_stored: "stored (snd (put_check env srcip body s)) = stored s"
proof -
  have p: "stored (snd (put_policy body ex s)) = stored s" for ex and s :: "('a, 'b) app_scheme"
    by (simp add: put_policy_def default_stored case_prod_beta Let_def split: option.splits)
  have n: "stored (snd (put_seed body ex s)) = stored s" for ex and s :: "('a, 'b) app_scheme"
    by (simp add: put_seed_def default_stored case_prod_beta Let_def split: option.splits)
  show ?thesis
    unfolding put_check_def by (simp add: p n case_prod_beta Let_def split: option.splits)
qed

lemma snd_finish [simp]: "snd (finish x) = snd x"
  by (auto simp: finish_def split: prod.splits option.splits)

lemma snd_begin_save [simp]: "snd (begin_save c env g k s) = s"
  by (simp add: begin_save_def split: option.splits prod.splits)

text \<open>Up to the lock, a handler publishes nothing.\<close>

lemma endpoint_start_quiet: "stored (snd (endpoint_start api env e s)) = stored s"
proof (cases e)
  case (GetBinding srcip)
  then show ?thesis
    by (simp add: endpoint_start_def run_endpoint_def get_binding_def default_stored case_prod_beta Let_def
        split: option.splits)
next
  case (PutBinding srcip body)
  then show ?thesis using put_check_stored [of env srcip body s]
    by (auto simp: endpoint_start_def split: prod.splits sum.splits)
qed (simp_all add: endpoint_start_def run_endpoint_def split: sum.splits prod.splits)

text \<open>A step makes one file operation of a save, or stores the new policies, or publishes a filter, or
  changes none of this.\<close>

lemma task_step_effect:
  obtains (quiet) "stored (snd (task_step api argon tokens env t s)) = stored s"
  | (writes) f fss r k where "t = Saving (f # fss) r k"
      "task_step api argon tokens env t s = (Saving fss r k, s\<lparr>pr_fs := f\<rparr>)"
  | (publishes) p k where "t = Saving [] (Inr p) k"
      "task_step api argon tokens env t s = (after_saving (Inr p) k, s\<lparr>pr_policies := p\<rparr>)"
  | (domain) f where "t = DomainCompiled f"
      "snd (task_step api argon tokens env t s) = s\<lparr>ap_domain_filter := f\<rparr>"
  | (egress) f where "t = EgressCompiled f"
      "snd (task_step api argon tokens env t s) = s\<lparr>ap_egress_filter := f\<rparr>"
proof (cases t)
  case (Arrived rq)
  show ?thesis
    by (rule quiet, cases "authorised (api_nets api) argon tokens rq")
       (simp_all add: Arrived router_authorised router_refused)
next
  case (Admitted e)
  show ?thesis by (rule quiet) (simp add: Admitted endpoint_start_quiet)
next
  case (Saving fss r k)
  show ?thesis
  proof (cases fss)
    case Nil
    show ?thesis
    proof (cases r)
      case (Inl e)
      show ?thesis by (rule quiet) (simp add: Saving Nil Inl publish_def)
    next
      case (Inr p)
      show ?thesis by (rule publishes [of p k]) (simp_all add: Saving Nil Inr publish_def)
    qed
  next
    case (Cons f fss')
    show ?thesis by (rule writes [of f fss' r k]) (simp_all add: Saving Cons)
  qed
next
  case (DomainCompiled f)
  then show ?thesis using domain by simp
next
  case (EgressCompiled f)
  then show ?thesis using egress by simp
next
  case (PutReady ip b)
  show ?thesis by (rule quiet) (simp add: PutReady)
next
  case (PatchChecked hp ip)
  show ?thesis by (rule quiet) (simp add: PatchChecked)
next
  case (ReseedChecked n ip)
  show ?thesis by (rule quiet) (simp add: ReseedChecked)
next
  case (DeleteChecked ip)
  show ?thesis by (rule quiet) (simp add: DeleteChecked)
next
  case (DomainReady list op canon)
  show ?thesis by (rule quiet) (simp add: DomainReady)
next
  case (EgressReady list op canon)
  show ?thesis by (rule quiet) (simp add: EgressReady)
next
  case DomainSaved
  show ?thesis by (rule quiet) (simp add: DomainSaved split: option.splits prod.splits)
next
  case EgressSaved
  show ?thesis by (rule quiet) (simp add: EgressSaved split: option.splits prod.splits)
next
  case DomainPublished
  show ?thesis by (rule quiet) (simp add: DomainPublished)
next
  case EgressPublished
  show ?thesis by (rule quiet) (simp add: EgressPublished)
next
  case (Answered r)
  show ?thesis by (rule quiet) (simp add: Answered)
next
  case Panicked
  show ?thesis by (rule quiet) (simp add: Panicked)
qed

text \<open>Only a save begins to hold the lock, and only its tasks hold it.\<close>

lemma finish_not_saving: "finish x \<noteq> (Saving fss r k, s')"
  by (auto simp: finish_def split: prod.splits option.splits)

lemma endpoint_start_not_saving: "endpoint_start api env e s \<noteq> (Saving fss r k, s')"
  by (cases e) (auto simp: endpoint_start_def mutate_ready_def finish_not_saving split: sum.splits prod.splits)

lemma after_saving_released: "\<not> holds_lock (after_saving r k)"
  by (auto simp: after_saving_def split: sum.splits option.splits after_save.splits)

lemma begin_save_Saving:
  assumes "begin_save c env g k s = (Saving fss r k', s')" "keeps_table g"
  shows "s' = s \<and> (\<exists>g. keeps_table g \<and> save_start c env (\<lambda>p. ret (g p)) s = Some (r, pr_fs s # fss))"
proof -
  have "s' = s \<and> save_start c env (\<lambda>p. ret (g p)) s = Some (r, pr_fs s # fss)"
    using assms(1) save_start_trace [of c env "\<lambda>p. ret (g p)" s r]
    by (auto simp: begin_save_def split: option.splits prod.splits)
  then show ?thesis using assms(2) by blast
qed

lemmas begins = begin_save_Saving [OF _ updates_keep_table(1)] begin_save_Saving [OF _ updates_keep_table(2)]
  begin_save_Saving [OF _ updates_keep_table(3)] begin_save_Saving [OF _ updates_keep_table(4)]
  begin_save_Saving [OF _ updates_keep_table(5)] begin_save_Saving [OF _ updates_keep_table(6)]

lemma task_step_begins:
  assumes step: "task_step api argon tokens env t s = (Saving fss r k, s')" and t: "\<not> holds_lock t"
  shows "wants_lock t \<and> s' = s
    \<and> (\<exists>g. keeps_table g \<and> save_start (api_codec api) env (\<lambda>p. ret (g p)) s = Some (r, pr_fs s # fss))"
proof (cases t)
  case (Arrived rq)
  then show ?thesis using step
    by (cases "authorised (api_nets api) argon tokens rq") (simp_all add: router_authorised router_refused)
next
  case (Admitted e)
  show ?thesis using step unfolding Admitted task_step.simps by (rule notE [OF endpoint_start_not_saving])
qed (use step t in \<open>auto dest!: begins split: option.splits prod.splits\<close>)

lemma task_step_lock:
  assumes "holds_lock (fst (task_step api argon tokens env t s))"
  shows "wants_lock t \<or> holds_lock t"
proof -
  obtain fss r k where "fst (task_step api argon tokens env t s) = Saving fss r k"
    using assms by (cases "fst (task_step api argon tokens env t s)") auto
  then show ?thesis using task_step_begins [of api argon tokens env t s fss r k] by (metis prod.collapse)
qed

text \<open>Only the rebuild compiles a filter, from the policies at that moment.\<close>

lemma finish_not_compiled:
  "finish x \<noteq> (DomainCompiled f, s')" "finish x \<noteq> (EgressCompiled g, s')"
  by (auto simp: finish_def split: prod.splits option.splits)

lemma endpoint_start_not_compiled:
  "endpoint_start api env e s \<noteq> (DomainCompiled f, s')" "endpoint_start api env e s \<noteq> (EgressCompiled g, s')"
  by (cases e; auto simp: endpoint_start_def mutate_ready_def finish_not_compiled
      split: sum.splits prod.splits option.splits)+

lemma router_not_compiled:
  "router Answered ops argon tokens rq (\<lambda>s. (Admitted e, s)) s \<noteq> (DomainCompiled f, s')"
  "router Answered ops argon tokens rq (\<lambda>s. (Admitted e, s)) s \<noteq> (EgressCompiled g, s')"
  by (cases "authorised ops argon tokens rq"; simp add: router_authorised router_refused)+

lemma save_not_compiled:
  "begin_save c env u k s \<noteq> (DomainCompiled f, s')" "begin_save c env u k s \<noteq> (EgressCompiled g, s')"
  "after_saving r k \<noteq> DomainCompiled f" "after_saving r k \<noteq> EgressCompiled g"
  by (auto simp: begin_save_def after_saving_def split: option.splits sum.splits after_save.splits)

lemma saving_step:
  "task_step api argon tokens env (Saving fss r k) s
     = (case fss of [] \<Rightarrow> (after_saving r k, publish r s) | f # fss' \<Rightarrow> (Saving fss' r k, s\<lparr>pr_fs := f\<rparr>))"
  by (cases fss) simp_all

lemmas not_compiled = finish_not_compiled endpoint_start_not_compiled router_not_compiled save_not_compiled saving_step

lemma step_compiles_domain:
  assumes "task_step api argon tokens env t s = (DomainCompiled f, s')"
  shows "s' = s \<and> (\<exists>ba bd. ap_domain_base s = Some (ba, bd)
    \<and> f = fst (build_domain_filter ba bd (pol_domain_acl (pr_policies s))))"
  using assms by (cases t) (auto simp: not_compiled split: option.splits list.splits)

lemma step_compiles_egress:
  assumes "task_step api argon tokens env t s = (EgressCompiled f, s')"
  shows "s' = s \<and> (\<exists>ba bd bad. ap_egress_base s = Some (ba, bd)
    \<and> build_egress_filter (api_nets api) ba bd (pol_egress_acl (pr_policies s)) = Some (f, bad))"
  using assms by (cases t) (auto simp: not_compiled split: option.splits list.splits)

end
