(* ===== verification/AclPolicy.thy ===== *)
theory AclPolicy
  imports AclService
begin

text \<open>
  What the policy says: the model-B decision over configuration base and persisted overlay, of a name
  and of an address. A live filter decides exactly this; no policy allows loopback or the unspecified
  address.
\<close>

text \<open>What the configuration base and the persisted overlay say of a name and of an address.\<close>

definition domain_policy_allows :: "('net, 'a) app_scheme \<Rightarrow> string \<Rightarrow> bool" where
  "domain_policy_allows s host \<longleftrightarrow>
     model_b rule_specificity rule_matches
       (parsed_rules (effective_allow (pol_domain_acl (pr_policies s)) (fst (domain_base s))))
       (parsed_rules (effective_deny (pol_domain_acl (pr_policies s)) (snd (domain_base s))))
       (normalize_name host)"

definition egress_policy_allows :: "'net ipnet_ops \<Rightarrow> ('net, 'a) app_scheme \<Rightarrow> ip_addr \<Rightarrow> bool" where
  "egress_policy_allows ops s ip \<longleftrightarrow>
     model_b (net_prefix_len ops) (net_contains ops)
       (parsed_nets ops (effective_allow (pol_egress_acl (pr_policies s)) (fst (egress_base s))))
       (parsed_nets ops (effective_deny (pol_egress_acl (pr_policies s)) (snd (egress_base s)) @ builtin_texts)) ip"

lemma live_domain_allows:
  assumes "live_domain s" "length host \<le> 65535"
  shows "host_allowed (ap_domain_filter s) host \<longleftrightarrow> domain_policy_allows s host"
proof -
  obtain ba bd where b: "ap_domain_base s = Some (ba, bd)"
    "ap_domain_filter s = fst (build_domain_filter ba bd (pol_domain_acl (pr_policies s)))"
    using assms(1) by (auto simp: live_domain_def)
  show ?thesis
    using domain_filter_build_Inr [OF build_domain_filter_Inr [of "pol_domain_acl (pr_policies s)" ba bd]] assms(2)
    by (simp add: domain_policy_allows_def domain_base_def b host_allowed_model_b filter_valid_rules_fst
        parsed_rules_filter)
qed

lemma live_egress_allows:
  assumes "ipnet_laws ops" "live_egress ops s"
  shows "egress_allowed ops (ap_egress_filter s) ip \<longleftrightarrow> egress_policy_allows ops s ip"
proof -
  obtain ba bd bad where b: "ap_egress_base s = Some (ba, bd)"
    "build_egress_filter ops ba bd (pol_egress_acl (pr_policies s)) = Some (ap_egress_filter s, bad)"
    using assms(2) by (auto simp: live_egress_def)
  obtain f where f: "rebuild_egress_filter ops s = Some (s\<lparr>ap_egress_filter := f\<rparr>)"
    "\<forall>ip. egress_allowed ops f ip \<longleftrightarrow>
       model_b (net_prefix_len ops) (net_contains ops)
         (parsed_nets ops (effective_allow (pol_egress_acl (pr_policies s)) ba))
         (parsed_nets ops (effective_deny (pol_egress_acl (pr_policies s)) bd @ builtin_texts)) ip"
    by (rule rebuild_egress_total [OF assms(1) b(1)])
  have "s\<lparr>ap_egress_filter := f\<rparr> = s\<lparr>ap_egress_filter := ap_egress_filter s\<rparr>"
    using f(1) b by (simp add: rebuild_egress_filter_def)
  then have "f = ap_egress_filter s" by (metis app.select_convs(4) app.surjective app.update_convs(4))
  then show ?thesis using f(2) by (simp add: egress_policy_allows_def egress_base_def b(1))
qed

lemma builtin_parsed:
  assumes "ipnet_laws ops" "(t, a, n) \<in> set builtin_table"
  shows "\<exists>net. parse_net ops t = Inr net \<and> net_denotes ops net a n"
proof -
  have "t \<in> set builtin_texts" using assms(2) by (force simp: builtin_texts_table)
  then have "contains_char (CHR ''/'') t" by (rule builtin_texts_slash)
  then show ?thesis using assms by (fastforce simp: ipnet_laws_def parse_net_def)
qed

text \<open>Loopback and the unspecified address are denied by a host route, which no entry outranks.\<close>

lemma policy_never_local:
  assumes laws: "ipnet_laws ops" and allows: "egress_policy_allows ops s ip"
  shows "ip \<noteq> IpV6 0 \<and> ip \<noteq> IpV6 1"
proof -
  have "ip \<noteq> IpV6 a" if t: "(t, a, 128) \<in> set builtin_table" for t a
  proof
    assume ip: "ip = IpV6 a"
    obtain q where q: "parse_net ops t = Inr q" "net_denotes ops q a 128"
      using builtin_parsed [OF laws t] by blast
    have "t \<in> set builtin_texts" using t by (force simp: builtin_texts_table)
    then have "q \<in> parsed_nets ops (effective_deny (pol_egress_acl (pr_policies s)) (snd (egress_base s)) @ builtin_texts)"
      using q(1) by (auto simp: parsed_nets_def)
    moreover have "net_contains ops q ip" using q(2) by (simp add: net_denotes_def in_cidr6_def ip)
    moreover have "\<not> net_prefix_len ops q < net_prefix_len ops r" for r
      using q(2) laws by (simp add: net_denotes_def ipnet_laws_def not_less)
    ultimately show False using allows unfolding egress_policy_allows_def model_b_def by blast
  qed
  moreover have "(''::1/128'', 1, 128) \<in> set builtin_table" "(''::/128'', 0, 128) \<in> set builtin_table"
    by (simp_all add: builtin_table_def)
  ultimately show ?thesis by blast
qed

end
