(* ===== verification/ApiRuns.thy ===== *)
theory ApiRuns
  imports ApiTasks AclPolicy
begin

text \<open>
  What every interleaving of requests keeps. The runs are those of any system in which the tasks of
  the admin API take steps beside others that publish nothing (a locale, interpreted here for the
  admin API by itself and later for the whole process): the state file has the live policies, or those
  that the holder of the write lock is about to store;
  every published filter was compiled from a policy that was live at some moment of the run; and
  nothing but an authorised request changes the policies.
\<close>

section \<open>Moments of a run\<close>

definition once :: "('st \<Rightarrow> 'st \<Rightarrow> bool) \<Rightarrow> 'st \<Rightarrow> 'st \<Rightarrow> ('st \<Rightarrow> bool) \<Rightarrow> bool" where
  "once R s0 s P \<longleftrightarrow> (\<exists>s1. R\<^sup>*\<^sup>* s0 s1 \<and> R\<^sup>*\<^sup>* s1 s \<and> P s1)"

lemma once_now: "R\<^sup>*\<^sup>* s0 s \<Longrightarrow> P s \<Longrightarrow> once R s0 s P"
  by (auto simp: once_def)

lemma once_later: "once R s0 s P \<Longrightarrow> R\<^sup>*\<^sup>* s s' \<Longrightarrow> once R s0 s' P"
  unfolding once_def by (meson rtranclp_trans)

lemma once_mono: "once R s0 s P \<Longrightarrow> (\<And>x. P x \<Longrightarrow> Q x) \<Longrightarrow> once R s0 s Q"
  unfolding once_def by blast

section \<open>Durability\<close>

text \<open>What a restart of the process would read from the state file.\<close>

definition restart_reads :: "codec \<Rightarrow> ('net, 'a) app_scheme \<Rightarrow> policies \<Rightarrow> bool" where
  "restart_reads c s p \<longleftrightarrow>
     (\<exists>path. pr_state_path s = Some path \<and> (\<forall>now. load_policies c now True path (pr_fs s) = Inr p))"

text \<open>A restart would find the live policies: they are what the state file holds.\<close>

definition durable :: "codec \<Rightarrow> ('net, 'a) app_scheme \<Rightarrow> bool" where
  "durable c s \<longleftrightarrow> finite (dom (pol_bindings (pr_policies s))) \<and> restart_reads c s (pr_policies s)"

text \<open>While a save is under way: every file system that is still to come holds the live policies or the
  new ones, the last of them what the outcome says.\<close>

definition saving_ok :: "codec \<Rightarrow> ('net, 'a) app_scheme \<Rightarrow> fs list \<Rightarrow> save_error + policies \<Rightarrow> bool" where
  "saving_ok c s fss r \<longleftrightarrow>
     finite (dom (pol_bindings (pr_policies s)))
     \<and> (\<forall>f \<in> set (pr_fs s # fss). restart_reads c (s\<lparr>pr_fs := f\<rparr>) (pr_policies s)
          \<or> (\<exists>p. r = Inr p \<and> restart_reads c (s\<lparr>pr_fs := f\<rparr>) p))
     \<and> (case r of
          Inl e \<Rightarrow> restart_reads c (s\<lparr>pr_fs := last (pr_fs s # fss)\<rparr>) (pr_policies s)
        | Inr p \<Rightarrow> finite (dom (pol_bindings p)) \<and> restart_reads c (s\<lparr>pr_fs := last (pr_fs s # fss)\<rparr>) p)"

text \<open>At most one task holds the write lock; the file is in step with the tasks.\<close>

definition files_ok :: "codec \<Rightarrow> ('net, 'a) app_scheme \<Rightarrow> 'net task list \<Rightarrow> bool" where
  "files_ok c s ts \<longleftrightarrow>
     (case filter holds_lock ts of
        [] \<Rightarrow> durable c s
      | [t] \<Rightarrow> (case t of Saving fss r k \<Rightarrow> saving_ok c s fss r | _ \<Rightarrow> False)
      | _ \<Rightarrow> False)"

lemma files_frame:
  assumes "pr_policies s' = pr_policies s" "pr_state_path s' = pr_state_path s" "pr_fs s' = pr_fs s"
  shows "files_ok c s' ts = files_ok c s ts"
  using assms by (simp add: files_ok_def durable_def saving_ok_def restart_reads_def split: list.split task.split sum.split)

lemma restart_reads_read: "fs_read f path = fs_read (pr_fs s) path \<Longrightarrow> pr_state_path s = Some path \<Longrightarrow>
    restart_reads c (s\<lparr>pr_fs := f\<rparr>) p = restart_reads c s p"
  by (simp add: restart_reads_def load_policies_def)

text \<open>The lock is taken on a durable state.\<close>

lemma save_start_ok:
  assumes c: "codec_laws c" and env: "env_ok env" and dur: "durable c s" and g: "keeps_table g"
    and start: "save_start c env (\<lambda>p. ret (g p)) s = Some (r, pr_fs s # fss)"
  shows "saving_ok c s fss r"
proof -
  let ?p = "(g (pr_policies s))\<lparr>pol_version := pol_version (g (pr_policies s)) + 1, pol_updated_at := env_now env\<rparr>"
  obtain path u where path: "pr_state_path s = Some path"
    and save: "save_policies c env path ?p (pr_fs s) = (u, pr_fs s # fss)"
    and r: "r = (case u of Inl e \<Rightarrow> Inl e | Inr x \<Rightarrow> Inr ?p)"
    using start by (auto simp: save_start_def state_path_def Let_def split: option.splits prod.splits)
  have fin: "finite (dom (pol_bindings (pr_policies s)))" and live: "restart_reads c s (pr_policies s)"
    using dur by (simp_all add: durable_def)
  have fin': "finite (dom (pol_bindings ?p))" using g fin by (simp add: keeps_table_def)
  then have "enumerates (env_entries env (pol_bindings ?p)) (pol_bindings ?p)" using env by (simp add: env_ok_def)
  then have "policies_of_text c (policies_text c (env_entries env (pol_bindings ?p)) ?p) = Some ?p"
    using policies_json [OF c] c by (simp add: policies_of_text_def policies_text_def codec_laws_def enumerates_def)
  then have new: "fs_read f path = Some (policies_text c (env_entries env (pol_bindings ?p)) ?p) \<Longrightarrow>
      restart_reads c (s\<lparr>pr_fs := f\<rparr>) ?p" for f
    using path by (simp add: restart_reads_def load_policies_def)
  have old: "fs_read f path = fs_read (pr_fs s) path \<Longrightarrow> restart_reads c (s\<lparr>pr_fs := f\<rparr>) (pr_policies s)" for f
    using restart_reads_read [OF _ path] live by blast
  have on_way: "restart_reads c (s\<lparr>pr_fs := f\<rparr>) (pr_policies s) \<or> (\<exists>p. r = Inr p \<and> restart_reads c (s\<lparr>pr_fs := f\<rparr>) p)"
    if "f \<in> set (pr_fs s # fss)" for f
    using save_policies_trace [OF save that] old new r by auto
  show ?thesis
  proof (cases u)
    case (Inl e)
    then have "fs_read (last (pr_fs s # fss)) path = fs_read (pr_fs s) path"
      using save_policies_Inl [of c env path ?p "pr_fs s" e] save by (simp add: fs_read_def)
    then show ?thesis using on_way fin old Inl r unfolding saving_ok_def by simp
  next
    case (Inr x)
    then have "fs_read (last (pr_fs s # fss)) path = Some (policies_text c (env_entries env (pol_bindings ?p)) ?p)"
      using save_policies_Inr [of c env path ?p "pr_fs s" x] save by (simp add: fs_read_def)
    then show ?thesis using on_way fin fin' new Inr r unfolding saving_ok_def by simp
  qed
qed

lemma saving_step_ok: "saving_ok c s (f # fss) r \<Longrightarrow> saving_ok c (s\<lparr>pr_fs := f\<rparr>) fss r"
  by (auto simp: saving_ok_def restart_reads_def split: sum.splits)

lemma saving_ends_ok: "saving_ok c s [] r \<Longrightarrow> durable c (publish r s)"
  by (auto simp: saving_ok_def durable_def publish_def restart_reads_def split: sum.splits)

text \<open>Any step of any task, taken under the rule of the lock.\<close>

lemma filter_update:
  assumes "i < length ts"
  shows "filter P (ts[i := t]) = filter P (take i ts) @ filter P [t] @ filter P (drop (Suc i) ts)"
    "filter P ts = filter P (take i ts) @ filter P [ts ! i] @ filter P (drop (Suc i) ts)"
proof -
  show "filter P (ts[i := t]) = filter P (take i ts) @ filter P [t] @ filter P (drop (Suc i) ts)"
    using assms by (simp add: upd_conv_take_nth_drop)
  have "filter P ts = filter P (take i ts @ ts ! i # drop (Suc i) ts)"
    by (simp only: id_take_nth_drop [OF assms, symmetric])
  then show "filter P ts = filter P (take i ts) @ filter P [ts ! i] @ filter P (drop (Suc i) ts)"
    by (simp only: filter_append filter.simps) simp
qed

lemma task_step_files:
  assumes c: "codec_laws (api_codec api)" and env: "env_ok env" and ok: "files_ok (api_codec api) s ts"
    and i: "i < length ts" and lock: "lock_free (ts ! i) ts"
    and step: "task_step api argon tokens env (ts ! i) s = (t, s')"
  shows "files_ok (api_codec api) s' (ts[i := t])"
proof -
  note parts = filter_update [OF i, of holds_lock]
  show ?thesis
  proof (cases "holds_lock (ts ! i)")
    case True
    then obtain fss r k where saving: "ts ! i = Saving fss r k" by (cases "ts ! i") auto
    have alone: "filter holds_lock (take i ts) = []" "filter holds_lock (drop (Suc i) ts) = []"
      and sok: "saving_ok (api_codec api) s fss r"
      using ok unfolding files_ok_def parts(2) saving
      by (cases "filter holds_lock (take i ts)"; cases "filter holds_lock (drop (Suc i) ts)"; auto split: list.splits)+
    show ?thesis
    proof (cases fss)
      case Nil
      then have "\<not> holds_lock t" "s' = publish r s" using step after_saving_released by (auto simp: saving)
      then show ?thesis
        using saving_ends_ok sok Nil unfolding files_ok_def parts(1) alone by simp
    next
      case (Cons f fss')
      then have "t = Saving fss' r k" "s' = s\<lparr>pr_fs := f\<rparr>" using step by (auto simp: saving)
      then show ?thesis
        using saving_step_ok sok Cons unfolding files_ok_def parts(1) alone by simp
    qed
  next
    case False
    show ?thesis
    proof (cases "holds_lock t")
      case True
      then obtain fss r k where saving: "t = Saving fss r k" by (cases t) auto
      from task_step_begins [OF step [unfolded saving] False] obtain g where g: "wants_lock (ts ! i)" "s' = s"
        "keeps_table g" "save_start (api_codec api) env (\<lambda>p. ret (g p)) s = Some (r, pr_fs s # fss)"
        by blast
      have none: "filter holds_lock ts = []" using lock g(1) by (simp add: lock_free_def)
      then have "saving_ok (api_codec api) s fss r"
        using save_start_ok [OF c env _ g(3,4)] ok by (simp add: files_ok_def)
      moreover have "filter holds_lock (ts[i := t]) = [t]"
        using none True unfolding parts by simp
      ultimately show ?thesis by (simp add: files_ok_def saving g(2))
    next
      case out: False
      have same: "filter holds_lock (ts[i := t]) = filter holds_lock ts" unfolding parts using out False by simp
      have "pr_policies s' = pr_policies s \<and> pr_state_path s' = pr_state_path s \<and> pr_fs s' = pr_fs s"
        using step False
        by (cases rule: task_step_effect [of api argon tokens env "ts ! i" s]) (auto simp: stored_def published_def)
      then show ?thesis
        using ok files_frame [of s' s "api_codec api" "ts[i := t]"] same by (simp add: files_ok_def)
    qed
  qed
qed

lemma task_step_more: "app.more (snd (task_step api argon tokens env t s)) = app.more s"
  by (cases rule: task_step_effect [of api argon tokens env t s]) (simp_all add: stored_def)

section \<open>Where the published filters come from\<close>

text \<open>A filter compiled from the bases and the policies of a state.\<close>

definition domain_of :: "domain_filter \<Rightarrow> ('net, 'a) app_scheme \<Rightarrow> bool" where
  "domain_of f s \<longleftrightarrow> live_domain (s\<lparr>ap_domain_filter := f\<rparr>)"

definition egress_of :: "'net ipnet_ops \<Rightarrow> 'net egress_filter \<Rightarrow> ('net, 'a) app_scheme \<Rightarrow> bool" where
  "egress_of ops f s \<longleftrightarrow> live_egress ops (s\<lparr>ap_egress_filter := f\<rparr>)"

lemma domain_of_allows:
  assumes "domain_of f s" "length host \<le> 65535"
  shows "host_allowed f host \<longleftrightarrow> domain_policy_allows s host"
  using live_domain_allows [of "s\<lparr>ap_domain_filter := f\<rparr>" host] assms
  by (simp add: domain_of_def domain_policy_allows_def domain_base_def)

lemma egress_of_allows:
  assumes "ipnet_laws ops" "egress_of ops f s"
  shows "egress_allowed ops f ip \<longleftrightarrow> egress_policy_allows ops s ip"
  using live_egress_allows [of ops "s\<lparr>ap_egress_filter := f\<rparr>" ip] assms
  by (simp add: egress_of_def egress_policy_allows_def egress_base_def)

lemma task_step_domain_filter:
  assumes "task_step api argon tokens env t s = (t', s')"
  shows "ap_domain_filter s' = ap_domain_filter s \<or> t = DomainCompiled (ap_domain_filter s')"
  using assms by (cases rule: task_step_effect [of api argon tokens env t s]) (auto simp: stored_def published_def)

lemma task_step_egress_filter:
  assumes "task_step api argon tokens env t s = (t', s')"
  shows "ap_egress_filter s' = ap_egress_filter s \<or> t = EgressCompiled (ap_egress_filter s')"
  using assms by (cases rule: task_step_effect [of api argon tokens env t s]) (auto simp: stored_def published_def)

text \<open>A system in which tasks of the admin API run: a step is the arrival of requests or the step of
  something else, which publishes nothing, or the step of one task that need not wait for the lock.\<close>

definition task_move ::
  "'net api_world \<Rightarrow> ('net, 'a) app_scheme \<Rightarrow> 'net task list \<Rightarrow> ('net, 'a) app_scheme \<Rightarrow> 'net task list \<Rightarrow> bool" where
  "task_move w s ts s' ts' \<longleftrightarrow>
     (\<exists>i env t s1. i < length ts \<and> env_ok env \<and> lock_free (ts ! i) ts
        \<and> task_step (aw_api w) (aw_argon w) (aw_tokens w) env (ts ! i) s = (t, s1)
        \<and> published s' = published s1 \<and> pr_fs s' = pr_fs s1 \<and> ts' = ts[i := t])"

definition idle_move ::
  "('net, 'a) app_scheme \<Rightarrow> 'net task list \<Rightarrow> ('net, 'a) app_scheme \<Rightarrow> 'net task list \<Rightarrow> bool" where
  "idle_move s ts s' ts' \<longleftrightarrow>
     published s' = published s \<and> pr_fs s' = pr_fs s
     \<and> (\<exists>rqs. ts' = ts @ map Arrived rqs)"

lemma idle_tasks:
  assumes "idle_move s ts s' ts'"
  shows "filter holds_lock ts' = filter holds_lock ts"
    and "u \<in> set ts' \<Longrightarrow> u \<in> set ts \<or> (\<exists>rq. u = Arrived rq)"
  using assms by (auto simp: idle_move_def filter_map comp_def)

locale api_run =
  fixes R :: "'st \<Rightarrow> 'st \<Rightarrow> bool" and statics :: "'st \<Rightarrow> ('net, 'a) app_scheme"
    and tasks :: "'st \<Rightarrow> 'net task list" and w :: "'net api_world"
  assumes moves: "R x y \<Longrightarrow> idle_move (statics x) (tasks x) (statics y) (tasks y)
    \<or> task_move w (statics x) (tasks x) (statics y) (tasks y)"
begin

lemma run_files:
  assumes "R\<^sup>*\<^sup>* x y" "codec_laws (api_codec (aw_api w))" "files_ok (api_codec (aw_api w)) (statics x) (tasks x)"
  shows "files_ok (api_codec (aw_api w)) (statics y) (tasks y)"
  using assms(1)
proof (induction rule: rtranclp_induct)
  case (step y z)
  from moves [OF step.hyps(2)] show ?case
  proof
    assume idle: "idle_move (statics y) (tasks y) (statics z) (tasks z)"
    have "files_ok (api_codec (aw_api w)) (statics z) (tasks y)"
      using files_frame [of "statics z" "statics y"] step.IH idle by (simp add: idle_move_def published_def)
    then show ?thesis using idle_tasks(1) [OF idle] by (simp add: files_ok_def)
  next
    assume "task_move w (statics y) (tasks y) (statics z) (tasks z)"
    then obtain i env t s1 where m: "i < length (tasks y)" "env_ok env" "lock_free (tasks y ! i) (tasks y)"
      "task_step (aw_api w) (aw_argon w) (aw_tokens w) env (tasks y ! i) (statics y) = (t, s1)"
      "published (statics z) = published s1" "pr_fs (statics z) = pr_fs s1" "tasks z = (tasks y)[i := t]"
      by (auto simp: task_move_def)
    have "files_ok (api_codec (aw_api w)) s1 (tasks z)"
      using task_step_files [OF assms(2) m(2) step.IH m(1,3,4)] m(7) by simp
    then show ?thesis using files_frame [of "statics z" s1] m(5,6) by (simp add: published_def)
  qed
qed (rule assms(3))

abbreviation (input) provenance :: "'st \<Rightarrow> 'st \<Rightarrow> bool" where
  "provenance x y \<equiv>
     once R x y (\<lambda>z. domain_of (ap_domain_filter (statics y)) (statics z))
     \<and> once R x y (\<lambda>z. egress_of (api_nets (aw_api w)) (ap_egress_filter (statics y)) (statics z))
     \<and> (\<forall>f. DomainCompiled f \<in> set (tasks y) \<longrightarrow> once R x y (\<lambda>z. domain_of f (statics z)))
     \<and> (\<forall>f. EgressCompiled f \<in> set (tasks y) \<longrightarrow>
          once R x y (\<lambda>z. egress_of (api_nets (aw_api w)) f (statics z)))"

lemma task_move_provenance:
  assumes run: "R\<^sup>*\<^sup>* x y" and prov: "provenance x y" and step: "R y z"
    and move: "task_move w (statics y) (tasks y) (statics z) (tasks z)"
  shows "provenance x z"
proof -
  obtain i env t s1 where m: "i < length (tasks y)" "published (statics z) = published s1"
    "task_step (aw_api w) (aw_argon w) (aw_tokens w) env (tasks y ! i) (statics y) = (t, s1)"
    "tasks z = (tasks y)[i := t]"
    using move by (auto simp: task_move_def)
  have yz: "R\<^sup>*\<^sup>* y z" and xz: "R\<^sup>*\<^sup>* x z" using step run by auto
  note later = once_later [OF _ yz]
  have old: "tasks y ! i \<in> set (tasks y)" using m(1) by simp
  have new: "u \<in> set (tasks z) \<Longrightarrow> u \<in> set (tasks y) \<or> u = t" for u
    using set_update_subset_insert [of "tasks y" i t] m(4) by auto
  have past: "once R x z P" if "P y" for P
    using that run yz unfolding once_def by blast
  have dom: "once R x z (\<lambda>v. domain_of f (statics v))" if "DomainCompiled f \<in> set (tasks z)" for f
  proof (cases "DomainCompiled f \<in> set (tasks y)")
    case False
    then have "t = DomainCompiled f" using new that by blast
    from step_compiles_domain [OF m(3) [unfolded this]] show ?thesis
      by (intro past) (auto simp: domain_of_def live_domain_def)
  qed (use later prov in blast)
  have egr: "once R x z (\<lambda>v. egress_of (api_nets (aw_api w)) f (statics v))" if "EgressCompiled f \<in> set (tasks z)" for f
  proof (cases "EgressCompiled f \<in> set (tasks y)")
    case False
    then have "t = EgressCompiled f" using new that by blast
    from step_compiles_egress [OF m(3) [unfolded this]] show ?thesis
      by (intro past) (auto simp: egress_of_def live_egress_def)
  qed (use later prov in blast)
  have filters: "ap_domain_filter (statics z) = ap_domain_filter s1" "ap_egress_filter (statics z) = ap_egress_filter s1"
    using m(2) by (simp_all add: published_def)
  have "once R x z (\<lambda>v. domain_of (ap_domain_filter (statics z)) (statics v))"
    using task_step_domain_filter [OF m(3)] old prov later unfolding filters by metis
  moreover have "once R x z (\<lambda>v. egress_of (api_nets (aw_api w)) (ap_egress_filter (statics z)) (statics v))"
    using task_step_egress_filter [OF m(3)] old prov later unfolding filters by metis
  ultimately show ?thesis using dom egr by blast
qed

lemma run_provenance:
  assumes "R\<^sup>*\<^sup>* x y" "server_wf (api_nets (aw_api w)) (statics x)" "list_all (\<lambda>t. \<exists>rq. t = Arrived rq) (tasks x)"
  shows "provenance x y"
  using assms(1)
proof (induction rule: rtranclp_induct)
  case base
  have "DomainCompiled f \<notin> set (tasks x)" "EgressCompiled g \<notin> set (tasks x)" for f g
    using assms(3) by (auto simp: list_all_iff)
  then show ?case
    using assms(2) by (auto simp: server_wf_def domain_of_def egress_of_def intro!: once_now)
next
  case (step y z)
  from moves [OF step.hyps(2)] show ?case
  proof
    assume idle: "idle_move (statics y) (tasks y) (statics z) (tasks z)"
    then have same: "ap_domain_filter (statics z) = ap_domain_filter (statics y)"
      "ap_egress_filter (statics z) = ap_egress_filter (statics y)"
      "DomainCompiled f \<in> set (tasks z) \<Longrightarrow> DomainCompiled f \<in> set (tasks y)"
      "EgressCompiled g \<in> set (tasks z) \<Longrightarrow> EgressCompiled g \<in> set (tasks y)" for f g
      using idle_tasks(2) [OF idle] by (auto simp: idle_move_def published_def)
    show ?thesis
      unfolding same(1,2) using step.IH same(3,4) once_later [OF _ r_into_rtranclp [of R, OF step.hyps(2)]]
      by blast
  qed (rule task_move_provenance [OF step.hyps(1) step.IH step.hyps(2)])
qed

text \<open>What a published filter allows, some policy of the run allowed.\<close>

lemma published_allows:
  assumes laws: "ipnet_laws (api_nets (aw_api w))" and run: "R\<^sup>*\<^sup>* x y"
    and start: "server_wf (api_nets (aw_api w)) (statics x)" "list_all (\<lambda>t. \<exists>rq. t = Arrived rq) (tasks x)"
  shows "host_allowed (ap_domain_filter (statics y)) host \<Longrightarrow> length host \<le> 65535 \<Longrightarrow>
      once R x y (\<lambda>z. domain_policy_allows (statics z) host)"
    and "egress_allowed (api_nets (aw_api w)) (ap_egress_filter (statics y)) ip \<Longrightarrow>
      once R x y (\<lambda>z. egress_policy_allows (api_nets (aw_api w)) (statics z) ip)"
  using run_provenance [OF run start] domain_of_allows egress_of_allows [OF laws]
  unfolding once_def by blast+

end

section \<open>Who changes the policies\<close>

text \<open>The points that the handler of an endpoint passes.\<close>

fun stage_of :: "endpoint \<Rightarrow> 'net task \<Rightarrow> bool" where
  "stage_of e (Arrived rq) = (rq_endpoint rq = e)"
| "stage_of e (Admitted e') = (e' = e)"
| "stage_of e (Answered r) = True"
| "stage_of e Panicked = True"
| "stage_of e t = mutating e"

lemma finish_stage: "finish x = (t, s) \<Longrightarrow> stage_of e t"
  by (auto simp: finish_def split: prod.splits option.splits)

lemma mutate_ready_stage:
  "(\<And>canon. stage_of e (ready canon)) \<Longrightarrow> stage_of e (mutate_ready canonicalize rules ready)"
  by (auto simp: mutate_ready_def split: sum.splits prod.splits)

lemma endpoint_start_stage: "endpoint_start api env e s = (t, s') \<Longrightarrow> stage_of e t"
  by (cases e) (auto simp: endpoint_start_def intro: finish_stage mutate_ready_stage split: sum.splits prod.splits)

lemma save_stage:
  "begin_save c env g k s = (t, s') \<Longrightarrow> mutating e \<Longrightarrow> stage_of e t"
  "mutating e \<Longrightarrow> stage_of e (after_saving r k)"
  by (auto simp: begin_save_def after_saving_def split: option.splits prod.splits sum.splits after_save.splits)

lemma task_step_stage:
  assumes "task_step api argon tokens env t s = (t', s')" "stage_of e t"
  shows "stage_of e t'"
proof (cases t)
  case (Arrived rq)
  then show ?thesis using assms
    by (cases "authorised (api_nets api) argon tokens rq") (auto simp: router_authorised router_refused)
next
  case (Admitted e')
  then show ?thesis using assms endpoint_start_stage by auto
qed (use assms save_stage in \<open>auto simp: saving_step split: option.splits list.splits\<close>)

lemma task_step_arrived:
  "task_step api argon tokens env (Arrived rq) s = (t', s') \<Longrightarrow>
     s' = s \<and> (if authorised (api_nets api) argon tokens rq then t' = Admitted (rq_endpoint rq) else \<exists>r. t' = Answered r)"
  by (cases "authorised (api_nets api) argon tokens rq") (auto simp: router_authorised router_refused)

lemma task_step_policies:
  assumes "task_step api argon tokens env t s = (t', s')" "stage_of e t" "pr_policies s' \<noteq> pr_policies s"
  shows "mutating e \<and> (\<forall>rq. t \<noteq> Arrived rq)"
  using assms by (cases rule: task_step_effect [of api argon tokens env t s]) (auto simp: stored_def published_def)

text \<open>A request that arrived in the run, with the right to change the policies.\<close>

context api_run
begin

definition entitled :: "'st \<Rightarrow> 'st \<Rightarrow> request \<Rightarrow> bool" where
  "entitled x y rq \<longleftrightarrow>
     once R x y (\<lambda>z. Arrived rq \<in> set (tasks z))
     \<and> authorised (api_nets (aw_api w)) (aw_argon w) (aw_tokens w) rq"

lemma entitled_later: "entitled x y rq \<Longrightarrow> R y z \<Longrightarrow> entitled x z rq"
  unfolding entitled_def using once_later by (metis r_into_rtranclp)

abbreviation (input) vetted :: "'st \<Rightarrow> 'st \<Rightarrow> bool" where
  "vetted x y \<equiv>
     (\<forall>t \<in> set (tasks y). (\<exists>rq. t = Arrived rq) \<or> (\<exists>r. t = Answered r)
        \<or> (\<exists>rq. entitled x y rq \<and> stage_of (rq_endpoint rq) t))
     \<and> (pr_policies (statics y) \<noteq> pr_policies (statics x) \<longrightarrow>
          (\<exists>rq. entitled x y rq \<and> mutating (rq_endpoint rq)))"

lemma task_move_vetted:
  assumes run: "R\<^sup>*\<^sup>* x y" and vet: "vetted x y" and step: "R y z"
    and move: "task_move w (statics y) (tasks y) (statics z) (tasks z)"
  shows "vetted x z"
proof -
  obtain i env t s1 where m: "i < length (tasks y)" "published (statics z) = published s1"
    "task_step (aw_api w) (aw_argon w) (aw_tokens w) env (tasks y ! i) (statics y) = (t, s1)"
    "tasks z = (tasks y)[i := t]"
    using move by (auto simp: task_move_def)
  have old: "tasks y ! i \<in> set (tasks y)" using m(1) by simp
  have new: "u \<in> set (tasks z) \<Longrightarrow> u \<in> set (tasks y) \<or> u = t" for u
    using set_update_subset_insert [of "tasks y" i t] m(4) by auto
  have same: "pr_policies (statics z) = pr_policies s1" using m(2) by (simp add: published_def)
  have new_task: "((\<exists>r. t = Answered r) \<or> (\<exists>rq. entitled x z rq \<and> stage_of (rq_endpoint rq) t))
    \<and> (pr_policies s1 \<noteq> pr_policies (statics y) \<longrightarrow> (\<exists>rq. entitled x z rq \<and> mutating (rq_endpoint rq)))"
  proof -
    consider (a) rq where "tasks y ! i = Arrived rq" | (r) r where "tasks y ! i = Answered r"
      | (o) rq where "entitled x y rq" "stage_of (rq_endpoint rq) (tasks y ! i)"
      using vet old by blast
    then show ?thesis
    proof cases
      case a
      have "once R x z (\<lambda>v. Arrived rq \<in> set (tasks v))"
        unfolding once_def using run step old a by (metis r_into_rtranclp)
      then show ?thesis
        using task_step_arrived [OF m(3) [unfolded a]] by (auto simp: entitled_def split: if_splits)
    next
      case r
      show ?thesis using m(3) [unfolded r] by auto
    next
      case o
      then show ?thesis
        using task_step_stage [OF m(3) o(2)] task_step_policies [OF m(3) o(2)] entitled_later [OF o(1) step]
        by blast
    qed
  qed
  then show ?thesis using vet new entitled_later [OF _ step] unfolding same by metis
qed

lemma run_vetted:
  assumes "R\<^sup>*\<^sup>* x y" "list_all (\<lambda>t. \<exists>rq. t = Arrived rq) (tasks x)"
  shows "vetted x y"
  using assms(1)
proof (induction rule: rtranclp_induct)
  case base
  then show ?case using assms(2) by (auto simp: list_all_iff)
next
  case (step y z)
  from moves [OF step.hyps(2)] show ?case
  proof
    assume idle: "idle_move (statics y) (tasks y) (statics z) (tasks z)"
    have "pr_policies (statics z) = pr_policies (statics y)" using idle by (simp add: idle_move_def published_def)
    moreover have "\<And>t. t \<in> set (tasks z) \<Longrightarrow> t \<in> set (tasks y) \<or> (\<exists>rq. t = Arrived rq)"
      using idle_tasks(2) [OF idle] by blast
    ultimately show ?thesis using step.IH entitled_later [OF _ step.hyps(2)] by metis
  qed (rule task_move_vetted [OF step.hyps(1) step.IH step.hyps(2)])
qed

lemma change_entitled:
  assumes "R\<^sup>*\<^sup>* x y" "list_all (\<lambda>t. \<exists>rq. t = Arrived rq) (tasks x)"
    and "pr_policies (statics y) \<noteq> pr_policies (statics x)"
  shows "\<exists>rq. once R x y (\<lambda>z. Arrived rq \<in> set (tasks z)) \<and> mutating (rq_endpoint rq)
    \<and> authorised (api_nets (aw_api w)) (aw_argon w) (aw_tokens w) rq"
  using run_vetted [OF assms(1,2)] assms(3) by (auto simp: entitled_def)

end

section \<open>The admin API by itself\<close>

lemma api_step_move: "api_step w x y \<Longrightarrow> task_move w (fst x) (snd x) (fst y) (snd y)"
  by (cases x, cases y) (auto simp: task_move_def elim!: api_stepE)

interpretation api_alone: api_run "api_step w" fst snd w for w
  by unfold_locales (simp add: api_step_move)

lemma task_step_not_arrived: "task_step api argon tokens env t s \<noteq> (Arrived rq, s')"
proof (cases t)
  case (Arrived rq')
  then show ?thesis
    by (cases "authorised (api_nets api) argon tokens rq'") (auto simp: router_authorised router_refused)
next
  case (Admitted e)
  then show ?thesis
    by (cases e) (auto simp: endpoint_start_def mutate_ready_def finish_def split: sum.splits prod.splits option.splits)
qed (auto simp: begin_save_def after_saving_def saving_step split: option.splits prod.splits sum.splits list.splits after_save.splits)

lemma arrived_before: "api_steps w x y \<Longrightarrow> Arrived rq \<in> set (snd y) \<Longrightarrow> Arrived rq \<in> set (snd x)"
proof (induction rule: rtranclp_induct)
  case (step y z)
  obtain i env t s1 where m: "task_step (aw_api w) (aw_argon w) (aw_tokens w) env (snd y ! i) (fst y) = (t, s1)"
    "snd z = (snd y)[i := t]"
    using api_step_move [OF step.hyps(2)] by (auto simp: task_move_def)
  have "t \<noteq> Arrived rq" using m(1) task_step_not_arrived by metis
  then have "Arrived rq \<in> set (snd y)"
    using step.prems set_update_subset_insert [of "snd y" i t] m(2) by auto
  then show ?case using step.IH by blast
qed simp

section \<open>Example runs\<close>

definition sorted_entries :: "(ip_addr \<Rightarrow> binding option) \<Rightarrow> (ip_addr \<times> binding) list" where
  "sorted_entries m = map (\<lambda>k. (k, the (m k))) (sorted_list_of_set (dom m))"

lemma sorted_entries_enumerates: "finite (dom m) \<Longrightarrow> enumerates (sorted_entries m) m"
proof -
  assume fin: "finite (dom m)"
  have "map fst (sorted_entries m) = sorted_list_of_set (dom m)"
    by (simp add: sorted_entries_def comp_def)
  moreover have "map_of (sorted_entries m) = m"
  proof
    fix k
    show "map_of (sorted_entries m) k = m k"
      using fin by (cases "m k") (auto simp: sorted_entries_def map_of_map_keys map_of_eq_None_iff)
  qed
  ultimately show ?thesis by (simp add: enumerates_def)
qed

definition run_env :: env where
  "run_env = example_env\<lparr>env_entries := sorted_entries\<rparr>"

lemma run_env_ok: "env_ok run_env"
  by (simp add: env_ok_def run_env_def sorted_entries_enumerates)

text \<open>A save with this environment succeeds.\<close>

lemma run_env_save: "\<exists>tr. save_policies c run_env path p fs = (Inr (), tr)"
  by (simp add: save_policies_def run_env_def example_env_def Let_def)

text \<open>A world in which every address may use the API and every token is right.\<close>

definition api_example :: "(ip_addr \<times> u8) api_world" where
  "api_example =
     \<lparr>aw_api = example_api, aw_argon = \<lparr>pw_hash_ok = (\<lambda>h. True), pw_verify = (\<lambda>t h. Verified)\<rparr>,
      aw_tokens = \<lparr>tk_admin_token_hash = [], tk_admin_allowlist = [(IpV6 1, 128)]\<rparr>\<rparr>"

definition example_request :: "endpoint \<Rightarrow> request" where
  "example_request e = \<lparr>rq_peer = IpV6 1, rq_authorization = Some ''Bearer x'', rq_endpoint = e\<rparr>"

lemma api_example_simps [simp]:
  "aw_api api_example = example_api" "rq_endpoint (example_request e) = e"
  by (simp_all add: api_example_def example_request_def)

lemma example_request_authorised:
  "authorised plain_ops (aw_argon api_example) (aw_tokens api_example) (example_request e)"
  by (simp add: authorised_def api_example_def example_request_def plain_ops_def in_cidr6_def)

abbreviation (input) example_step ::
  "(ip_addr \<times> u8) task \<Rightarrow> (ip_addr \<times> u8) app \<Rightarrow> (ip_addr \<times> u8) task \<times> (ip_addr \<times> u8) app" where
  "example_step t s \<equiv> task_step example_api (aw_argon api_example) (aw_tokens api_example) run_env t s"

lemma free_of_lock [simp]: "\<not> wants_lock t \<Longrightarrow> lock_free t ts"
  by (simp add: lock_free_def)

lemma next_step:
  "api_steps api_example st (s, ts) \<Longrightarrow> example_step (ts ! i) s = (t, s') \<Longrightarrow> i < length ts \<Longrightarrow> lock_free (ts ! i) ts
     \<Longrightarrow> api_steps api_example st (s', ts[i := t])"
  by (erule rtranclp.rtrancl_into_rtrancl, rule step [OF _ run_env_ok]) simp_all

text \<open>A save in the example world, from the lock to the store.\<close>

lemma saving_written:
  fixes s :: "(ip_addr \<times> u8) app"
  shows "api_steps api_example st (s, ts) \<Longrightarrow> i < length ts \<Longrightarrow> ts ! i = Saving fss r k
     \<Longrightarrow> api_steps api_example st (s\<lparr>pr_fs := last (pr_fs s # fss)\<rparr>, ts[i := Saving [] r k])"
proof (induction fss arbitrary: s ts)
  case Nil
  then have "ts[i := Saving [] r k] = ts" by (metis list_update_id)
  then show ?case using Nil by simp
next
  case (Cons f fss)
  have "api_steps api_example st (s\<lparr>pr_fs := f\<rparr>, ts[i := Saving fss r k])"
    using next_step [OF Cons.prems(1), of i] Cons.prems by simp
  from Cons.IH [OF this] Cons.prems show ?case by (simp split: if_splits)
qed

lemma save_begun:
  assumes run: "api_steps api_example st (s, ts)" and i: "i < length ts" "filter holds_lock ts = []"
    and step: "example_step (ts ! i) s = begin_save plain_codec run_env g k s" and path: "pr_state_path s = Some path"
  obtains x p where
    "api_steps api_example st (s\<lparr>pr_fs := x\<rparr>, ts[i := Saving [] (Inr p) k])"
    "pol_version p = pol_version (g (pr_policies s)) + 1"
    "pol_bindings p = pol_bindings (g (pr_policies s))" "pol_domain_acl p = pol_domain_acl (g (pr_policies s))"
proof -
  let ?p = "(g (pr_policies s))\<lparr>pol_version := pol_version (g (pr_policies s)) + 1, pol_updated_at := env_now run_env\<rparr>"
  obtain tr where "save_policies plain_codec run_env path ?p (pr_fs s) = (Inr (), tr)" using run_env_save by blast
  then have "begin_save plain_codec run_env g k s = (Saving (tl tr) (Inr ?p) k, s)"
    using path by (simp add: begin_save_def save_start_def state_path_def Let_def)
  then have "api_steps api_example st (s, ts[i := Saving (tl tr) (Inr ?p) k])"
    using next_step [OF run, of i] step i by (simp add: lock_free_def)
  from saving_written [OF this, of i] i(1)
  have "api_steps api_example st (s\<lparr>pr_fs := last (pr_fs s # tl tr)\<rparr>, ts[i := Saving [] (Inr ?p) k])" by simp
  then show ?thesis by (rule that) simp_all
qed

lemma save_run:
  assumes run: "api_steps api_example st (s, ts)" and i: "i < length ts" "filter holds_lock ts = []"
    and step: "example_step (ts ! i) s = begin_save plain_codec run_env g k s" and path: "pr_state_path s = Some path"
  obtains x p where
    "api_steps api_example st (s\<lparr>pr_fs := x, pr_policies := p\<rparr>, ts[i := after_saving (Inr p) k])"
    "pol_bindings p = pol_bindings (g (pr_policies s))" "pol_domain_acl p = pol_domain_acl (g (pr_policies s))"
proof -
  obtain x p where p: "api_steps api_example st (s\<lparr>pr_fs := x\<rparr>, ts[i := Saving [] (Inr p) k])"
    "pol_bindings p = pol_bindings (g (pr_policies s))" "pol_domain_acl p = pol_domain_acl (g (pr_policies s))"
    by (rule save_begun [OF assms])
  have "api_steps api_example st (s\<lparr>pr_fs := x, pr_policies := p\<rparr>, ts[i := after_saving (Inr p) k])"
    using next_step [OF p(1), of i] i(1) by (simp add: publish_def)
  then show ?thesis using that p(2,3) by blast
qed

lemma arrival_step: "example_step (Arrived (example_request e)) s = (Admitted e, s)"
  by (simp add: router_authorised example_request_authorised)

definition race_server :: "(ip_addr \<times> u8) app" where
  "race_server = example_server\<lparr>pr_policies := (pr_policies example_server)
     \<lparr>pol_bindings := [IpV6 1 \<mapsto> \<lparr>bd_policy = SrcIp, bd_seed = 7, bd_updated_at = 0\<rparr>]\<rparr>\<rparr>"

lemma race_server_wf: "server_wf plain_ops race_server"
proof -
  have "server_wf plain_ops (example_server\<lparr>pr_fs := pr_fs example_server,
      pr_policies := pr_policies race_server\<rparr>)"
    using server_wf_frame [of "pr_policies race_server" example_server plain_ops "pr_fs example_server"]
      example_server_wf by (simp add: race_server_def)
  then show ?thesis by (simp add: race_server_def)
qed

lemma race_server_simps [simp]:
  "pr_state_path race_server = Some example_path" "ap_domain_base race_server = Some ([], [])"
  "pol_bindings (pr_policies race_server) (IpV6 1)
     = Some \<lparr>bd_policy = SrcIp, bd_seed = 7, bd_updated_at = 0\<rparr>"
  "pol_domain_acl (pr_policies race_server) = acl_delta_default"
  by (simp_all add: race_server_def example_server_def policies_default_def)

lemma parse_one: "parse_ip_addr ''::1'' = Some (IpV6 1)"
  by (simp add: ip_eval)

text \<open>A delete of a binding, from its arrival to its answer.\<close>

lemma delete_run:
  "\<exists>s' r. api_steps api_example (race_server, [Arrived (example_request (DeleteBinding ''::1''))])
     (s', [Answered r]) \<and> rs_status r = 200 \<and> pr_policies s' \<noteq> pr_policies race_server"
proof -
  let ?start = "(race_server, [Arrived (example_request (DeleteBinding ''::1''))])"
  have check: "check_binding ''::1'' race_server = Inr (IpV6 1)"
    by (simp add: check_binding_def parse_one)
  have 1: "api_steps api_example ?start (race_server, [Admitted (DeleteBinding ''::1'')])"
    using next_step [OF rtranclp.rtrancl_refl, of "snd ?start" 0] arrival_step by simp
  have 2: "api_steps api_example ?start (race_server, [DeleteChecked (IpV6 1)])"
    using next_step [OF 1, of 0] check by (simp add: endpoint_start_def)
  obtain x p where p: "api_steps api_example ?start (race_server\<lparr>pr_fs := x, pr_policies := p\<rparr>,
        [DeleteChecked (IpV6 1)][0 := after_saving (Inr p) (\<lambda>p. Ended (delete_answer p))])"
    "pol_bindings p = pol_bindings (delete_update (IpV6 1) (pr_policies race_server))"
    by (rule save_run [OF 2, of 0 "delete_update (IpV6 1)" "\<lambda>p. Ended (delete_answer p)" example_path]) (simp_all add: api_example_def)
  let ?s = "race_server\<lparr>pr_fs := x, pr_policies := p\<rparr>" and ?r = "respond 200 (StatusBody ''deleted'')"
  have "api_steps api_example ?start (?s, [Answered ?r])"
    using p(1) by (simp add: after_saving_def delete_answer_def)
  moreover have "pr_policies ?s \<noteq> pr_policies race_server"
  proof
    assume "pr_policies ?s = pr_policies race_server"
    then have "p = pr_policies race_server" by simp
    then have "pol_bindings p (IpV6 1) = pol_bindings (pr_policies race_server) (IpV6 1)" by simp
    then show False using p(2) by (simp add: delete_update_def)
  qed
  ultimately show ?thesis by (intro exI [of _ ?s] exI [of _ ?r]) simp
qed

section \<open>Properties\<close>

text \<open>C17: durability under concurrency, from a server whose state file holds the live policies (as after a
  start from an existing file, or after a save), with the laws of the crates that write and read the JSON text:
  whatever requests run at the same time, in whatever
  interleaving and with whatever failures of the file operations, at most one task is within a save;
  while none is, a restart would read the live policies from the state file; while one is, a restart
  would read the live policies or the new ones of that save, and once its file operations are done it
  would read what the task is about to store (or still the live ones, if the save has failed). A moment
  is a point between two steps, also between two file operations of a save, and between the rename and
  the store.\<close>

theorem concurrent_durability:
  assumes "codec_laws (api_codec (aw_api w))" "durable (api_codec (aw_api w)) s"
    and "list_all (\<lambda>t. \<exists>rq. t = Arrived rq) ts" "api_steps w (s, ts) (s', ts')"
  shows "filter holds_lock ts' = [] \<and> restart_reads (api_codec (aw_api w)) s' (pr_policies s')
    \<or> (\<exists>fss r k. filter holds_lock ts' = [Saving fss r k]
        \<and> (restart_reads (api_codec (aw_api w)) s' (pr_policies s')
            \<or> (\<exists>p. r = Inr p \<and> restart_reads (api_codec (aw_api w)) s' p))
        \<and> (fss = [] \<longrightarrow> restart_reads (api_codec (aw_api w)) s' (pr_policies (publish r s'))))"
proof -
  let ?c = "api_codec (aw_api w)"
  have "filter holds_lock ts = []" using assms(3) by (induction ts) auto
  then have "files_ok ?c s ts" using assms(2) by (simp add: files_ok_def)
  then have "files_ok ?c s' ts'" using api_alone.run_files [OF assms(4,1)] by simp
  then consider "filter holds_lock ts' = []" "durable ?c s'"
    | fss r k where "filter holds_lock ts' = [Saving fss r k]" "saving_ok ?c s' fss r"
    by (auto simp: files_ok_def split: list.splits task.splits)
  then show ?thesis
    by cases (auto simp: durable_def saving_ok_def publish_def restart_reads_def split: sum.splits)
qed

definition saved_server :: "(ip_addr \<times> u8) app" where
  "saved_server = snd (apply_and_save plain_codec run_env Some race_server)"

lemma saved_server_parts:
  obtains x where "saved_server = race_server\<lparr>pr_fs := x, pr_policies := pr_policies saved_server\<rparr>"
    "pol_bindings (pr_policies saved_server) (IpV6 1) \<noteq> None"
proof -
  let ?p = "(pr_policies race_server)\<lparr>pol_version := pol_version (pr_policies race_server) + 1,
         pol_updated_at := env_now run_env\<rparr>"
  obtain tr where save: "save_policies plain_codec run_env example_path ?p (pr_fs race_server) = (Inr (), tr)"
    using run_env_save by blast
  have saved: "saved_server = race_server\<lparr>pr_fs := last tr, pr_policies := ?p\<rparr>"
    using save by (simp add: saved_server_def apply_and_save_defs state_path_def Let_def)
  show ?thesis
  proof (rule that)
    show "saved_server = race_server\<lparr>pr_fs := last tr, pr_policies := pr_policies saved_server\<rparr>"
      unfolding saved by simp
    show "pol_bindings (pr_policies saved_server) (IpV6 1) \<noteq> None" unfolding saved by simp
  qed
qed

lemma saved_server_durable: "durable plain_codec saved_server"
proof -
  let ?p = "(pr_policies race_server)\<lparr>pol_version := pol_version (pr_policies race_server) + 1,
         pol_updated_at := env_now run_env\<rparr>"
  obtain tr where save: "save_policies plain_codec run_env example_path ?p (pr_fs race_server) = (Inr (), tr)"
    using run_env_save by blast
  have saved: "saved_server = race_server\<lparr>pr_fs := last tr, pr_policies := ?p\<rparr>"
    using save by (simp add: saved_server_def apply_and_save_defs state_path_def Let_def)
  have fin: "finite (dom (pol_bindings ?p))"
    by (simp add: race_server_def)
  then have "enumerates (env_entries run_env (pol_bindings ?p)) (pol_bindings ?p)"
    using run_env_ok by (simp add: env_ok_def)
  from load_after_save [OF plain_codec_laws this save] fin
  show ?thesis by (simp add: durable_def restart_reads_def saved)
qed

theorem concurrent_durability_witness:
  "\<exists>s' p. api_steps api_example (saved_server, [Arrived (example_request (DeleteBinding ''::1''))])
       (s', [Saving [] (Inr p) (\<lambda>p. Ended (delete_answer p))])
     \<and> restart_reads plain_codec s' p \<and> pol_bindings p (IpV6 1) = None
     \<and> pol_bindings (pr_policies s') (IpV6 1) \<noteq> None"
proof -
  let ?start = "(saved_server, [Arrived (example_request (DeleteBinding ''::1''))])"
  obtain x where saved: "saved_server = race_server\<lparr>pr_fs := x, pr_policies := pr_policies saved_server\<rparr>"
    "pol_bindings (pr_policies saved_server) (IpV6 1) \<noteq> None" by (rule saved_server_parts)
  have path: "pr_state_path saved_server = Some example_path" by (subst saved(1)) simp
  have 1: "api_steps api_example ?start (saved_server, [Admitted (DeleteBinding ''::1'')])"
    using next_step [OF rtranclp.rtrancl_refl, of "snd ?start" 0] arrival_step by simp
  have "check_binding ''::1'' saved_server = Inr (IpV6 1)"
    using saved(2) by (simp add: check_binding_def parse_one split: option.splits)
  then have 2: "api_steps api_example ?start (saved_server, [DeleteChecked (IpV6 1)])"
    using next_step [OF 1, of 0] by (simp add: endpoint_start_def)
  obtain y p where p: "api_steps api_example ?start (saved_server\<lparr>pr_fs := y\<rparr>,
        [DeleteChecked (IpV6 1)][0 := Saving [] (Inr p) (\<lambda>p. Ended (delete_answer p))])"
    "pol_bindings p = pol_bindings (delete_update (IpV6 1) (pr_policies saved_server))"
    by (rule save_begun [OF 2, of 0 "delete_update (IpV6 1)" "\<lambda>p. Ended (delete_answer p)" example_path])
       (simp_all add: api_example_def path)
  have run: "api_steps api_example ?start (saved_server\<lparr>pr_fs := y\<rparr>, [Saving [] (Inr p) (\<lambda>p. Ended (delete_answer p))])"
    using p(1) by simp
  have "restart_reads plain_codec (saved_server\<lparr>pr_fs := y\<rparr>) p"
    using concurrent_durability [OF _ _ _ run] plain_codec_laws saved_server_durable by (simp add: publish_def restart_reads_def)
  then show ?thesis
    using run p(2) saved(2) by (intro exI [of _ "saved_server\<lparr>pr_fs := y\<rparr>"] exI [of _ p]) (simp add: delete_update_def)
qed

text \<open>C5: the published filters under concurrency: whatever requests run at the same time, each filter
  that the data plane reads decides what the policy (configuration base and overlay) said at some
  moment of the run, by the model-B rule; in particular no interleaving makes it allow loopback or the
  unspecified address.\<close>

theorem filters_from_policies:
  assumes "ipnet_laws (api_nets (aw_api w))" "server_wf (api_nets (aw_api w)) s"
    and "list_all (\<lambda>t. \<exists>rq. t = Arrived rq) ts" "api_steps w (s, ts) (s', ts')"
  shows "once (api_step w) (s, ts) (s', ts') (\<lambda>(s1, ts1). \<forall>host. length host \<le> 65535 \<longrightarrow>
      host_allowed (ap_domain_filter s') host = domain_policy_allows s1 host)
    \<and> once (api_step w) (s, ts) (s', ts') (\<lambda>(s1, ts1). \<forall>ip.
      egress_allowed (api_nets (aw_api w)) (ap_egress_filter s') ip = egress_policy_allows (api_nets (aw_api w)) s1 ip)
    \<and> \<not> egress_allowed (api_nets (aw_api w)) (ap_egress_filter s') (IpV6 0)
    \<and> \<not> egress_allowed (api_nets (aw_api w)) (ap_egress_filter s') (IpV6 1)"
proof -
  have prov: "once (api_step w) (s, ts) (s', ts') (\<lambda>z. domain_of (ap_domain_filter s') (fst z))"
    "once (api_step w) (s, ts) (s', ts') (\<lambda>z. egress_of (api_nets (aw_api w)) (ap_egress_filter s') (fst z))"
    using api_alone.run_provenance [OF assms(4)] assms(2,3) by simp_all
  then have "once (api_step w) (s, ts) (s', ts') (\<lambda>(s1, ts1). \<forall>host. length host \<le> 65535 \<longrightarrow>
      host_allowed (ap_domain_filter s') host = domain_policy_allows s1 host)"
    by (elim once_mono) (auto dest: domain_of_allows)
  moreover have egress: "once (api_step w) (s, ts) (s', ts') (\<lambda>(s1, ts1). \<forall>ip.
      egress_allowed (api_nets (aw_api w)) (ap_egress_filter s') ip = egress_policy_allows (api_nets (aw_api w)) s1 ip)"
    using prov(2) by (rule once_mono) (auto simp: egress_of_allows [OF assms(1)])
  moreover have "\<not> egress_allowed (api_nets (aw_api w)) (ap_egress_filter s') (IpV6 0)
    \<and> \<not> egress_allowed (api_nets (aw_api w)) (ap_egress_filter s') (IpV6 1)"
    using egress policy_never_local [OF assms(1)] unfolding once_def by auto
  ultimately show ?thesis by blast
qed

theorem filters_from_policies_witness:
  "\<exists>s' r. api_steps api_example (race_server, [Arrived (example_request (DeleteBinding ''::1''))]) (s', [r])
     \<and> \<not> egress_allowed plain_ops (ap_egress_filter s') (IpV6 1)"
proof -
  obtain s' r where run: "api_steps api_example
      (race_server, [Arrived (example_request (DeleteBinding ''::1''))]) (s', [Answered r])"
    using delete_run by blast
  from filters_from_policies [OF _ _ _ run] plain_laws race_server_wf run show ?thesis by auto
qed

text \<open>C6: access control under concurrency: whatever requests run at the same time, the policies change
  only if a request came in that may change them, from a listed address and with a token that the
  password hash verifies.\<close>

theorem changes_authorised:
  assumes "list_all (\<lambda>t. \<exists>rq. t = Arrived rq) ts" "api_steps w (s, ts) (s', ts')"
    and "pr_policies s' \<noteq> pr_policies s"
  shows "\<exists>rq t. Arrived rq \<in> set ts \<and> mutating (rq_endpoint rq)
    \<and> (\<exists>net \<in> set (tk_admin_allowlist (aw_tokens w)). net_contains (api_nets (aw_api w)) net (rq_peer rq))
    \<and> rq_authorization rq = Some (''Bearer '' @ t)
    \<and> verify_token (aw_argon w) t (tk_admin_token_hash (aw_tokens w)) = Some True"
proof -
  obtain rq z where rq: "api_steps w (s, ts) z" "Arrived rq \<in> set (snd z)" "mutating (rq_endpoint rq)"
    "authorised (api_nets (aw_api w)) (aw_argon w) (aw_tokens w) rq"
    using api_alone.change_entitled [OF assms(2)] assms(1,3) unfolding once_def by auto
  have "Arrived rq \<in> set ts" using arrived_before [OF rq(1)] rq(2) by simp
  moreover have "rq_endpoint rq \<noteq> Healthz" "rq_endpoint rq \<noteq> Metrics" using rq(3) by auto
  ultimately show ?thesis using rq(3,4) by (auto simp: authorised_def verify_token_True)
qed

theorem changes_authorised_witness:
  "\<exists>s' r rq t. api_steps api_example (race_server, [Arrived (example_request (DeleteBinding ''::1''))]) (s', [r])
     \<and> pr_policies s' \<noteq> pr_policies race_server \<and> rq = example_request (DeleteBinding ''::1'')
     \<and> mutating (rq_endpoint rq) \<and> rq_authorization rq = Some (''Bearer '' @ t)
     \<and> verify_token (aw_argon api_example) t (tk_admin_token_hash (aw_tokens api_example)) = Some True"
proof -
  obtain s' r where run: "api_steps api_example
      (race_server, [Arrived (example_request (DeleteBinding ''::1''))]) (s', [Answered r])"
    "pr_policies s' \<noteq> pr_policies race_server"
    using delete_run by blast
  from changes_authorised [OF _ run] run show ?thesis by auto
qed

end
