(* ===== verification/ApiRace.thy ===== *)
theory ApiRace
  imports ApiRuns
begin

text \<open>
  What interleavings break: three schedules of two requests each, from a well-formed server, in which a
  handler panics, a saved change is lost, and a filter that is out of date is published last.
\<close>

section \<open>Schedules\<close>

text \<open>A patch whose binding is deleted between its check and its save.\<close>

lemma patch_race:
  "\<exists>s' r. api_steps api_example (race_server, [Admitted (PatchHashPolicy ''::1'' ''src_dst''), Admitted (DeleteBinding ''::1'')])
     (s', [Panicked, Answered r]) \<and> rs_status r = 200"
proof -
  let ?patch = "Admitted (PatchHashPolicy ''::1'' ''src_dst'')" and ?delete = "Admitted (DeleteBinding ''::1'')"
  let ?start = "(race_server, [?patch, ?delete])"
  have check: "check_binding ''::1'' race_server = Inr (IpV6 1)"
    by (simp add: check_binding_def parse_one)
  have 1: "api_steps api_example ?start (race_server, [PatchChecked SrcDst (IpV6 1), ?delete])"
    using next_step [OF rtranclp.rtrancl_refl, of "snd ?start" 0] check
    by (simp add: endpoint_start_def patch_check_def parse_one hash_policy_from_str_def)
  have 2: "api_steps api_example ?start (race_server, [PatchChecked SrcDst (IpV6 1), DeleteChecked (IpV6 1)])"
    using next_step [OF 1, of 1] check by (simp add: endpoint_start_def)
  obtain x p1 where 3: "api_steps api_example ?start (race_server\<lparr>pr_fs := x, pr_policies := p1\<rparr>,
        [PatchChecked SrcDst (IpV6 1), DeleteChecked (IpV6 1)][1 := after_saving (Inr p1) (\<lambda>p. Ended (delete_answer p))])"
    "pol_bindings p1 = pol_bindings (delete_update (IpV6 1) (pr_policies race_server))"
    by (rule save_run [OF 2, of 1 "delete_update (IpV6 1)" "\<lambda>p. Ended (delete_answer p)" example_path]) (simp_all add: api_example_def)
  let ?s1 = "race_server\<lparr>pr_fs := x, pr_policies := p1\<rparr>" and ?r = "respond 200 (StatusBody ''deleted'')"
  have 4: "api_steps api_example ?start (?s1, [PatchChecked SrcDst (IpV6 1), Answered ?r])"
    using 3(1) by (simp add: after_saving_def delete_answer_def)
  let ?g = "patch_update run_env SrcDst (IpV6 1)" and ?k = "\<lambda>p. Ended (binding_of_new example_api (IpV6 1) p)"
  obtain y p2 where 5: "api_steps api_example ?start (?s1\<lparr>pr_fs := y, pr_policies := p2\<rparr>,
        [PatchChecked SrcDst (IpV6 1), Answered ?r][0 := after_saving (Inr p2) ?k])"
    "pol_bindings p2 = pol_bindings (?g (pr_policies ?s1))"
    by (rule save_run [OF 4, of 0 ?g ?k example_path]) (simp_all add: api_example_def)
  have gone: "pol_bindings p2 (IpV6 1) = None"
    using 3(2) 5(2) by (simp add: patch_update_def update_binding_simps delete_update_def)
  have "after_saving (Inr p2) ?k = (Panicked :: (ip_addr \<times> u8) task)"
    using gone by (simp add: after_saving_def binding_of_new_def)
  then have "api_steps api_example ?start (?s1\<lparr>pr_fs := y, pr_policies := p2\<rparr>, [Panicked, Answered ?r])"
    using 5(1) by simp
  moreover have "rs_status ?r = 200" by simp
  ultimately show ?thesis by blast
qed

text \<open>A put that names no seed keeps the one it has read; a reseed saved in between is lost.\<close>

lemma lost_reseed:
  "\<exists>s' r1 r2. api_steps api_example (race_server,
       [Admitted (PutBinding ''::1'' \<lparr>pb_policy = Some ''src_dst'', pb_seed = None\<rparr>), Admitted (Reseed ''::1'' 9)])
     (s', [Answered r1, Answered r2]) \<and> rs_status r1 = 200 \<and> rs_status r2 = 200
     \<and> map_option bd_seed (pol_bindings (pr_policies s') (IpV6 1)) = Some 7"
proof -
  let ?body = "\<lparr>pb_policy = Some ''src_dst'', pb_seed = None\<rparr>"
  let ?start = "(race_server, [Admitted (PutBinding ''::1'' ?body), Admitted (Reseed ''::1'' 9)])"
  let ?b = "\<lparr>bd_policy = SrcDst, bd_seed = 7, bd_updated_at = env_now run_env\<rparr>"
  have 1: "api_steps api_example ?start (race_server, [PutReady (IpV6 1) ?b, Admitted (Reseed ''::1'' 9)])"
    using next_step [OF rtranclp.rtrancl_refl, of "snd ?start" 0]
    by (simp add: endpoint_start_def put_check_def put_policy_def put_seed_def parse_one hash_policy_from_str_def)
  have 2: "api_steps api_example ?start (race_server, [PutReady (IpV6 1) ?b, ReseedChecked 9 (IpV6 1)])"
    using next_step [OF 1, of 1] by (simp add: endpoint_start_def check_binding_def parse_one)
  let ?g = "reseed_update run_env 9 (IpV6 1)" and ?k = "\<lambda>p. Ended (binding_of_new example_api (IpV6 1) p)"
  obtain x p1 where 3: "api_steps api_example ?start (race_server\<lparr>pr_fs := x, pr_policies := p1\<rparr>,
        [PutReady (IpV6 1) ?b, ReseedChecked 9 (IpV6 1)][1 := after_saving (Inr p1) ?k])"
    "pol_bindings p1 = pol_bindings (?g (pr_policies race_server))"
    by (rule save_run [OF 2, of 1 ?g ?k example_path]) (simp_all add: api_example_def)
  let ?s1 = "race_server\<lparr>pr_fs := x, pr_policies := p1\<rparr>"
  obtain r2 where r2: "after_saving (Inr p1) ?k = (Answered r2 :: (ip_addr \<times> u8) task)" "rs_status r2 = 200"
    using 3(2) by (simp add: after_saving_def binding_of_new_def reseed_update_def update_binding_simps)
  have 4: "api_steps api_example ?start (?s1, [PutReady (IpV6 1) ?b, Answered r2])"
    using 3(1) r2(1) by simp
  let ?h = "put_update (IpV6 1) ?b" and ?j = "\<lambda>p. Ended (put_answer example_api (IpV6 1) ?b p)"
  obtain y p2 where 5: "api_steps api_example ?start (?s1\<lparr>pr_fs := y, pr_policies := p2\<rparr>,
        [PutReady (IpV6 1) ?b, Answered r2][0 := after_saving (Inr p2) ?j])"
    "pol_bindings p2 = pol_bindings (?h (pr_policies ?s1))"
    by (rule save_run [OF 4, of 0 ?h ?j example_path]) (simp_all add: api_example_def)
  obtain r1 where r1: "after_saving (Inr p2) ?j = (Answered r1 :: (ip_addr \<times> u8) task)" "rs_status r1 = 200"
    by (simp add: after_saving_def put_answer_def)
  let ?s2 = "?s1\<lparr>pr_fs := y, pr_policies := p2\<rparr>"
  have "api_steps api_example ?start (?s2, [Answered r1, Answered r2])" using 5(1) r1(1) by simp
  moreover have "map_option bd_seed (pol_bindings (pr_policies ?s2) (IpV6 1)) = Some 7"
    using 5(2) by (simp add: put_update_def)
  ultimately show ?thesis using r1(2) r2(2) by blast
qed

text \<open>Two mutations of the domain list: the filter compiled first is published last.\<close>

lemma canon_names:
  "canon_batch (\<lambda>r. map_err RuleError (canonicalize_rule r)) [''a.com''] = Inr [''domain:a.com'']"
  "canon_batch (\<lambda>r. map_err RuleError (canonicalize_rule r)) [''b.com''] = Inr [''domain:b.com'']"
proof -
  have "canonicalize_rule ''a.com'' = Inr ''domain:a.com''"
    "canonicalize_rule ''b.com'' = Inr ''domain:b.com''" by code_simp+
  then show "canon_batch (\<lambda>r. map_err RuleError (canonicalize_rule r)) [''a.com''] = Inr [''domain:a.com'']"
    "canon_batch (\<lambda>r. map_err RuleError (canonicalize_rule r)) [''b.com''] = Inr [''domain:b.com'']"
    by (simp_all add: canon_batch_def)
qed

lemma domain_saved_run:
  fixes s :: "(ip_addr \<times> u8) app"
  assumes run: "api_steps api_example st (s, ts)" and i: "i < length ts" "filter holds_lock ts = []"
    and t: "ts ! i = Admitted (MutateDomains Deny Add rules)"
    and s: "pr_state_path s = Some example_path" "ap_domain_base s = Some ([], [])"
    and canon: "canon_batch (\<lambda>r. map_err RuleError (canonicalize_rule r)) rules = Inr canon"
  obtains x p where "api_steps api_example st (s\<lparr>pr_fs := x, pr_policies := p\<rparr>, ts[i := DomainSaved])"
    "pol_domain_acl p = fold (add_deny []) canon (pol_domain_acl (pr_policies s))"
proof -
  let ?ts = "ts[i := DomainReady Deny Add canon]"
  have ready: "api_steps api_example st (s, ?ts)"
    using next_step [OF run, of i] i t canon by (simp add: endpoint_start_def mutate_ready_def)
  have none: "filter holds_lock ?ts = []"
    using i filter_update [OF i(1), of holds_lock] t by simp
  let ?g = "acl_update Deny Add canon domain_kind s"
  obtain x p where p: "api_steps api_example st (s\<lparr>pr_fs := x, pr_policies := p\<rparr>,
        ?ts[i := after_saving (Inr p) (\<lambda>p. RebuildDomain)])"
    "pol_domain_acl p = pol_domain_acl (?g (pr_policies s))"
    by (rule save_run [OF ready _ none, of i ?g "\<lambda>p. RebuildDomain" example_path])
       (use i s in \<open>simp_all add: api_example_def\<close>)
  have "pol_domain_acl (?g (pr_policies s)) = fold (add_deny []) canon (pol_domain_acl (pr_policies s))"
    using s(2) by (simp add: acl_update_def domain_base_def select_domain_def acl_step_eqs)
  then show ?thesis using that p by (simp add: after_saving_def)
qed

definition deny_a :: acl_delta where
  "deny_a = acl_delta_default\<lparr>deny_add := [''domain:a.com'']\<rparr>"

definition deny_ab :: acl_delta where
  "deny_ab = acl_delta_default\<lparr>deny_add := [''domain:a.com'', ''domain:b.com'']\<rparr>"

lemma deny_batches:
  "fold (add_deny []) [''domain:a.com''] acl_delta_default = deny_a"
  "fold (add_deny []) [''domain:b.com''] deny_a = deny_ab"
  by (simp_all add: add_deny_def apply_add_def Let_def acl_delta_default_def deny_a_def deny_ab_def)

lemma stale_hosts:
  "host_allowed (fst (build_domain_filter [] [] deny_a)) ''b.com''"
  "\<not> host_allowed (fst (build_domain_filter [] [] deny_ab)) ''b.com''"
  by code_simp+

text \<open>The schedule: compile, let the other request run to its end, publish.\<close>

lemma stale_run:
  "\<exists>s' r1 r2. api_steps api_example
       (race_server, [Admitted (MutateDomains Deny Add [''a.com'']), Admitted (MutateDomains Deny Add [''b.com''])])
       (s', [Answered r1, Answered r2]) \<and> rs_status r1 = 200 \<and> rs_status r2 = 200
     \<and> ap_domain_base s' = Some ([], []) \<and> pol_domain_acl (pr_policies s') = deny_ab
     \<and> ap_domain_filter s' = fst (build_domain_filter [] [] deny_a)"
proof -
  let ?A = "Admitted (MutateDomains Deny Add [''a.com''])" and ?B = "Admitted (MutateDomains Deny Add [''b.com''])"
  let ?start = "(race_server, [?A, ?B])"
  let ?fa = "fst (build_domain_filter [] [] deny_a)" and ?fb = "fst (build_domain_filter [] [] deny_ab)"
  obtain x1 p1 where 1: "api_steps api_example ?start (race_server\<lparr>pr_fs := x1, pr_policies := p1\<rparr>, [?A, ?B][0 := DomainSaved])"
      "pol_domain_acl p1 = fold (add_deny []) [''domain:a.com''] (pol_domain_acl (pr_policies race_server))"
    by (rule domain_saved_run [OF rtranclp.rtrancl_refl, of 0 "[?A, ?B]" "[''a.com'']" race_server "[''domain:a.com'']"])
       (simp_all add: canon_names)
  define s1 where "s1 = race_server\<lparr>pr_fs := x1, pr_policies := p1\<rparr>"
  have s1: "pr_state_path s1 = Some example_path" "ap_domain_base s1 = Some ([], [])" "pr_policies s1 = p1"
    by (simp_all add: s1_def)
  have acl1: "pol_domain_acl p1 = deny_a" using 1(2) by (simp only: race_server_simps deny_batches)
  have 2: "api_steps api_example ?start (s1, [DomainSaved, ?B])" using 1(1) by (simp add: s1_def)
  have 3: "api_steps api_example ?start (s1, [DomainCompiled ?fa, ?B])"
    using next_step [OF 2, of 0] by (simp add: s1 acl1)
  obtain x2 p2 where 4: "api_steps api_example ?start (s1\<lparr>pr_fs := x2, pr_policies := p2\<rparr>, [DomainCompiled ?fa, ?B][1 := DomainSaved])"
      "pol_domain_acl p2 = fold (add_deny []) [''domain:b.com''] (pol_domain_acl (pr_policies s1))"
    by (rule domain_saved_run [OF 3, of 1 "[''b.com'']" "[''domain:b.com'']"]) (simp_all add: canon_names s1)
  define s2 where "s2 = s1\<lparr>pr_fs := x2, pr_policies := p2\<rparr>"
  have s2: "ap_domain_base s2 = Some ([], [])" "pr_policies s2 = p2" by (simp_all add: s2_def s1(2))
  have acl2: "pol_domain_acl p2 = deny_ab" using 4(2) by (simp only: s1(3) acl1 deny_batches)
  have 5: "api_steps api_example ?start (s2, [DomainCompiled ?fa, DomainSaved])" using 4(1) by (simp add: s2_def)
  have 6: "api_steps api_example ?start (s2, [DomainCompiled ?fa, DomainCompiled ?fb])"
    using next_step [OF 5, of 1] by (simp add: s2 acl2)
  define s3 where "s3 = s2\<lparr>ap_domain_filter := ?fb\<rparr>"
  have 7: "api_steps api_example ?start (s3, [DomainCompiled ?fa, DomainPublished])"
    using next_step [OF 6, of 1] by (simp add: s3_def)
  let ?r2 = "respond 200 (AclBody (domain_view s3))"
  have 8: "api_steps api_example ?start (s3, [DomainCompiled ?fa, Answered ?r2])"
    using next_step [OF 7, of 1] by simp
  define s4 where "s4 = s3\<lparr>ap_domain_filter := ?fa\<rparr>"
  have 9: "api_steps api_example ?start (s4, [DomainPublished, Answered ?r2])"
    using next_step [OF 8, of 0] by (simp add: s4_def)
  let ?r1 = "respond 200 (AclBody (domain_view s4))"
  have "api_steps api_example ?start (s4, [Answered ?r1, Answered ?r2])"
    using next_step [OF 9, of 0] by simp
  moreover have "ap_domain_base s4 = Some ([], [])" "pol_domain_acl (pr_policies s4) = deny_ab" "ap_domain_filter s4 = ?fa"
    by (simp_all add: s4_def s3_def s2 acl2)
  ultimately show ?thesis by (intro exI [of _ s4] exI [of _ ?r1] exI [of _ ?r2]) simp
qed

text \<open>C37: three interleavings break what sequential requests keep. A binding deleted between the check
  and the save of a patch makes the patch handler panic; a put that keeps the seed writes back the one
  it has read, so a reseed that was saved and answered in between is lost; and of two concurrent mutations of the domain
  list, both answered 200, the filter compiled first may be published last, after which a host that
  the policies deny is allowed by the filter that the data plane reads.\<close>

theorem races_break_handlers:
  "server_wf plain_ops race_server
   \<and> (\<exists>s' r. api_steps api_example
        (race_server, [Admitted (PatchHashPolicy ''::1'' ''src_dst''), Admitted (DeleteBinding ''::1'')]) (s', [Panicked, Answered r])
        \<and> rs_status r = 200)
   \<and> (\<exists>s' r1 r2. api_steps api_example (race_server,
          [Admitted (PutBinding ''::1'' \<lparr>pb_policy = Some ''src_dst'', pb_seed = None\<rparr>), Admitted (Reseed ''::1'' 9)])
        (s', [Answered r1, Answered r2]) \<and> rs_status r1 = 200 \<and> rs_status r2 = 200
        \<and> map_option bd_seed (pol_bindings (pr_policies s') (IpV6 1)) = Some 7)
   \<and> (\<exists>s' r1 r2. api_steps api_example
        (race_server, [Admitted (MutateDomains Deny Add [''a.com'']), Admitted (MutateDomains Deny Add [''b.com''])])
        (s', [Answered r1, Answered r2]) \<and> rs_status r1 = 200 \<and> rs_status r2 = 200
        \<and> host_allowed (ap_domain_filter s') ''b.com''
        \<and> \<not> host_allowed (fst (build_domain_filter [] [] (pol_domain_acl (pr_policies s')))) ''b.com''
        \<and> ap_domain_base s' = Some ([], []))"
proof -
  obtain s' r1 r2 where s': "api_steps api_example
      (race_server, [Admitted (MutateDomains Deny Add [''a.com'']), Admitted (MutateDomains Deny Add [''b.com''])])
      (s', [Answered r1, Answered r2])" "rs_status r1 = 200" "rs_status r2 = 200"
    "ap_domain_base s' = Some ([], [])" "pol_domain_acl (pr_policies s') = deny_ab"
    "ap_domain_filter s' = fst (build_domain_filter [] [] deny_a)"
    using stale_run by blast
  have "host_allowed (ap_domain_filter s') ''b.com''" unfolding s'(6) by (rule stale_hosts)
  moreover have "\<not> host_allowed (fst (build_domain_filter [] [] (pol_domain_acl (pr_policies s')))) ''b.com''"
    unfolding s'(5) by (rule stale_hosts)
  ultimately show ?thesis
    using race_server_wf patch_race lost_reseed s'(1-4) by blast
qed

end
