(* ===== verification/PoolHash.thy ===== *)
theory PoolHash
  imports Policies
begin

text \<open>
  The IPv6 pools (\<open>V6Pool\<close> of \<open>src/config.rs\<close>) and the choice of an outgoing address
  (\<open>src/dataplane/hash.rs\<close>). The keyed hash is that of the crate \<open>siphasher\<close>: a parameter, a
  function of the two keys and of the values hashed in order. Integers keep their width; the release
  build of the program wraps.
\<close>

section \<open>Pools\<close>

record v6_pool =
  pl_prefix :: u128
  pl_prefix_len :: u8

datatype pool_error =
  InvalidPoolFormat string | InvalidPoolAddress | InvalidPrefixLength | PrefixTooLarge

definition v6_pool_parse :: "string \<Rightarrow> pool_error + v6_pool" where
  "v6_pool_parse s =
     (case split_on (CHR ''/'') s of
        [x, y] \<Rightarrow>
          (case parse_ipv6_addr x of
             None \<Rightarrow> Inl InvalidPoolAddress
           | Some addr \<Rightarrow>
               (case parse_uint 10 256 y of
                  None \<Rightarrow> Inl InvalidPrefixLength
                | Some n \<Rightarrow>
                    (let prefix_len = (of_nat n :: u8) in
                     if \<not> prefix_len \<le> 128 then Inl PrefixTooLarge
                     else (let mask = (if prefix_len = 0 then 0
                                       else push_bit (unat (128 - prefix_len)) (not 0))
                           in Inr \<lparr>pl_prefix = and addr mask, pl_prefix_len = prefix_len\<rparr>))))
      | _ \<Rightarrow> Inl (InvalidPoolFormat s))"

definition parse_pools :: "string list \<Rightarrow> pool_error + v6_pool list" where
  "parse_pools v6_pools = collect_results v6_pool_parse v6_pools"

definition host_at :: "v6_pool \<Rightarrow> u64 \<Rightarrow> u128" where
  "host_at p hash =
     (let host_bits = (128 - ucast (pl_prefix_len p) :: u32);
          host_mask = (if 128 \<le> host_bits then not 0 else push_bit (unat host_bits) 1 - 1);
          host = and (ucast hash) host_mask;
          host = (if host = 0 then 1 else if host = host_mask then host_mask - 1 else host)
      in or (pl_prefix p) host)"

section \<open>The outgoing address\<close>

text \<open>What is fed to the hasher: an address or a port.\<close>

datatype hash_input = HashIp ip_addr | HashPort u16

type_synonym hasher = "u64 \<Rightarrow> u64 \<Rightarrow> hash_input list \<Rightarrow> u64"

fun hashed_values :: "hash_policy \<Rightarrow> ip_addr \<Rightarrow> ip_addr \<Rightarrow> u16 \<Rightarrow> u16 \<Rightarrow> hash_input list" where
  "hashed_values SrcIp src_ip dst_ip src_port dst_port = [HashIp src_ip]"
| "hashed_values SrcDst src_ip dst_ip src_port dst_port = [HashIp src_ip, HashIp dst_ip]"
| "hashed_values FiveTuple src_ip dst_ip src_port dst_port =
     [HashIp src_ip, HashIp dst_ip, HashPort src_port, HashPort dst_port]"

definition pick_outgoing ::
  "hasher \<Rightarrow> v6_pool list \<Rightarrow> binding \<Rightarrow> ip_addr \<Rightarrow> ip_addr \<Rightarrow> u16 \<Rightarrow> u16 \<Rightarrow> u128 option run" where
  "pick_outgoing sip pools b src_ip dst_ip src_port dst_port =
     (if pools = [] then ret None
      else
        let k0 = bd_seed b;
            k1 = word_rotl 17 (bd_seed b);
            hash = sip k0 k1 (hashed_values (bd_policy b) src_ip dst_ip src_port dst_port);
            pool_index = unat hash mod length pools
        in do { pool \<leftarrow> idx pools pool_index; ret (Some (host_at pool hash)) })"

section \<open>Well-formed pools\<close>

definition host_bits :: "v6_pool \<Rightarrow> nat" where
  "host_bits p = 128 - unat (pl_prefix_len p)"

text \<open>The prefix length fits and no host bit of the prefix is set.\<close>

definition pool_wf :: "v6_pool \<Rightarrow> bool" where
  "pool_wf p \<longleftrightarrow> pl_prefix_len p \<le> 128 \<and> take_bit (host_bits p) (pl_prefix p) = 0"

definition in_pool :: "v6_pool \<Rightarrow> u128 \<Rightarrow> bool" where
  "in_pool p a \<longleftrightarrow> drop_bit (host_bits p) a = drop_bit (host_bits p) (pl_prefix p)"

definition host_part :: "v6_pool \<Rightarrow> u128 \<Rightarrow> u128" where
  "host_part p a = take_bit (host_bits p) a"

lemma unat_le_128: "(l :: u8) \<le> 128 \<longleftrightarrow> unat l \<le> 128"
  by (simp add: word_le_nat_alt)

lemma unat_128_minus: "(l :: u8) \<le> 128 \<Longrightarrow> unat (128 - l) = 128 - unat l"
  by (simp add: unat_sub)

lemma take_bit_push_not: "take_bit k (and a (not (mask k))) = (0 :: 'a::len word)"
  by (rule bit_word_eqI) (auto simp: bit_simps)

lemma v6_pool_parse_wf: "v6_pool_parse s = Inr p \<Longrightarrow> pool_wf p"
  by (auto simp: v6_pool_parse_def pool_wf_def host_bits_def Let_def unat_128_minus take_bit_push_not simp del: take_bit_and
      split: list.splits option.splits if_splits)

lemma parse_pools_wf: "parse_pools ss = Inr ps \<Longrightarrow> list_all pool_wf ps \<and> length ps = length ss"
  unfolding parse_pools_def list_all_iff
  using collect_results_set collect_results_length v6_pool_parse_wf by fastforce

section \<open>Addresses within a pool\<close>

lemma unat_host_bits:
  "pl_prefix_len p \<le> 128 \<Longrightarrow> unat (128 - ucast (pl_prefix_len p) :: u32) = host_bits p"
proof -
  assume "pl_prefix_len p \<le> 128"
  then have l: "unat (pl_prefix_len p) \<le> 128" by (simp add: unat_le_128)
  have u: "unat (ucast (pl_prefix_len p) :: u32) = unat (pl_prefix_len p)"
    by (simp add: unsigned_ucast_eq take_bit_nat_eq_self less_trans [OF unsigned_less])
  then have "(ucast (pl_prefix_len p) :: u32) \<le> 128" using l by (simp add: word_le_nat_alt)
  then show ?thesis using u by (simp add: unat_sub host_bits_def)
qed

lemma host_mask_eq:
  assumes "pl_prefix_len p \<le> 128"
  shows "(if 128 \<le> (128 - ucast (pl_prefix_len p) :: u32) then not 0
          else push_bit (unat (128 - ucast (pl_prefix_len p) :: u32)) 1 - 1)
     = (mask (host_bits p) :: u128)"
proof -
  have "128 \<le> (128 - ucast (pl_prefix_len p) :: u32) \<longleftrightarrow> host_bits p = 128"
    unfolding word_le_nat_alt unat_host_bits [OF assms] by (auto simp: host_bits_def)
  then show ?thesis
    unfolding unat_host_bits [OF assms]
    by (auto simp: mask_eq_exp_minus_1 push_bit_eq_mult)
qed

definition adjusted :: "u128 \<Rightarrow> u128 \<Rightarrow> u128" where
  "adjusted host m = (if host = 0 then 1 else if host = m then m - 1 else host)"

lemma host_at_eq:
  "pl_prefix_len p \<le> 128 \<Longrightarrow>
     host_at p h = or (pl_prefix p) (adjusted (take_bit (host_bits p) (ucast h)) (mask (host_bits p)))"
  unfolding host_at_def Let_def host_mask_eq adjusted_def take_bit_eq_mask ..

lemma mask_pred_bound: "1 \<le> k \<Longrightarrow> take_bit k (mask k - 1) = (mask k - 1 :: u128)"
proof -
  assume "1 \<le> k"
  then have "mask k - 1 = (and (mask k) (not 1) :: u128)"
  proof -
    have "(mask k :: u128) = or (and (mask k) (not 1)) 1"
      using \<open>1 \<le> k\<close> by (intro bit_word_eqI) (auto simp: bit_simps)
    also have "\<dots> = and (mask k) (not 1) + 1"
      by (rule disjunctive_add [symmetric]) (auto simp: bit_simps)
    finally show ?thesis by (simp add: algebra_simps)
  qed
  then show ?thesis by (simp add: take_bit_eq_mask and.assoc and.commute and.left_commute)
qed

lemma adjusted_bound: "1 \<le> k \<Longrightarrow> take_bit k (adjusted (take_bit k x) (mask k)) = adjusted (take_bit k x) (mask k)"
  by (auto simp: adjusted_def mask_pred_bound)

lemma or_host:
  fixes a x :: u128
  assumes "take_bit k a = 0" "take_bit k x = x"
  shows "drop_bit k (or a x) = drop_bit k a" "take_bit k (or a x) = x"
proof -
  have "drop_bit k x = 0" using assms(2) by (metis drop_bit_take_bit diff_self_eq_0 take_bit_0)
  then show "drop_bit k (or a x) = drop_bit k a" by (simp add: drop_bit_or)
  show "take_bit k (or a x) = x" using assms by (simp add: take_bit_or)
qed

lemma host_at_in_pool:
  assumes "pool_wf p" "unat (pl_prefix_len p) \<le> 127"
  shows "in_pool p (host_at p h)"
    "host_part p (host_at p h) = adjusted (take_bit (host_bits p) (ucast h)) (mask (host_bits p))"
proof -
  have k: "1 \<le> host_bits p" using assms(2) by (simp add: host_bits_def)
  have wf: "pl_prefix_len p \<le> 128" "take_bit (host_bits p) (pl_prefix p) = 0"
    using assms(1) by (simp_all add: pool_wf_def)
  note or = or_host [OF wf(2) adjusted_bound [OF k]]
  show "in_pool p (host_at p h)" by (simp add: in_pool_def host_at_eq [OF wf(1)] or del: drop_bit_or)
  show "host_part p (host_at p h)
      = adjusted (take_bit (host_bits p) (ucast h)) (mask (host_bits p))"
    by (simp add: host_part_def host_at_eq [OF wf(1)] or del: take_bit_or)
qed

lemma split_on_two: "split_on c s = [x, y] \<Longrightarrow> s = x @ c # y"
proof -
  have one: "split_on c s = [x] \<Longrightarrow> s = x" for s x
    by (induction s arbitrary: x) (auto simp: split_on_nonempty split: if_splits list.splits)
  show "split_on c s = [x, y] \<Longrightarrow> s = x @ c # y"
    by (induction s arbitrary: x) (auto simp: split_on_nonempty split: if_splits list.splits dest: one)
qed

lemma acc_digits_bound: "acc_digits radix bound a s = Some n \<Longrightarrow> a < bound \<Longrightarrow> n < bound"
  by (induction radix bound a s rule: acc_digits.induct)
     (auto simp: Let_def split: option.splits if_splits)

lemma parse_uint_bound: "parse_uint radix bound s = Some n \<Longrightarrow> 0 < bound \<Longrightarrow> n < bound"
  unfolding parse_uint_def
  by (auto dest: acc_digits_bound split: list.splits if_splits simp del: acc_digits.simps)

lemma v6_pool_parse_Inr:
  assumes "v6_pool_parse s = Inr p"
  obtains x y a where "s = x @ CHR ''/'' # y" "parse_ipv6_addr x = Some a"
    "parse_uint 10 256 y = Some (unat (pl_prefix_len p))"
    "pl_prefix p = and a (not (mask (host_bits p)))"
proof -
  obtain x y where xy: "split_on (CHR ''/'') s = [x, y]"
    using assms by (auto simp: v6_pool_parse_def split: list.splits)
  obtain a where a: "parse_ipv6_addr x = Some a"
    using assms xy by (auto simp: v6_pool_parse_def split: option.splits)
  obtain n where n: "parse_uint 10 256 y = Some n"
    using assms xy a by (auto simp: v6_pool_parse_def split: option.splits)
  have lt: "n < 256" using parse_uint_bound [OF n] by simp
  then have u: "unat (of_nat n :: u8) = n" by (simp add: unat_of_nat)
  have le: "(of_nat n :: u8) \<le> 128" and p: "p = \<lparr>pl_prefix = and a (if (of_nat n :: u8) = 0 then 0
      else push_bit (unat (128 - of_nat n :: u8)) (not 0)), pl_prefix_len = of_nat n\<rparr>"
    using assms xy a n by (simp_all add: v6_pool_parse_def Let_def split: if_splits)
  have "(0 :: u128) = not (mask 128)" by (rule bit_word_eqI) (auto simp: bit_simps)
  then have "pl_prefix p = and a (not (mask (host_bits p)))"
    using u le by (auto simp: p host_bits_def unat_128_minus)
  with that [OF split_on_two [OF xy] a] n u show ?thesis by (simp add: p)
qed

lemma adjusted_not_reserved: "m \<noteq> 1 \<Longrightarrow> adjusted x m \<noteq> 0 \<and> adjusted x m \<noteq> m"
  by (auto simp: adjusted_def)

lemma mask_not_1: "2 \<le> k \<Longrightarrow> (mask k :: u128) \<noteq> 1"
proof -
  assume "2 \<le> k"
  then have "bit (mask k :: u128) 1" by (simp add: bit_mask_iff)
  moreover have "\<not> bit (1 :: u128) 1" by (simp add: bit_1_iff)
  ultimately show ?thesis by metis
qed

lemma take_bit_ucast_hash:
  assumes "64 \<le> k"
  shows "take_bit k (ucast (h :: u64)) = (ucast h :: u128)"
  by (rule bit_word_eqI) (use assms in \<open>auto simp: bit_simps dest: bit_imp_le_length\<close>)

lemma ucast_hash_bit: "n < 64 \<Longrightarrow> bit (ucast (h :: u64) :: u128) n = bit h n"
  by (simp add: bit_simps)

lemma ucast_hash_inject: "(ucast (h :: u64) :: u128) = ucast g \<longleftrightarrow> h = g"
proof
  assume eq: "(ucast h :: u128) = ucast g"
  show "h = g"
  proof (rule bit_word_eqI)
    fix n assume "n < LENGTH(64)"
    then have n: "n < 64" by simp
    show "bit h n = bit g n"
      unfolding ucast_hash_bit [OF n, symmetric] eq ..
  qed
qed simp

lemma ucast_hash_not_mask:
  assumes "64 \<le> k" "h \<noteq> not 0"
  shows "(ucast (h :: u64) :: u128) \<noteq> mask k"
proof
  assume eq: "(ucast h :: u128) = mask k"
  have "h = not 0"
  proof (rule bit_word_eqI)
    fix n assume "n < LENGTH(64)"
    then have n: "n < 64" by simp
    have "bit (mask k :: u128) n" using n assms(1) by (simp add: bit_mask_iff)
    then show "bit h n = bit (not 0 :: u64) n" using n ucast_hash_bit [OF n, of h] eq
      by (simp add: bit_simps)
  qed
  with assms(2) show False ..
qed

lemma adjusted_hash:
  assumes "64 \<le> k" "h \<noteq> 0" "h \<noteq> not 0"
  shows "adjusted (ucast (h :: u64)) (mask k) = ucast h"
  using ucast_hash_not_mask [OF assms(1,3)] ucast_hash_inject [of h 0] assms(2)
  unfolding adjusted_def by simp

section \<open>Choosing an address\<close>

lemma pick_outgoing_cases:
  assumes "pools \<noteq> []"
  obtains p h where "p \<in> set pools"
    "pick_outgoing sip pools b src dst sp dp = Some (Some (host_at p h))"
proof -
  let ?h = "sip (bd_seed b) (word_rotl 17 (bd_seed b)) (hashed_values (bd_policy b) src dst sp dp)"
  let ?i = "unat ?h mod length pools"
  have i: "?i < length pools" using assms by simp
  have "pick_outgoing sip pools b src dst sp dp = Some (Some (host_at (pools ! ?i) ?h))"
    using assms i by (simp add: pick_outgoing_def Let_def idx_in_range)
  with that show ?thesis using nth_mem [OF i] by blast
qed

lemma pick_outgoing_hashed:
  "bd_seed b = bd_seed b' \<Longrightarrow>
   hashed_values (bd_policy b) src dst sp dp = hashed_values (bd_policy b') src' dst' sp' dp' \<Longrightarrow>
     pick_outgoing sip pools b src dst sp dp = pick_outgoing sip pools b' src' dst' sp' dp'"
  by (simp add: pick_outgoing_def)

section \<open>Properties\<close>

text \<open>A pool text is accepted only as an IPv6 address, one slash and a prefix length of at most 128;
  the pool's prefix has no host bit set and the written address lies in the pool.\<close>

theorem pool_parse_correct:
  assumes "v6_pool_parse s = Inr p"
  shows "pool_wf p \<and>
     (\<exists>x y a. s = x @ CHR ''/'' # y \<and> parse_ipv6_addr x = Some a
        \<and> parse_uint 10 256 y = Some (unat (pl_prefix_len p)) \<and> in_pool p a)"
proof -
  obtain x y a where p: "s = x @ CHR ''/'' # y" "parse_ipv6_addr x = Some a"
    "parse_uint 10 256 y = Some (unat (pl_prefix_len p))"
    "pl_prefix p = and a (not (mask (host_bits p)))"
    using v6_pool_parse_Inr [OF assms] by blast
  have "drop_bit k (and a (not (mask k))) = drop_bit k a" for k
    by (rule bit_word_eqI) (auto simp: bit_simps dest: bit_imp_le_length)
  then have "in_pool p a" by (simp only: in_pool_def p(4))
  with v6_pool_parse_wf [OF assms] p show ?thesis by blast
qed

lemma example_pool:
  "v6_pool_parse ''2001:db8:a::1/64'' = Inr \<lparr>pl_prefix = 0x20010db8000a * 2 ^ 80, pl_prefix_len = 64\<rparr>"
  by (simp add: v6_pool_parse_def parse_uint_def ip_eval mask_eq_exp_minus_1)

lemma example_pool_wf: "pool_wf \<lparr>pl_prefix = 0x20010db8000a * 2 ^ 80, pl_prefix_len = 64\<rparr>"
  by (rule v6_pool_parse_wf [OF example_pool])

theorem pool_parse_correct_witness:
  "pool_wf \<lparr>pl_prefix = 0x20010db8000a * 2 ^ 80, pl_prefix_len = 64\<rparr>"
  using pool_parse_correct [OF example_pool] by blast

text \<open>C26: an outgoing address of a pool of at most 127 prefix bits lies in the pool, and for at most
  126 its host part is neither all zeros nor all ones, whatever the hash.\<close>

theorem host_at_inside:
  assumes "pool_wf p" "unat (pl_prefix_len p) \<le> 127"
  shows "in_pool p (host_at p h)
     \<and> (unat (pl_prefix_len p) \<le> 126 \<longrightarrow>
          host_part p (host_at p h) \<noteq> 0 \<and> host_part p (host_at p h) \<noteq> mask (host_bits p))"
proof -
  have "unat (pl_prefix_len p) \<le> 126 \<Longrightarrow> (mask (host_bits p) :: u128) \<noteq> 1"
    by (rule mask_not_1) (simp add: host_bits_def)
  then show ?thesis
    using host_at_in_pool [OF assms] adjusted_not_reserved by metis
qed

theorem host_at_inside_witness:
  "let p = \<lparr>pl_prefix = 0x20010db8000a * 2 ^ 80, pl_prefix_len = 64\<rparr>
   in in_pool p (host_at p 0) \<and> host_part p (host_at p 0) \<noteq> 0"
  using host_at_inside [of "\<lparr>pl_prefix = 0x20010db8000a * 2 ^ 80, pl_prefix_len = 64\<rparr>" 0]
    example_pool_wf by (simp add: Let_def)

text \<open>In a pool of at most 64 prefix bits the host part is the hash itself, so two hashes other
  than the reserved values 0 and \<open>u64::MAX\<close> never share an outgoing address.\<close>

theorem host_at_injective:
  assumes "pool_wf p" "unat (pl_prefix_len p) \<le> 64"
    and "h \<noteq> 0" "h \<noteq> not 0" "g \<noteq> 0" "g \<noteq> not 0"
  shows "host_part p (host_at p h) = ucast h \<and> (host_at p h = host_at p g \<longleftrightarrow> h = g)"
proof -
  have k: "64 \<le> host_bits p" using assms(2) by (simp add: host_bits_def)
  have "host_part p (host_at p x) = ucast x" if "x \<noteq> 0" "x \<noteq> not 0" for x
    using host_at_in_pool(2) [OF assms(1), of x] assms(2) take_bit_ucast_hash [OF k]
      adjusted_hash [OF k that] by simp
  then show ?thesis using assms(3-6) ucast_hash_inject by metis
qed

theorem host_at_injective_witness:
  "let p = \<lparr>pl_prefix = 0x20010db8000a * 2 ^ 80, pl_prefix_len = 64\<rparr>
   in host_part p (host_at p 5) = 5 \<and> host_at p 5 \<noteq> host_at p 6"
  using host_at_injective [of "\<lparr>pl_prefix = 0x20010db8000a * 2 ^ 80, pl_prefix_len = 64\<rparr>" 5 6]
    example_pool_wf by (simp add: Let_def)

text \<open>A pool of a single address (prefix length 128) does not yield that address: every hash gives
  the prefix with its lowest bit set, which lies outside the pool when the address is even.\<close>

theorem host_at_single_address:
  assumes "pl_prefix_len p = 128"
  shows "host_at p h = or (pl_prefix p) 1 \<and> (in_pool p (host_at p h) \<longleftrightarrow> bit (pl_prefix p) 0)"
proof -
  have k: "host_bits p = 0" using assms by (simp add: host_bits_def)
  have h: "host_at p h = or (pl_prefix p) 1"
    using assms k by (simp add: host_at_eq adjusted_def)
  have "or (pl_prefix p) 1 = pl_prefix p \<longleftrightarrow> bit (pl_prefix p) 0"
  proof
    assume eq: "or (pl_prefix p) 1 = pl_prefix p"
    have "bit (or (pl_prefix p) 1) 0" by (simp add: bit_or_iff)
    then show "bit (pl_prefix p) 0" unfolding eq .
  next
    assume "bit (pl_prefix p) 0"
    then show "or (pl_prefix p) 1 = pl_prefix p"
      by (intro bit_word_eqI) (auto simp: bit_or_iff bit_1_iff)
  qed
  then show ?thesis using h k by (simp add: in_pool_def)
qed

theorem host_at_single_address_witness:
  "\<not> in_pool \<lparr>pl_prefix = 4, pl_prefix_len = 128\<rparr>
     (host_at \<lparr>pl_prefix = 4, pl_prefix_len = 128\<rparr> 9)"
  using host_at_single_address [of "\<lparr>pl_prefix = 4, pl_prefix_len = 128\<rparr>" 9]
  by (metis bit_numeral_simps(2) bit_0 even_numeral v6_pool.select_convs)

text \<open>Where traffic of a pool leaves from: an address of the pool, or for a pool of a single address the
  prefix with its lowest bit set.\<close>

definition leaves_from :: "v6_pool \<Rightarrow> u128 \<Rightarrow> bool" where
  "leaves_from p a \<longleftrightarrow> (if pl_prefix_len p = 128 then a = or (pl_prefix p) 1 else in_pool p a)"

lemma host_at_leaves_from:
  assumes "pool_wf p"
  shows "leaves_from p (host_at p h)"
proof (cases "pl_prefix_len p = 128")
  case True
  then show ?thesis using host_at_single_address by (simp add: leaves_from_def)
next
  case False
  have "unat (pl_prefix_len p) \<noteq> 128" using False by (simp add: word_unat_eq_iff)
  moreover have "unat (pl_prefix_len p) \<le> 128" using assms by (simp add: pool_wf_def word_le_nat_alt)
  ultimately have "unat (pl_prefix_len p) \<le> 127" by linarith
  then show ?thesis using host_at_in_pool(1) assms False by (simp add: leaves_from_def)
qed

text \<open>With at least one pool an outgoing address is always found, without a panic, and it is one from
  which traffic of a pool leaves.\<close>

theorem pick_outgoing_in_pool:
  assumes "pools \<noteq> []" "\<forall>p \<in> set pools. pool_wf p"
  shows "\<exists>a. pick_outgoing sip pools b src dst sp dp = Some (Some a) \<and> (\<exists>p \<in> set pools. leaves_from p a)"
proof -
  obtain p h where "p \<in> set pools"
    "pick_outgoing sip pools b src dst sp dp = Some (Some (host_at p h))"
    using pick_outgoing_cases [OF assms(1)] by metis
  with assms(2) host_at_leaves_from show ?thesis by blast
qed

theorem pick_outgoing_in_pool_witness:
  "\<exists>a. pick_outgoing (\<lambda>k0 k1 xs. k0 + of_nat (length xs))
     [\<lparr>pl_prefix = 0x20010db8000a * 2 ^ 80, pl_prefix_len = 64\<rparr>]
     \<lparr>bd_policy = SrcIp, bd_seed = 7, bd_updated_at = 0\<rparr> (IpV4 1) (IpV4 2) 3 4 = Some (Some a)"
  using pick_outgoing_in_pool [of "[\<lparr>pl_prefix = 0x20010db8000a * 2 ^ 80, pl_prefix_len = 64\<rparr>]"]
    example_pool_wf by fastforce

text \<open>The outgoing address is sticky as the policy says: under \<open>src_ip\<close> it depends on the source
  address alone, under \<open>src_dst\<close> not on the ports, and under no policy on the time of the binding.\<close>

theorem pick_outgoing_sticky:
  "(bd_policy b = SrcIp \<longrightarrow>
      pick_outgoing sip pools b src dst sp dp = pick_outgoing sip pools b src dst' sp' dp')
   \<and> (bd_policy b = SrcDst \<longrightarrow>
      pick_outgoing sip pools b src dst sp dp = pick_outgoing sip pools b src dst sp' dp')
   \<and> pick_outgoing sip pools (b\<lparr>bd_updated_at := t\<rparr>) src dst sp dp
      = pick_outgoing sip pools b src dst sp dp"
  by (auto intro!: pick_outgoing_hashed)

theorem pick_outgoing_sticky_witness:
  "let b = \<lparr>bd_policy = SrcIp, bd_seed = 7, bd_updated_at = 0\<rparr>;
       sip = (\<lambda>k0 k1 xs. k0 + of_nat (length xs));
       pools = [\<lparr>pl_prefix = 0x20010db8000a * 2 ^ 80, pl_prefix_len = 64\<rparr>]
   in pick_outgoing sip pools b (IpV4 1) (IpV4 2) 3 4 = pick_outgoing sip pools b (IpV4 1) (IpV6 9) 5 6"
  unfolding Let_def using pick_outgoing_sticky
    [of "\<lparr>bd_policy = SrcIp, bd_seed = 7, bd_updated_at = 0\<rparr>"] by (metis binding.select_convs(1))

end
