(* ===== verification/Sni.thy ===== *)
theory Sni
  imports RustStr
begin

text \<open>
  The host name that a client announces (\<open>src/dataplane/sni.rs\<close>): the server name of a TLS
  ClientHello and the \<open>Host\<close> header of an HTTP/1 request. Every index and slice of the source is a
  checked read here (\<open>idx\<close>, \<open>subslice\<close>), so a read out of range would be a panic of the model.
\<close>

section \<open>TLS\<close>

function sni_names :: "bytes \<Rightarrow> nat \<Rightarrow> nat \<Rightarrow> string option run" where
  "sni_names data end_pos pos =
     (if pos + 3 \<le> end_pos then do {
        name_type \<leftarrow> idx data pos;
        hi \<leftarrow> idx data (pos + 1);
        lo \<leftarrow> idx data (pos + 2);
        let name_len = unat (u16_from_be_bytes hi lo);
        let pos = pos + 3;
        if name_type = 0 \<and> pos + name_len \<le> end_pos then do {
          name \<leftarrow> subslice data pos (pos + name_len);
          ret (from_utf8 name)
        } else sni_names data end_pos (pos + name_len)
      } else ret None)"
  by pat_completeness auto
termination
  by (relation "measure (\<lambda>(data, end_pos, pos). end_pos - pos)") auto

declare sni_names.simps [simp del]

definition parse_sni_extension :: "bytes \<Rightarrow> string option run" where
  "parse_sni_extension data =
     (if length data < 2 then ret None
      else do {
        hi \<leftarrow> idx data 0;
        lo \<leftarrow> idx data 1;
        let list_len = unat (u16_from_be_bytes hi lo);
        let end_pos = min (2 + list_len) (length data);
        sni_names data end_pos 2
      })"

function sni_extensions :: "bytes \<Rightarrow> nat \<Rightarrow> nat \<Rightarrow> string option run" where
  "sni_extensions ch ext_end pos =
     (if pos + 4 \<le> ext_end then do {
        a \<leftarrow> idx ch pos;
        b \<leftarrow> idx ch (pos + 1);
        c \<leftarrow> idx ch (pos + 2);
        d \<leftarrow> idx ch (pos + 3);
        let ext_type = u16_from_be_bytes a b;
        let ext_data_len = unat (u16_from_be_bytes c d);
        let pos = pos + 4;
        if ext_type = 0 then do {
          ext \<leftarrow> subslice ch pos (min (pos + ext_data_len) ext_end);
          parse_sni_extension ext
        } else sni_extensions ch ext_end (pos + ext_data_len)
      } else ret None)"
  by pat_completeness auto
termination
  by (relation "measure (\<lambda>(ch, ext_end, pos). ext_end - pos)") auto

declare sni_extensions.simps [simp del]

text \<open>From the session identifier on (\<open>pos\<close> is 34): its length, the cipher suites, the compression
  methods, the extensions.\<close>

definition sni_of_client_hello :: "bytes \<Rightarrow> string option run" where
  "sni_of_client_hello ch =
     (if length ch < 34 then ret None
      else
        let pos = 34 in
        if length ch \<le> pos then ret None
        else do {
          sid_len \<leftarrow> idx ch pos;
          let pos = pos + (1 + unat sid_len);
          if length ch < pos + 2 then ret None
          else do {
            a \<leftarrow> idx ch pos;
            b \<leftarrow> idx ch (pos + 1);
            let cs_len = unat (u16_from_be_bytes a b);
            let pos = pos + (2 + cs_len);
            if length ch \<le> pos then ret None
            else do {
              cm_len \<leftarrow> idx ch pos;
              let pos = pos + (1 + unat cm_len);
              if length ch < pos + 2 then ret None
              else do {
                c \<leftarrow> idx ch pos;
                d \<leftarrow> idx ch (pos + 1);
                let ext_len = unat (u16_from_be_bytes c d);
                let pos = pos + 2;
                let ext_end = min (pos + ext_len) (length ch);
                sni_extensions ch ext_end pos
              }
            }
          }
        })"

definition extract_tls_sni_from_handshake :: "bytes \<Rightarrow> string option run" where
  "extract_tls_sni_from_handshake handshake =
     (if handshake = [] then ret None
      else do {
        hs_type \<leftarrow> idx handshake 0;
        if hs_type \<noteq> 0x01 then ret None
        else if length handshake < 4 then ret None
        else do {
          a \<leftarrow> idx handshake 1;
          b \<leftarrow> idx handshake 2;
          c \<leftarrow> idx handshake 3;
          let hs_len = unat (u32_from_be_bytes 0 a b c);
          ch \<leftarrow> subslice handshake 4 (min (4 + hs_len) (length handshake));
          sni_of_client_hello ch
        }
      })"

definition extract_tls_sni :: "bytes \<Rightarrow> string option run" where
  "extract_tls_sni data =
     (if length data < 5 then ret None
      else do {
        content_type \<leftarrow> idx data 0;
        if content_type \<noteq> 0x16 then ret None
        else do {
          a \<leftarrow> idx data 3;
          b \<leftarrow> idx data 4;
          let record_len = unat (u16_from_be_bytes a b);
          handshake \<leftarrow> subslice data 5 (min (5 + record_len) (length data));
          extract_tls_sni_from_handshake handshake
        }
      })"

section \<open>HTTP\<close>

definition strip_host_port :: "string \<Rightarrow> string" where
  "strip_host_port host =
     (case strip_prefix ''['' host of
        Some rest \<Rightarrow> (case find_char (CHR '']'') rest of Some e \<Rightarrow> take e rest | None \<Rightarrow> host)
      | None \<Rightarrow>
          (case rfind_char (CHR '':'') host of
             Some i \<Rightarrow> if count_char (CHR '':'') host = 1 then take i host else host
           | None \<Rightarrow> host))"

fun host_header :: "string list \<Rightarrow> string option" where
  "host_header [] = None"
| "host_header (line # ls) =
     (if line = [] then None
      else (case (case strip_prefix ''Host:'' line of
                    Some v \<Rightarrow> Some v | None \<Rightarrow> strip_prefix ''host:'' line) of
              Some v \<Rightarrow> Some (strip_host_port (trim v))
            | None \<Rightarrow> host_header ls))"

definition extract_http_host :: "bytes \<Rightarrow> string option" where
  "extract_http_host data =
     (case from_utf8 data of
        None \<Rightarrow> None
      | Some txt \<Rightarrow> host_header (drop 1 (str_lines txt)))"

section \<open>Peeking\<close>

text \<open>The outcome of \<open>peek\<close> under its timeout: the first bytes of the stream, at most 16384.\<close>

datatype peek_outcome = Peeked bytes | PeekTimeout | PeekFailed

datatype peek_error = PeekTimeoutError | PeekFailedError

definition peek_buf_size :: nat where
  "peek_buf_size = 16384"

definition peek_sni_or_host ::
  "peek_outcome \<Rightarrow> u16 \<Rightarrow> (peek_error + bytes \<times> string option) run" where
  "peek_sni_or_host outcome local_port =
     (case outcome of
        PeekTimeout \<Rightarrow> ret (Inl PeekTimeoutError)
      | PeekFailed \<Rightarrow> ret (Inl PeekFailedError)
      | Peeked stream \<Rightarrow>
          (let data = take peek_buf_size stream in
           if local_port = 443
           then do { sni \<leftarrow> extract_tls_sni data; ret (Inr (data, sni)) }
           else ret (Inr (data, extract_http_host data))))"

section \<open>No panic, and a name of the input\<close>

text \<open>What the parsers owe: no panic, and a name that is a part of the input of at most 65535 bytes.\<close>

definition name_of :: "bytes \<Rightarrow> string option run \<Rightarrow> bool" where
  "name_of data r \<longleftrightarrow>
     (\<exists>x. r = Some x \<and> (\<forall>name. x = Some name \<longrightarrow>
        (\<exists>bs. sublist bs data \<and> utf8_valid bs \<and> name = str_of_bytes bs \<and> length name \<le> 65535)))"

lemma name_of_None [simp]: "name_of data (Some None)"
  by (simp add: name_of_def)

lemma name_of_mono:
  assumes "name_of xs r" "sublist xs ys"
  shows "name_of ys r"
proof -
  have "sublist bs xs \<Longrightarrow> sublist bs ys" for bs
    using assms(2) sublist_order.order.trans by blast
  then show ?thesis using assms(1) unfolding name_of_def by blast
qed

lemma sublist_take_drop: "sublist (take n (drop m xs)) xs"
  by (meson sublist_drop sublist_order.order.trans sublist_take)

lemma name_of_from_utf8:
  "sublist bs data \<Longrightarrow> length bs \<le> 65535 \<Longrightarrow> name_of data (Some (from_utf8 bs))"
  by (auto simp: name_of_def from_utf8_def str_of_bytes_def)

lemma sni_names_stop: "end_pos < pos + 3 \<Longrightarrow> sni_names data end_pos pos = Some None"
  by (subst sni_names.simps) simp

lemma sni_names_step:
  assumes "pos + 3 \<le> end_pos" "end_pos \<le> length data"
    and n: "n = unat (u16_from_be_bytes (data ! (pos + 1)) (data ! (pos + 2)))"
  shows "sni_names data end_pos pos =
    (if data ! pos = 0 \<and> pos + 3 + n \<le> end_pos
     then Some (from_utf8 (take n (drop (pos + 3) data)))
     else sni_names data end_pos (pos + 3 + n))"
proof -
  have r: "idx data pos = Some (data ! pos)" "idx data (Suc pos) = Some (data ! Suc pos)"
    "idx data (Suc (Suc pos)) = Some (data ! Suc (Suc pos))"
    using assms by (simp_all add: idx_in_range)
  have "subslice data (pos + 3) (pos + 3 + n) = Some (take n (drop (pos + 3) data))"
    if "pos + 3 + n \<le> end_pos" using that assms(2) by (simp add: subslice_in_range)
  then show ?thesis
    unfolding n using assms(1) by (subst sni_names.simps) (simp add: r Let_def)
qed

lemma sni_names_name_of: "end_pos \<le> length data \<Longrightarrow> name_of data (sni_names data end_pos pos)"
proof (induction "end_pos - pos" arbitrary: pos rule: less_induct)
  case less
  show ?case
  proof (cases "pos + 3 \<le> end_pos")
    case True
    define n where "n = unat (u16_from_be_bytes (data ! (pos + 1)) (data ! (pos + 2)))"
    have "n \<le> 65535" unfolding n_def by (rule u16_from_be_bytes_le)
    then have "name_of data (Some (from_utf8 (take n (drop (pos + 3) data))))"
      by (intro name_of_from_utf8 sublist_take_drop) simp
    moreover have "name_of data (sni_names data end_pos (pos + 3 + n))"
      using less True by simp
    ultimately show ?thesis
      unfolding sni_names_step [OF True less.prems n_def] by (rule if_split [THEN iffD2, OF conjI, OF impI impI])
  qed (simp add: sni_names_stop)
qed

definition u16_at :: "bytes \<Rightarrow> nat \<Rightarrow> nat" where
  "u16_at bs i = unat (u16_from_be_bytes (bs ! i) (bs ! (i + 1)))"

lemma u16_at_le: "u16_at bs i \<le> 65535"
  unfolding u16_at_def by (rule u16_from_be_bytes_le)

lemma parse_sni_extension_eq:
  "parse_sni_extension data =
     (if length data < 2 then Some None
      else sni_names data (min (2 + u16_at data 0) (length data)) 2)"
proof (cases "length data < 2")
  case False
  then have "0 < length data" "1 < length data" by auto
  then show ?thesis by (simp add: parse_sni_extension_def idx_def u16_at_def)
qed (simp add: parse_sni_extension_def)

lemma parse_sni_extension_name_of: "name_of data (parse_sni_extension data)"
  by (simp add: parse_sni_extension_eq sni_names_name_of)

lemma sni_extensions_stop: "ext_end < pos + 4 \<Longrightarrow> sni_extensions ch ext_end pos = Some None"
  by (subst sni_extensions.simps) simp

lemma sni_extensions_step:
  assumes "pos + 4 \<le> ext_end" "ext_end \<le> length ch"
  shows "sni_extensions ch ext_end pos =
    (if u16_at ch pos = 0
     then parse_sni_extension (take (min (u16_at ch (pos + 2)) (ext_end - (pos + 4))) (drop (pos + 4) ch))
     else sni_extensions ch ext_end (pos + 4 + u16_at ch (pos + 2)))"
proof -
  have r: "idx ch pos = Some (ch ! pos)" "idx ch (Suc pos) = Some (ch ! Suc pos)"
    "idx ch (Suc (Suc pos)) = Some (ch ! Suc (Suc pos))" "idx ch (pos + 3) = Some (ch ! (pos + 3))"
    using assms by (simp_all add: idx_in_range)
  have three: "Suc (Suc (Suc pos)) = pos + 3" by simp
  have sub: "subslice ch (pos + 4) (min (pos + 4 + m) ext_end)
      = Some (take (min m (ext_end - (pos + 4))) (drop (pos + 4) ch))" for m
    using assms by (simp add: subslice_in_range min_def)
  have zero: "u16_from_be_bytes a b = 0 \<longleftrightarrow> unat (u16_from_be_bytes a b) = 0" for a b
    by (simp add: unat_eq_0)
  show ?thesis
    using assms(1)
    by (subst sni_extensions.simps) (simp add: r sub u16_at_def Let_def zero three)
qed

lemma sni_extensions_name_of: "ext_end \<le> length ch \<Longrightarrow> name_of ch (sni_extensions ch ext_end pos)"
proof (induction "ext_end - pos" arbitrary: pos rule: less_induct)
  case less
  show ?case
  proof (cases "pos + 4 \<le> ext_end")
    case True
    have "name_of ch (parse_sni_extension
        (take (min (u16_at ch (pos + 2)) (ext_end - (pos + 4))) (drop (pos + 4) ch)))"
      by (rule name_of_mono [OF parse_sni_extension_name_of sublist_take_drop])
    moreover have "name_of ch (sni_extensions ch ext_end (pos + 4 + u16_at ch (pos + 2)))"
      using less True by simp
    ultimately show ?thesis
      unfolding sni_extensions_step [OF True less.prems] by (rule if_split [THEN iffD2, OF conjI, OF impI impI])
  qed (simp add: sni_extensions_stop)
qed

text \<open>The position of the extensions in a ClientHello, and the whole walk without the checked reads.\<close>

definition u8_at :: "bytes \<Rightarrow> nat \<Rightarrow> nat" where
  "u8_at bs i = unat (bs ! i)"

lemma sni_of_client_hello_eq:
  "sni_of_client_hello ch =
     (if length ch \<le> 34 then Some None
      else let p1 = 35 + u8_at ch 34 in
        if length ch < p1 + 2 then Some None
        else let p2 = p1 + 2 + u16_at ch p1 in
          if length ch \<le> p2 then Some None
          else let p3 = p2 + 1 + u8_at ch p2 in
            if length ch < p3 + 2 then Some None
            else sni_extensions ch (min (p3 + 2 + u16_at ch p3) (length ch)) (p3 + 2))"
  by (simp add: sni_of_client_hello_def Let_def idx_in_range u8_at_def u16_at_def add.assoc add.left_commute)

lemma sni_of_client_hello_name_of: "name_of ch (sni_of_client_hello ch)"
  unfolding sni_of_client_hello_eq Let_def
  by (simp add: sni_extensions_name_of)

lemma handshake_eq:
  "extract_tls_sni_from_handshake hs =
     (if hs = [] \<or> hs ! 0 \<noteq> 1 \<or> length hs < 4 then Some None
      else sni_of_client_hello (take (unat (u32_from_be_bytes 0 (hs ! 1) (hs ! 2) (hs ! 3))) (drop 4 hs)))"
proof -
  have "take (min (4 + n) (length hs) - 4) (drop 4 hs) = take n (drop 4 hs)" for n
    by (simp add: min_def)
  then show ?thesis
    by (simp add: extract_tls_sni_from_handshake_def idx_in_range subslice_in_range)
qed

lemma handshake_name_of: "name_of hs (extract_tls_sni_from_handshake hs)"
  unfolding handshake_eq
  using name_of_mono [OF sni_of_client_hello_name_of sublist_take_drop] by simp

lemma tls_eq:
  "extract_tls_sni data =
     (if length data < 5 \<or> data ! 0 \<noteq> 0x16 then Some None
      else extract_tls_sni_from_handshake (take (u16_at data 3) (drop 5 data)))"
proof -
  have "take (min (5 + n) (length data) - 5) (drop 5 data) = take n (drop 5 data)" for n
    by (simp add: min_def)
  then show ?thesis
    by (cases "length data < 5") (auto simp: extract_tls_sni_def idx_def subslice_in_range u16_at_def)
qed

lemma tls_name_of: "name_of data (extract_tls_sni data)"
  unfolding tls_eq using name_of_mono [OF handshake_name_of sublist_take_drop] by simp

section \<open>The wire format\<close>

text \<open>
  A ClientHello as RFC 8446 writes it, without reference to the parser: 34 bytes of version and
  random, the session identifier, the cipher suites, the compression methods and the extensions,
  each a type and its data; the server name extension holds a list with one host name.
\<close>

definition len16 :: "bytes \<Rightarrow> bytes" where
  "len16 bs = be_bytes16 (of_nat (length bs)) @ bs"

definition len8 :: "bytes \<Rightarrow> bytes" where
  "len8 bs = of_nat (length bs) # bs"

definition encode_extension :: "u16 \<times> bytes \<Rightarrow> bytes" where
  "encode_extension e = be_bytes16 (fst e) @ len16 (snd e)"

definition server_name_data :: "bytes \<Rightarrow> bytes" where
  "server_name_data name = len16 (0 # len16 name)"

record client_hello =
  ch_start :: bytes
  ch_session :: bytes
  ch_ciphers :: bytes
  ch_compression :: bytes
  ch_extensions :: "(u16 \<times> bytes) list"

definition encode_hello :: "client_hello \<Rightarrow> bytes" where
  "encode_hello h =
     ch_start h @ len8 (ch_session h) @ len16 (ch_ciphers h) @ len8 (ch_compression h)
     @ len16 (concat (map encode_extension (ch_extensions h)))"

definition encode_handshake :: "bytes \<Rightarrow> bytes" where
  "encode_handshake body =
     (let n = (of_nat (length body) :: u32)
      in [1, ucast (drop_bit 16 n), ucast (drop_bit 8 n), ucast n] @ body)"

definition encode_record :: "bytes \<Rightarrow> bytes" where
  "encode_record hs = [0x16, 3, 1] @ len16 hs"

definition hello_wf :: "client_hello \<Rightarrow> bool" where
  "hello_wf h \<longleftrightarrow>
     length (ch_start h) = 34 \<and> length (ch_session h) \<le> 255 \<and> length (ch_ciphers h) \<le> 65535
     \<and> length (ch_compression h) \<le> 255
     \<and> length (concat (map encode_extension (ch_extensions h))) \<le> 65535"

lemma u16_at_append [simp]: "u16_at (xs @ ys) (length xs + i) = u16_at ys i"
  by (simp add: u16_at_def nth_append)

lemma u8_at_append [simp]: "u8_at (xs @ ys) (length xs + i) = u8_at ys i"
  by (simp add: u8_at_def nth_append)

lemma u16_at_be_bytes: "u16_at (be_bytes16 w @ ys) 0 = unat w"
  by (simp add: u16_at_def be_bytes16_def u16_be_roundtrip)

lemma u16_at_len16: "length bs \<le> 65535 \<Longrightarrow> u16_at (len16 bs @ ys) 0 = length bs"
  by (simp add: len16_def u16_at_be_bytes unat_of_nat)

lemma u8_at_len8: "length bs \<le> 255 \<Longrightarrow> u8_at (len8 bs @ ys) 0 = length bs"
  by (simp add: len8_def u8_at_def unat_of_nat)

lemma length_len16 [simp]: "length (len16 bs) = 2 + length bs"
  by (simp add: len16_def)

lemma length_len8 [simp]: "length (len8 bs) = 1 + length bs"
  by (simp add: len8_def)

lemma length_encode_extension [simp]: "length (encode_extension e) = 4 + length (snd e)"
  by (simp add: encode_extension_def)

text \<open>One extension more in front: the walk over it.\<close>

lemma sni_extensions_encode:
  assumes fit: "length (snd e) \<le> 65535"
  shows "sni_extensions (xs @ encode_extension e @ ys) (length xs + (4 + length (snd e) + length ys)) (length xs)
    = (if fst e = 0 then parse_sni_extension (snd e)
       else sni_extensions ((xs @ encode_extension e) @ ys)
          (length (xs @ encode_extension e) + length ys) (length (xs @ encode_extension e)))"
proof -
  let ?ch = "xs @ encode_extension e @ ys" and ?n = "length (snd e)"
  let ?stop = "length xs + (4 + length (snd e) + length ys)"
  have bounds: "length xs + 4 \<le> ?stop" "?stop \<le> length ?ch" by simp_all
  have "u16_at ?ch (length xs + 0) = unat (fst e)"
    unfolding u16_at_append by (simp add: encode_extension_def u16_at_be_bytes)
  then have type: "u16_at ?ch (length xs) = unat (fst e)" by simp
  have "encode_extension e @ ys = be_bytes16 (fst e) @ len16 (snd e) @ ys"
    by (simp add: encode_extension_def)
  then have "u16_at (encode_extension e @ ys) (length (be_bytes16 (fst e)) + 0) = ?n"
    unfolding u16_at_append by (simp only: u16_at_append u16_at_len16 [OF fit])
  then have "u16_at (encode_extension e @ ys) 2 = ?n" by simp
  then have len: "u16_at ?ch (length xs + 2) = ?n" unfolding u16_at_append .
  have "drop (length xs + 4) ?ch = snd e @ ys"
    by (simp add: encode_extension_def len16_def be_bytes16_def)
  then have data: "take (min ?n (?stop - (length xs + 4))) (drop (length xs + 4) ?ch) = snd e"
    by simp
  show ?thesis
    unfolding sni_extensions_step [OF bounds] type len data
    by (simp add: unat_eq_0 ac_simps)
qed

lemma sni_extensions_list:
  assumes "\<forall>e \<in> set pre. fst e \<noteq> 0 \<and> length (snd e) \<le> 65535" "length sni \<le> 65535"
  shows "sni_extensions (xs @ concat (map encode_extension (pre @ (0, sni) # post)))
      (length xs + length (concat (map encode_extension (pre @ (0, sni) # post)))) (length xs)
    = parse_sni_extension sni"
  using assms(1)
proof (induction pre arbitrary: xs)
  case Nil
  show ?case
    using sni_extensions_encode [of "(0, sni)" xs "concat (map encode_extension post)"] assms(2)
    by simp
next
  case (Cons e pre)
  let ?rest = "concat (map encode_extension (pre @ (0, sni) # post))"
  have "sni_extensions (xs @ encode_extension e @ ?rest)
        (length xs + (4 + length (snd e) + length ?rest)) (length xs)
      = sni_extensions ((xs @ encode_extension e) @ ?rest)
          (length (xs @ encode_extension e) + length ?rest) (length (xs @ encode_extension e))"
    using sni_extensions_encode [of e xs ?rest] Cons.prems by simp
  also have "\<dots> = parse_sni_extension sni"
    using Cons.prems by (intro Cons.IH) simp
  finally show ?case by (simp add: ac_simps)
qed

lemma parse_server_name:
  assumes "length name \<le> 65530"
  shows "parse_sni_extension (server_name_data name) = Some (from_utf8 name)"
proof -
  let ?d = "server_name_data name"
  have len: "length ?d = 5 + length name" by (simp add: server_name_data_def)
  have list_len: "u16_at ?d 0 = 3 + length name"
    using assms u16_at_len16 [of "0 # len16 name" "[]"] by (simp add: server_name_data_def)
  have zero: "?d ! 2 = 0" by (simp add: server_name_data_def len16_def be_bytes16_def)
  have "u16_at ?d 3 = length name"
    using assms u16_at_len16 [of name "[]"]
      u16_at_append [of "be_bytes16 (of_nat (length (0 # len16 name))) @ [0]" "len16 name" 0]
    by (simp add: server_name_data_def len16_def [of "0 # len16 name"])
  then have n: "length name = unat (u16_from_be_bytes (?d ! (2 + 1)) (?d ! (2 + 2)))"
    by (simp add: u16_at_def)
  have rest: "drop 5 ?d = name" by (simp add: server_name_data_def len16_def be_bytes16_def)
  have "sni_names ?d (5 + length name) 2 = Some (from_utf8 name)"
    using sni_names_step [of 2 "5 + length name" ?d, OF _ _ n] len zero rest by simp
  then show ?thesis by (simp add: parse_sni_extension_eq len list_len)
qed

lemma sni_of_encode_hello:
  assumes wf: "hello_wf h" and ext: "ch_extensions h = pre @ (0, server_name_data name) # post"
    and pre: "\<forall>e \<in> set pre. fst e \<noteq> 0"
  shows "sni_of_client_hello (encode_hello h) = Some (from_utf8 name)"
proof -
  let ?E = "concat (map encode_extension (ch_extensions h))"
  let ?a = "ch_start h" and ?b = "len8 (ch_session h)" and ?c = "len16 (ch_ciphers h)"
    and ?d = "len8 (ch_compression h)"
  have lens: "length ?a = 34" "length (ch_session h) \<le> 255" "length (ch_ciphers h) \<le> 65535"
    "length (ch_compression h) \<le> 255" "length ?E \<le> 65535"
    using wf by (auto simp: hello_wf_def)
  have all: "length (concat (map encode_extension es)) \<ge> length (encode_extension e)"
    if "e \<in> set es" for e es
    using that by (induction es) auto
  have ext_len: "length (snd e) \<le> 65535" if "e \<in> set (ch_extensions h)" for e
    using all [OF that] lens(5) by simp
  have name: "length name \<le> 65530"
  proof -
    have "length (server_name_data name) \<le> 65531"
      using all [of "(0, server_name_data name)" "ch_extensions h"] ext lens(5) by simp
    then show ?thesis by (simp add: server_name_data_def)
  qed
  let ?ch = "encode_hello h"
  let ?p1 = "35 + length (ch_session h)"
  let ?p2 = "?p1 + 2 + length (ch_ciphers h)"
  let ?p3 = "?p2 + 1 + length (ch_compression h)"
  have total: "length ?ch = ?p3 + 2 + length ?E" using lens(1) by (simp add: encode_hello_def)
  have ch: "?ch = ?a @ ?b @ (?c @ ?d @ len16 ?E)" "?ch = (?a @ ?b) @ ?c @ (?d @ len16 ?E)"
    "?ch = (?a @ ?b @ ?c) @ ?d @ len16 ?E" "?ch = (?a @ ?b @ ?c @ ?d) @ len16 ?E @ []"
    "?ch = (?a @ ?b @ ?c @ ?d @ be_bytes16 (of_nat (length ?E))) @ ?E"
    by (simp_all add: encode_hello_def len16_def)
  have pos: "length ?a = 34" "length (?a @ ?b) = ?p1" "length (?a @ ?b @ ?c) = ?p2"
    "length (?a @ ?b @ ?c @ ?d) = ?p3"
    "length (?a @ ?b @ ?c @ ?d @ be_bytes16 (of_nat (length ?E))) = ?p3 + 2"
    using lens(1) by simp_all
  have sid: "u8_at ?ch 34 = length (ch_session h)"
    using u8_at_append [of ?a "?b @ (?c @ ?d @ len16 ?E)" 0] u8_at_len8 [OF lens(2)]
    by (simp add: ch(1) pos(1))
  have cs: "u16_at ?ch ?p1 = length (ch_ciphers h)"
    using u16_at_append [of "?a @ ?b" "?c @ (?d @ len16 ?E)" 0] u16_at_len16 [OF lens(3)]
    unfolding ch(2) pos(2) by simp
  have cm: "u8_at ?ch ?p2 = length (ch_compression h)"
    using u8_at_append [of "?a @ ?b @ ?c" "?d @ len16 ?E" 0] u8_at_len8 [OF lens(4)]
    unfolding ch(3) pos(3) by simp
  have el: "u16_at ?ch ?p3 = length ?E"
    using u16_at_append [of "?a @ ?b @ ?c @ ?d" "len16 ?E @ []" 0] u16_at_len16 [OF lens(5), of "[]"]
    unfolding ch(4) pos(4) by simp
  have pre_ok: "\<forall>e \<in> set pre. fst e \<noteq> 0 \<and> length (snd e) \<le> 65535"
    using pre ext_len ext by simp
  have name_ok: "length (server_name_data name) \<le> 65535" using name by (simp add: server_name_data_def)
  have walk: "sni_extensions ?ch (?p3 + 2 + length ?E) (?p3 + 2) = parse_sni_extension (server_name_data name)"
    unfolding ch(5) pos(5) [symmetric] ext by (rule sni_extensions_list [OF pre_ok name_ok])
  show ?thesis
    unfolding sni_of_client_hello_eq Let_def sid cs cm el total
    using walk parse_server_name [OF name] by simp
qed

lemma u24_roundtrip:
  "u32_from_be_bytes 0 (ucast (drop_bit 16 w)) (ucast (drop_bit 8 w)) (ucast w) = take_bit 24 (w :: u32)"
proof (rule bit_word_eqI)
  fix n assume "n < LENGTH(32)"
  then show "bit (u32_from_be_bytes 0 (ucast (drop_bit 16 w)) (ucast (drop_bit 8 w)) (ucast w)) n
      = bit (take_bit 24 w) n"
    by (cases "n < 8"; cases "n < 16") (auto simp: u32_from_be_bytes_def bit_simps)
qed

lemma handshake_encode:
  assumes "length body < 2 ^ 24"
  shows "extract_tls_sni_from_handshake (encode_handshake body) = sni_of_client_hello body"
proof -
  have "unat (take_bit 24 (of_nat (length body) :: u32)) = length body"
    using assms by (simp add: unsigned_take_bit_eq unat_of_nat take_bit_nat_eq_self)
  then have "unat (u32_from_be_bytes 0 (ucast (drop_bit 16 (of_nat (length body) :: u32)))
      (ucast (drop_bit 8 (of_nat (length body) :: u32))) (ucast (of_nat (length body) :: u32)))
      = length body"
    unfolding u24_roundtrip .
  then show ?thesis by (simp add: handshake_eq encode_handshake_def Let_def)
qed

lemma tls_encode:
  assumes "length hs \<le> 65535"
  shows "extract_tls_sni (encode_record hs) = extract_tls_sni_from_handshake hs"
proof -
  have "u16_at (encode_record hs) 3 = length hs"
    using u16_at_append [of "[0x16, 3, 1]" "len16 hs" 0] u16_at_len16 [OF assms, of "[]"]
    by (simp add: encode_record_def numeral_3_eq_3)
  moreover have "drop 5 (encode_record hs) = hs"
    by (simp add: encode_record_def len16_def be_bytes16_def)
  ultimately show ?thesis by (simp add: tls_eq) (simp add: encode_record_def)
qed

section \<open>Host headers\<close>

definition crlf :: "string \<Rightarrow> string" where
  "crlf l = l @ [CHR 0x0D, CHR 0x0A]"

lemma split_on_append: "c \<notin> set x \<Longrightarrow> split_on c (x @ c # y) = x # split_on c y"
  by (induction x) auto

lemma str_lines_crlf: "CHR 0x0A \<notin> set l \<Longrightarrow> str_lines (crlf l @ s) = l # str_lines s"
proof -
  assume "CHR 0x0A \<notin> set l"
  then have "split_on (CHR 0x0A) ((l @ [CHR 0x0D]) @ CHR 0x0A # s) = (l @ [CHR 0x0D]) # split_on (CHR 0x0A) s"
    by (intro split_on_append) auto
  then show ?thesis
    by (cases "split_on (CHR 0x0A) s")
       (simp_all add: str_lines_def crlf_def strip_cr_def split_on_nonempty)
qed

lemma str_lines_crlfs:
  "\<forall>l \<in> set ls. CHR 0x0A \<notin> set l \<Longrightarrow> str_lines (concat (map crlf ls) @ s) = ls @ str_lines s"
  by (induction ls) (simp_all add: str_lines_crlf)

definition other_header :: "string \<Rightarrow> bool" where
  "other_header l \<longleftrightarrow> l \<noteq> [] \<and> \<not> prefix ''Host:'' l \<and> \<not> prefix ''host:'' l"

lemma host_header_skip: "\<forall>l \<in> set ls. other_header l \<Longrightarrow> host_header (ls @ rest) = host_header rest"
  by (induction ls) (auto simp: other_header_def strip_prefix_def)

lemma host_header_found:
  "name = ''Host:'' \<or> name = ''host:'' \<Longrightarrow>
     host_header ((name @ v) # ls) = Some (strip_host_port (trim v))"
  by (auto simp: strip_prefix_def)

lemma rfind_char_None: "c \<notin> set s \<Longrightarrow> rfind_char c s = None"
  by (simp add: rfind_char_def)

lemma count_char_None: "c \<notin> set s \<Longrightarrow> count_char c s = 0"
  unfolding count_char_def by (induction s) auto

lemma strip_prefix_bracket: "strip_prefix ''['' h = None \<longleftrightarrow> h = [] \<or> hd h \<noteq> CHR ''[''"
  by (cases h) (auto simp: strip_prefix_def)

lemma strip_host_port_plain:
  "h = [] \<or> hd h \<noteq> CHR ''['' \<Longrightarrow> CHR '':'' \<notin> set h \<Longrightarrow> strip_host_port h = h"
  unfolding strip_host_port_def strip_prefix_bracket [symmetric] by (simp add: rfind_char_None)

lemma rfind_char_append: "c \<notin> set y \<Longrightarrow> rfind_char c (x @ c # y) = Some (length x)"
proof -
  assume c: "c \<notin> set y"
  then have "takeWhile (\<lambda>z. z \<noteq> c) (rev y @ c # rev x) = rev y"
    by (subst takeWhile_append2) auto
  then show ?thesis by (simp add: rfind_char_def)
qed

lemma strip_host_port_port:
  assumes "h = [] \<or> hd h \<noteq> CHR ''[''" "CHR '':'' \<notin> set h" "CHR '':'' \<notin> set p"
  shows "strip_host_port (h @ CHR '':'' # p) = h"
proof -
  have "strip_prefix ''['' (h @ CHR '':'' # p) = None"
    using assms(1) by (subst strip_prefix_bracket) (cases h; auto)
  moreover have "count_char (CHR '':'') (h @ CHR '':'' # p) = 1"
    using count_char_None [OF assms(2)] count_char_None [OF assms(3)] by (simp add: count_char_def)
  ultimately show ?thesis
    using rfind_char_append [OF assms(3), of h] by (simp add: strip_host_port_def)
qed

lemma strip_host_port_bracket: "CHR '']'' \<notin> set a \<Longrightarrow> strip_host_port (CHR ''['' # a @ CHR '']'' # r) = a"
proof -
  assume a: "CHR '']'' \<notin> set a"
  have "strip_prefix ''['' (CHR ''['' # a @ CHR '']'' # r) = Some (a @ CHR '']'' # r)"
    by (simp add: strip_prefix_def)
  moreover have "find_char (CHR '']'') (a @ CHR '']'' # r) = Some (length a)"
  proof -
    have "takeWhile (\<lambda>x. x \<noteq> CHR '']'') (a @ CHR '']'' # r) = a"
      using a by (subst takeWhile_append2) auto
    then show ?thesis by (simp add: find_char_def)
  qed
  ultimately show ?thesis by (simp add: strip_host_port_def)
qed

lemma strip_host_port_many:
  assumes "h = [] \<or> hd h \<noteq> CHR ''[''" "2 \<le> count_char (CHR '':'') h"
  shows "strip_host_port h = h"
  using assms unfolding strip_host_port_def strip_prefix_bracket [symmetric]
  by (simp split: option.splits)

lemma http_host_lines:
  assumes "from_utf8 data = Some (concat (map crlf (req # hdrs @ [name @ v])) @ rest)"
    and "name = ''Host:'' \<or> name = ''host:''" "\<forall>l \<in> set hdrs. other_header l"
    and "\<forall>l \<in> set (req # hdrs @ [name @ v]). CHR 0x0A \<notin> set l"
  shows "extract_http_host data = Some (strip_host_port (trim v))"
proof -
  have "str_lines (concat (map crlf (req # hdrs @ [name @ v])) @ rest)
      = (req # hdrs @ [name @ v]) @ str_lines rest"
    by (rule str_lines_crlfs [OF assms(4)])
  then have "extract_http_host data = host_header ((hdrs @ [name @ v]) @ str_lines rest)"
    by (simp add: extract_http_host_def assms(1) del: host_header.simps concat.simps list.map)
  also have "\<dots> = Some (strip_host_port (trim v))"
    using host_header_skip [OF assms(3)] host_header_found [OF assms(2)] by simp
  finally show ?thesis .
qed

section \<open>Properties\<close>

text \<open>C25: on every input, however truncated or malformed, the TLS parsers return without a panic, and a
  name they return is a contiguous part of the input, well-formed UTF-8 and at most 65535 bytes long
  (so the 16-bit label count of the domain matcher cannot wrap on it).\<close>

theorem tls_sni_safe:
  "name_of data (extract_tls_sni data) \<and> name_of data (extract_tls_sni_from_handshake data)"
  by (simp add: tls_name_of handshake_name_of)

text \<open>C23: the server name of every ClientHello in the wire format of the standard is found, whatever
  session identifier, cipher suites, compression methods and other extensions it has: in a TLS record
  and as the bare handshake message that QUIC carries.\<close>

theorem tls_sni_roundtrip:
  assumes "hello_wf h" "ch_extensions h = pre @ (0, server_name_data name) # post"
    and "\<forall>e \<in> set pre. fst e \<noteq> 0"
  shows "extract_tls_sni_from_handshake (encode_handshake (encode_hello h)) = Some (from_utf8 name)
    \<and> (length (encode_handshake (encode_hello h)) \<le> 65535 \<longrightarrow>
        extract_tls_sni (encode_record (encode_handshake (encode_hello h))) = Some (from_utf8 name))"
proof -
  have "length (encode_hello h) < 2 ^ 24" using assms(1) by (simp add: hello_wf_def encode_hello_def)
  then have "extract_tls_sni_from_handshake (encode_handshake (encode_hello h)) = Some (from_utf8 name)"
    using sni_of_encode_hello [OF assms] by (simp add: handshake_encode)
  then show ?thesis by (simp add: tls_encode)
qed

definition example_hello :: client_hello where
  "example_hello =
     \<lparr>ch_start = replicate 34 3, ch_session = [7], ch_ciphers = [0x13, 1], ch_compression = [0],
      ch_extensions = [(43, [2, 3, 4]), (0, server_name_data (bytes_of_str ''a.b''))]\<rparr>"

theorem tls_sni_roundtrip_witness:
  "extract_tls_sni (encode_record (encode_handshake (encode_hello example_hello))) = Some (Some ''a.b'')"
proof -
  have wf: "hello_wf example_hello"
    by (simp add: hello_wf_def example_hello_def server_name_data_def bytes_of_str_def)
  have ext: "ch_extensions example_hello = [(43, [2, 3, 4])] @ (0, server_name_data (bytes_of_str ''a.b'')) # []"
    by (simp add: example_hello_def)
  have "from_utf8 (bytes_of_str ''a.b'') = Some ''a.b''" by code_simp
  moreover have "length (encode_handshake (encode_hello example_hello)) \<le> 65535"
    by (simp add: encode_handshake_def encode_hello_def example_hello_def server_name_data_def
        bytes_of_str_def Let_def)
  ultimately show ?thesis using tls_sni_roundtrip [OF wf ext] by simp
qed



text \<open>What stripping the port does on each form of a host: a plain name is kept, a name with one
  colon loses the colon and what follows, a bracketed IPv6 literal with or without a port gives the
  literal, and a bare IPv6 literal (more than one colon) is kept.\<close>

theorem strip_host_port_forms:
  assumes "h = [] \<or> hd h \<noteq> CHR ''[''" "CHR '':'' \<notin> set h" "CHR '':'' \<notin> set p"
    and "CHR '']'' \<notin> set a" "g = [] \<or> hd g \<noteq> CHR ''[''" "2 \<le> count_char (CHR '':'') g"
  shows "strip_host_port h = h \<and> strip_host_port (h @ CHR '':'' # p) = h
    \<and> strip_host_port (CHR ''['' # a @ CHR '']'' # p) = a \<and> strip_host_port g = g"
  using assms
  by (simp only: strip_host_port_plain strip_host_port_port strip_host_port_many
      strip_host_port_bracket simp_thms)

theorem strip_host_port_forms_witness:
  "strip_host_port ''[::1]:80'' = ''::1'' \<and> strip_host_port ''a.b:80'' = ''a.b''
   \<and> strip_host_port ''::1'' = ''::1''"
  using strip_host_port_forms [of "''a.b''" "''80''" "''::1''" "''::1''"]
    strip_host_port_bracket [of "''::1''" "'':80''"]
  by (simp add: count_char_def)

end
