(* ===== verification/Forward.thy ===== *)
theory Forward
  imports AclRuntime PoolHash Sni
begin

text \<open>
  The TCP data plane (\<open>src/dataplane/tcp.rs\<close>, \<open>src/dataplane/forward.rs\<close>): the binding of a peer, the
  resolution of a destination under the egress filter, the connection from a pool address, and the
  handler that composes them. What the network does is an input: the record \<open>conn_io\<close> holds the
  outcome of each call, and, for each point where the task waits, what the other tasks did to the
  process state meanwhile. Every use of the network is an event of the trace. An IPv6 socket address
  is an address and a port; the flow label and the scope are left out.
\<close>

section \<open>Shared steps of the data plane\<close>

datatype dp_error =
  PeekError peek_error
| DnsFailed string
| NoAaaaRecord string
| EgressBlocked string
| Ipv4Rejected
| SocketFailed
| FreebindFailed
| BindFailed u128
| ConnectFailed socket_addr
| CopyFailed
| SendFailed
| LocalAddrFailed

text \<open>The binding of a peer: its own, or the default one. The arguments of \<open>debug!\<close> read the same
  cells as \<open>default_binding\<close> and change nothing more.\<close>

definition peer_binding ::
  "timestamp \<Rightarrow> ip_addr \<Rightarrow> ('net, 'a) app_scheme \<Rightarrow> binding \<times> ('net, 'a) app_scheme" where
  "peer_binding now ip s =
     (case pol_bindings (pr_policies s) ip of
        Some b \<Rightarrow> (b, s)
      | None \<Rightarrow> default_binding now s)"

text \<open>The test of the domain filter, and the count of a refusal.\<close>

definition admit_host :: "string \<Rightarrow> ('net, 'a) app_scheme \<Rightarrow> bool \<times> ('net, 'a) app_scheme" where
  "admit_host host s =
     (if host_allowed (ap_domain_filter s) host then (True, s)
      else (False, note_domain_blocked s))"

definition is_ipv6 :: "socket_addr \<Rightarrow> bool" where
  "is_ipv6 a = (case sa_ip a of IpV4 x \<Rightarrow> False | IpV6 x \<Rightarrow> True)"

definition lookup_text :: "string \<Rightarrow> u16 \<Rightarrow> string" where
  "lookup_text host port = host @ '':'' @ show_digits 5 10 (unat port)"

text \<open>\<open>resolve_dst\<close> from the point where the lookup has returned.\<close>

definition resolve_dst ::
  "'net ipnet_ops \<Rightarrow> socket_addr list option \<Rightarrow> string \<Rightarrow> ('net, 'a) app_scheme
     \<Rightarrow> (dp_error + socket_addr) \<times> ('net, 'a) app_scheme" where
  "resolve_dst ops addrs host s =
     (case addrs of
        None \<Rightarrow> (Inl (DnsFailed host), s)
      | Some addrs \<Rightarrow>
          (let v6_addrs = filter is_ipv6 addrs in
           if v6_addrs = [] then (Inl (NoAaaaRecord host), s)
           else (case find (\<lambda>a. egress_allowed ops (ap_egress_filter s) (sa_ip a)) v6_addrs of
                   Some a \<Rightarrow> (Inr a, s)
                 | None \<Rightarrow> (Inl (EgressBlocked host), note_egress_blocked s))))"

section \<open>The TCP connection\<close>

text \<open>What a task asks of the network.\<close>

datatype event =
  Lookup string
| TcpBind u128
| TcpConnect u128 socket_addr
| TcpCopy u64 u64

text \<open>
  The inputs of a connection: the clock, the bytes peeked, the answers of the resolver, whether the
  calls on the socket succeed, the byte counts of the copy, and the changes of the process state
  while the task waits for the peek and for the resolver.
\<close>

record 's conn_io =
  ci_now :: timestamp
  ci_peek :: peek_outcome
  ci_after_peek :: "'s \<Rightarrow> 's"
  ci_dns :: "string \<Rightarrow> socket_addr list option"
  ci_after_dns :: "'s \<Rightarrow> 's"
  ci_socket :: bool
  ci_freebind :: bool
  ci_bind :: bool
  ci_connect :: bool
  ci_copy :: "(u64 \<times> u64) option"

definition bind_and_connect ::
  "'s conn_io \<Rightarrow> u128 \<Rightarrow> socket_addr \<Rightarrow> (dp_error + unit) \<times> event list" where
  "bind_and_connect io src_v6 dst_addr =
     (case sa_ip dst_addr of
        IpV4 x \<Rightarrow> (Inl Ipv4Rejected, [])
      | IpV6 x \<Rightarrow>
          (if \<not> ci_socket io then (Inl SocketFailed, [])
           else if \<not> ci_freebind io then (Inl FreebindFailed, [])
           else if \<not> ci_bind io then (Inl (BindFailed src_v6), [TcpBind src_v6])
           else if \<not> ci_connect io
             then (Inl (ConnectFailed dst_addr), [TcpBind src_v6, TcpConnect src_v6 dst_addr])
           else (Inr (), [TcpBind src_v6, TcpConnect src_v6 dst_addr])))"

definition copy_bidirectional :: "'s conn_io \<Rightarrow> (dp_error + u64 \<times> u64) \<times> event list" where
  "copy_bidirectional io =
     (case ci_copy io of
        None \<Rightarrow> (Inl CopyFailed, [])
      | Some (c2u, u2c) \<Rightarrow> (Inr (c2u, u2c), [TcpCopy c2u u2c]))"

definition handle_tcp ::
  "'net ipnet_ops \<Rightarrow> hasher \<Rightarrow> v6_pool list \<Rightarrow> ('net, 'a) app_scheme conn_io \<Rightarrow> socket_addr \<Rightarrow> u16
     \<Rightarrow> ('net, 'a) app_scheme \<Rightarrow> (dp_error + unit) run \<times> event list \<times> ('net, 'a) app_scheme" where
  "handle_tcp ops sip pools io peer local_port s =
     (let (b, s1) = peer_binding (ci_now io) (sa_ip peer) s;
          s2 = ci_after_peek io s1
      in case peek_sni_or_host (ci_peek io) local_port of
           None \<Rightarrow> (panic, [], s2)
         | Some (Inl e) \<Rightarrow> (ret (Inl (PeekError e)), [], s2)
         | Some (Inr (peeked, None)) \<Rightarrow> (ret (Inr ()), [], s2)
         | Some (Inr (peeked, Some dst_host)) \<Rightarrow>
             (let (admitted, s3) = admit_host dst_host s2 in
              if \<not> admitted then (ret (Inr ()), [], s3)
              else
                let dst_port = local_port;
                    text = lookup_text dst_host dst_port;
                    (dst, s4) = resolve_dst ops (ci_dns io text) dst_host (ci_after_dns io s3)
                in case dst of
                     Inl e \<Rightarrow> (ret (Inl e), [Lookup text], s4)
                   | Inr dst_addr \<Rightarrow>
                       (case pick_outgoing sip pools b (sa_ip peer) (sa_ip dst_addr)
                               (sa_port peer) dst_port of
                          None \<Rightarrow> (panic, [Lookup text], s4)
                        | Some None \<Rightarrow> (ret (Inr ()), [Lookup text], s4)
                        | Some (Some src_v6) \<Rightarrow>
                            (let (upstream, tr) = bind_and_connect io src_v6 dst_addr in
                             case upstream of
                               Inl e \<Rightarrow> (ret (Inl e), Lookup text # tr, s4)
                             | Inr u \<Rightarrow>
                                 (let (copied, tr') = copy_bidirectional io in
                                  (ret (case copied of Inl e \<Rightarrow> Inl e | Inr n \<Rightarrow> Inr ()),
                                   Lookup text # tr @ tr', s4))))))"

text \<open>The accept loop: an error of \<open>accept\<close> is logged and the loop goes on; every accepted connection
  becomes a task of its own. The list of outcomes is what \<open>accept\<close> has returned so far.\<close>

datatype accept_outcome = Accepted socket_addr | AcceptError

fun accept_loop :: "u16 \<Rightarrow> accept_outcome list \<Rightarrow> (socket_addr \<times> u16) list" where
  "accept_loop local_port [] = []"
| "accept_loop local_port (Accepted peer # os) = (peer, local_port) # accept_loop local_port os"
| "accept_loop local_port (AcceptError # os) = accept_loop local_port os"

definition run_tcp_listener_on ::
  "socket_addr option \<Rightarrow> accept_outcome list \<Rightarrow> dp_error + (socket_addr \<times> u16) list" where
  "run_tcp_listener_on local_addr accepts =
     (case local_addr of
        None \<Rightarrow> Inl LocalAddrFailed
      | Some a \<Rightarrow> (let local_port = sa_port a in Inr (accept_loop local_port accepts)))"

section \<open>What a handler keeps\<close>

text \<open>A host name that the peek finds is short: a TLS name has a 16-bit length, an HTTP name is part of
  the bytes peeked.\<close>

lemma find_take_le: "length (take n xs) \<le> length xs"
  by simp

lemma length_strip_prefix: "strip_prefix p s = Some v \<Longrightarrow> length v \<le> length s"
  by (auto simp: strip_prefix_Some)

lemma length_strip_host_port: "length (strip_host_port h) \<le> length h"
  by (auto simp: strip_host_port_def split: option.splits dest!: length_strip_prefix
      intro: order_trans [OF find_take_le])

lemma length_host_header:
  "host_header ls = Some h \<Longrightarrow> \<exists>l \<in> set ls. length h \<le> length l"
proof (induction ls)
  case (Cons l ls)
  show ?case
  proof (cases "case strip_prefix ''Host:'' l of Some v \<Rightarrow> Some v | None \<Rightarrow> strip_prefix ''host:'' l")
    case None
    then show ?thesis using Cons by (auto split: if_splits)
  next
    case (Some v)
    then have "length v \<le> length l" by (auto split: option.splits dest: length_strip_prefix)
    moreover have "h = strip_host_port (trim v)" using Cons.prems Some by (simp split: if_splits)
    ultimately show ?thesis
      using length_strip_host_port [of "trim v"] length_trim [of v] by auto
  qed
qed simp

lemma length_split_on_mem: "p \<in> set (split_on c s) \<Longrightarrow> length p \<le> length s"
proof (induction s arbitrary: p)
  case (Cons x s)
  obtain q qs where "split_on c s = q # qs" using split_on_nonempty by (cases "split_on c s") auto
  then show ?case using Cons by (fastforce split: if_splits)
qed simp

lemma length_finish_lines: "l \<in> set (finish_lines ls) \<Longrightarrow> \<exists>k \<in> set ls. length l \<le> length k"
  by (induction ls rule: finish_lines.induct) (auto simp: strip_cr_def split: if_splits)

lemma length_str_lines: "l \<in> set (str_lines s) \<Longrightarrow> length l \<le> length s"
  unfolding str_lines_def by (meson length_finish_lines length_split_on_mem order_trans)

lemma length_extract_http_host: "extract_http_host data = Some h \<Longrightarrow> length h \<le> length data"
proof -
  assume h: "extract_http_host data = Some h"
  then obtain t where t: "from_utf8 data = Some t" "host_header (drop 1 (str_lines t)) = Some h"
    by (auto simp: extract_http_host_def split: option.splits)
  obtain l where "l \<in> set (str_lines t)" "length h \<le> length l"
    using length_host_header [OF t(2)] by (meson in_set_dropD)
  moreover have "length t = length data"
    using t(1) by (auto simp: from_utf8_def str_of_bytes_def split: if_splits)
  ultimately show ?thesis using length_str_lines by fastforce
qed

lemma peek_total: "\<exists>r. peek_sni_or_host outcome port = Some r"
proof (cases outcome)
  case (Peeked stream)
  obtain x where "extract_tls_sni (take peek_buf_size stream) = Some x"
    using tls_name_of [of "take peek_buf_size stream"] by (auto simp: name_of_def)
  then show ?thesis by (simp add: Peeked peek_sni_or_host_def Let_def)
qed (simp_all add: peek_sni_or_host_def)

lemma peek_host_length:
  "peek_sni_or_host outcome port = Some (Inr (data, Some h)) \<Longrightarrow> length h \<le> 65535"
proof (cases outcome)
  case (Peeked stream)
  assume h: "peek_sni_or_host outcome port = Some (Inr (data, Some h))"
  have tls: "extract_tls_sni d = Some (Some h) \<Longrightarrow> length h \<le> 65535" for d
    using tls_name_of [of d] by (auto simp: name_of_def)
  have "length (take peek_buf_size stream) \<le> 65535" by (simp add: peek_buf_size_def)
  then have "extract_http_host (take peek_buf_size stream) = Some h \<Longrightarrow> length h \<le> 65535"
    using length_extract_http_host order_trans by blast
  then show ?thesis
    using h tls by (auto simp: Peeked peek_sni_or_host_def Let_def split: if_splits bind_splits)
qed (simp_all add: peek_sni_or_host_def)

lemma find_filter: "find P (filter Q xs) = find (\<lambda>x. Q x \<and> P x) xs"
  by (induction xs) auto

lemma find_None_iff': "find P xs = None \<longleftrightarrow> (\<forall>x \<in> set xs. \<not> P x)"
  by (induction xs) auto

lemma find_Some_mem: "find P xs = Some x \<Longrightarrow> x \<in> set xs \<and> P x"
  by (induction xs) (auto split: if_splits)

text \<open>The first IPv6 answer that the filter permits.\<close>

definition first_permitted ::
  "'net ipnet_ops \<Rightarrow> 'net egress_filter \<Rightarrow> socket_addr list \<Rightarrow> socket_addr option" where
  "first_permitted ops f addrs = find (\<lambda>a. is_ipv6 a \<and> egress_allowed ops f (sa_ip a)) addrs"

lemma resolve_dst_eq:
  "resolve_dst ops addrs host s =
     (case addrs of
        None \<Rightarrow> (Inl (DnsFailed host), s)
      | Some addrs \<Rightarrow>
          (case first_permitted ops (ap_egress_filter s) addrs of
             Some a \<Rightarrow> (Inr a, s)
           | None \<Rightarrow>
               (if \<exists>a \<in> set addrs. is_ipv6 a then (Inl (EgressBlocked host), note_egress_blocked s)
                else (Inl (NoAaaaRecord host), s))))"
  by (auto simp: resolve_dst_def Let_def first_permitted_def find_filter filter_empty_conv find_None_iff'
      split: option.splits dest: find_Some_mem)

lemma first_permittedD:
  "first_permitted ops f addrs = Some a \<Longrightarrow>
     a \<in> set addrs \<and> is_ipv6 a \<and> egress_allowed ops f (sa_ip a)"
  unfolding first_permitted_def by (drule find_Some_mem) simp

lemma pick_outgoing_total: "pick_outgoing sip pools b src dst sp dp \<noteq> None"
  by (cases "pools = []") (simp add: pick_outgoing_def, metis pick_outgoing_cases option.distinct(1))

lemma bind_and_connect_events:
  "TcpConnect src dst \<in> set (snd (bind_and_connect io src' dst')) \<Longrightarrow>
     src = src' \<and> dst = dst' \<and> snd (bind_and_connect io src' dst') = [TcpBind src, TcpConnect src dst]"
  by (auto simp: bind_and_connect_def split: ip_addr.splits if_splits)

lemma copy_events: "TcpConnect src dst \<notin> set (snd (copy_bidirectional io))"
  by (auto simp: copy_bidirectional_def split: option.splits)

text \<open>The state in which the domain filter is asked, and the one in which the egress filter is.\<close>

definition at_domain_check :: "('net, 'a) app_scheme conn_io \<Rightarrow> socket_addr \<Rightarrow> ('net, 'a) app_scheme
    \<Rightarrow> ('net, 'a) app_scheme" where
  "at_domain_check io peer s = ci_after_peek io (snd (peer_binding (ci_now io) (sa_ip peer) s))"

definition at_egress_check :: "('net, 'a) app_scheme conn_io \<Rightarrow> socket_addr \<Rightarrow> ('net, 'a) app_scheme
    \<Rightarrow> ('net, 'a) app_scheme" where
  "at_egress_check io peer s = ci_after_dns io (at_domain_check io peer s)"

text \<open>The handler branch by branch.\<close>

lemma handle_tcp_unfold:
  "handle_tcp ops sip pools io peer port s =
     (case the (peek_sni_or_host (ci_peek io) port) of
        Inl e \<Rightarrow> (Some (Inl (PeekError e)), [], at_domain_check io peer s)
      | Inr (data, None) \<Rightarrow> (Some (Inr ()), [], at_domain_check io peer s)
      | Inr (data, Some host) \<Rightarrow>
          (if \<not> host_allowed (ap_domain_filter (at_domain_check io peer s)) host
           then (Some (Inr ()), [], note_domain_blocked (at_domain_check io peer s))
           else
             let text = lookup_text host port;
                 (dst, s') = resolve_dst ops (ci_dns io text) host (at_egress_check io peer s)
             in case dst of
                  Inl e \<Rightarrow> (Some (Inl e), [Lookup text], s')
                | Inr dst \<Rightarrow>
                    (case the (pick_outgoing sip pools (fst (peer_binding (ci_now io) (sa_ip peer) s))
                            (sa_ip peer) (sa_ip dst) (sa_port peer) port) of
                       None \<Rightarrow> (Some (Inr ()), [Lookup text], s')
                     | Some src \<Rightarrow>
                         (case fst (bind_and_connect io src dst) of
                            Inl e \<Rightarrow> (Some (Inl e), Lookup text # snd (bind_and_connect io src dst), s')
                          | Inr u \<Rightarrow>
                              (Some (map_sum id (\<lambda>n. ()) (fst (copy_bidirectional io))),
                               Lookup text # snd (bind_and_connect io src dst) @ snd (copy_bidirectional io),
                               s')))))"
proof -
  obtain r where r: "peek_sni_or_host (ci_peek io) port = Some r" using peek_total by blast
  obtain b s1 where b: "peer_binding (ci_now io) (sa_ip peer) s = (b, s1)" by fastforce
  show ?thesis
    unfolding handle_tcp_def Let_def r b at_domain_check_def at_egress_check_def admit_host_def
    by (auto simp: prod.case_eq_if pick_outgoing_total split: sum.splits option.splits prod.splits)
qed

lemma handle_tcp_connect:
  assumes "handle_tcp ops sip pools io peer port s = (r, tr, s')" "TcpConnect src dst \<in> set tr"
  obtains data host addrs where
    "peek_sni_or_host (ci_peek io) port = Some (Inr (data, Some host))"
    "host_allowed (ap_domain_filter (at_domain_check io peer s)) host"
    "ci_dns io (lookup_text host port) = Some addrs"
    "first_permitted ops (ap_egress_filter (at_egress_check io peer s)) addrs = Some dst"
    "pick_outgoing sip pools (fst (peer_binding (ci_now io) (sa_ip peer) s)) (sa_ip peer) (sa_ip dst)
       (sa_port peer) port = Some (Some src)"
proof -
  obtain x where x: "peek_sni_or_host (ci_peek io) port = Some x" using peek_total by blast
  note run = assms(1) [unfolded handle_tcp_unfold x option.sel, symmetric]
  obtain data host where host: "x = Inr (data, Some host)"
    "host_allowed (ap_domain_filter (at_domain_check io peer s)) host"
    using run assms(2) by (cases x) (auto split: option.splits if_splits)
  obtain d s4 where d: "resolve_dst ops (ci_dns io (lookup_text host port)) host (at_egress_check io peer s) = (d, s4)"
    by fastforce
  obtain a where a: "d = Inr a" using run assms(2) by (cases d) (auto simp: host d)
  let ?pick = "pick_outgoing sip pools (fst (peer_binding (ci_now io) (sa_ip peer) s)) (sa_ip peer)
      (sa_ip a) (sa_port peer) port"
  obtain p where p: "?pick = Some p" using pick_outgoing_total by blast
  obtain src' where src: "p = Some src'"
    using run assms(2) by (cases p) (auto simp: host d a p)
  have "TcpConnect src dst \<in> set (snd (bind_and_connect io src' a))"
    using run assms(2) copy_events by (auto simp: host d a p src Let_def split: sum.splits)
  then have eq: "src = src'" "dst = a" using bind_and_connect_events by blast+
  obtain addrs where "ci_dns io (lookup_text host port) = Some addrs"
    "first_permitted ops (ap_egress_filter (at_egress_check io peer s)) addrs = Some a"
    using d by (auto simp: a resolve_dst_eq split: option.splits if_splits)
  with that x host p src eq show ?thesis by blast
qed

text \<open>The resolver answers with addresses at the port it was asked for.\<close>

definition resolver_laws :: "(string \<Rightarrow> socket_addr list option) \<Rightarrow> bool" where
  "resolver_laws dns \<longleftrightarrow>
     (\<forall>host port addrs. dns (lookup_text host port) = Some addrs \<longrightarrow> (\<forall>a \<in> set addrs. sa_port a = port))"

lemma handle_tcp_success:
  assumes "peek_sni_or_host (ci_peek io) port = Some (Inr (data, Some host))"
    and "host_allowed (ap_domain_filter (at_domain_check io peer s)) host"
    and "ci_dns io (lookup_text host port) = Some addrs"
    and "first_permitted ops (ap_egress_filter (at_egress_check io peer s)) addrs = Some dst"
    and "pools \<noteq> []" "ci_socket io" "ci_freebind io" "ci_bind io" "ci_connect io"
    and "ci_copy io = Some (c2u, u2c)"
  shows "\<exists>p \<in> set pools. \<exists>h. let src = host_at p h in
      pick_outgoing sip pools (fst (peer_binding (ci_now io) (sa_ip peer) s)) (sa_ip peer) (sa_ip dst)
        (sa_port peer) port = Some (Some src)
      \<and> handle_tcp ops sip pools io peer port s
        = (Some (Inr ()), [Lookup (lookup_text host port), TcpBind src, TcpConnect src dst, TcpCopy c2u u2c],
           at_egress_check io peer s)"
proof -
  obtain p h where p: "p \<in> set pools" "pick_outgoing sip pools (fst (peer_binding (ci_now io) (sa_ip peer) s))
      (sa_ip peer) (sa_ip dst) (sa_port peer) port = Some (Some (host_at p h))"
    using pick_outgoing_cases [OF assms(5)] by metis
  obtain x where "sa_ip dst = IpV6 x"
    using first_permittedD [OF assms(4)] by (auto simp: is_ipv6_def split: ip_addr.splits)
  then have "handle_tcp ops sip pools io peer port s
      = (Some (Inr ()), [Lookup (lookup_text host port), TcpBind (host_at p h),
           TcpConnect (host_at p h) dst, TcpCopy c2u u2c], at_egress_check io peer s)"
    using assms p(2)
    by (simp add: handle_tcp_unfold resolve_dst_eq bind_and_connect_def copy_bidirectional_def Let_def)
  with p show ?thesis unfolding Let_def by blast
qed

section \<open>An instance\<close>

definition example_http :: bytes where
  "example_http = bytes_of_str (concat (map crlf [''GET / HTTP/1.1'', ''Host: a.b'']))"

definition example_answers :: "socket_addr list" where
  "example_answers =
     [\<lparr>sa_ip = IpV4 7, sa_port = 80\<rparr>, \<lparr>sa_ip = IpV6 (0x20010db80001 * 2 ^ 80), sa_port = 80\<rparr>]"

definition example_io :: "(ip_addr \<times> u8) app conn_io" where
  "example_io =
     \<lparr>ci_now = 0, ci_peek = Peeked example_http, ci_after_peek = id,
      ci_dns = (\<lambda>t. if t = lookup_text ''a.b'' 80 then Some example_answers else None),
      ci_after_dns = id, ci_socket = True, ci_freebind = True, ci_bind = True, ci_connect = True,
      ci_copy = Some (10, 20)\<rparr>"

lemma example_peek: "peek_sni_or_host (ci_peek example_io) 80 = Some (Inr (example_http, Some ''a.b''))"
proof -
  have u: "from_utf8 example_http
      = Some (concat (map crlf (''GET / HTTP/1.1'' # [] @ [''Host:'' @ '' a.b''])) @ [])"
    unfolding example_http_def by code_simp
  have "extract_http_host example_http = Some (strip_host_port (trim '' a.b''))"
    by (rule http_host_lines [OF u]) auto
  moreover have "strip_host_port (trim '' a.b'') = ''a.b''" by code_simp
  moreover have "take peek_buf_size example_http = example_http"
    by (simp add: example_http_def bytes_of_str_def peek_buf_size_def crlf_def)
  ultimately show ?thesis
    by (simp add: example_io_def peek_sni_or_host_def Let_def)
qed

lemma example_states:
  "at_domain_check example_io peer example_app = snd (peer_binding 0 (sa_ip peer) example_app)"
  "at_egress_check example_io peer example_app = snd (peer_binding 0 (sa_ip peer) example_app)"
  by (simp_all add: at_domain_check_def at_egress_check_def example_io_def)

lemma peer_binding_filters:
  "ap_domain_filter (snd (peer_binding now ip s)) = ap_domain_filter s"
  "ap_egress_filter (snd (peer_binding now ip s)) = ap_egress_filter s"
  by (auto simp: peer_binding_def default_binding_def default_hash_policy_def default_binding_seed_def
      split: option.splits)

lemma example_allowed_host: "host_allowed (ap_domain_filter example_app) ''a.b''"
proof -
  have "host_allowed domain_filter_default ''a.b''" by code_simp
  then show ?thesis by (simp add: example_app_def proc.defs)
qed

lemma example_permitted:
  "first_permitted plain_ops (ap_egress_filter example_app) example_answers
     = Some \<lparr>sa_ip = IpV6 (0x20010db80001 * 2 ^ 80), sa_port = 80\<rparr>"
  by (simp add: first_permitted_def example_answers_def is_ipv6_def example_app_def proc.defs
      egress_allowed_def egress_filter_default_def best_net_def)

definition example_pools :: "v6_pool list" where
  "example_pools = [\<lparr>pl_prefix = 0x20010db8000a * 2 ^ 80, pl_prefix_len = 64\<rparr>]"

definition example_sip :: hasher where
  "example_sip k0 k1 xs = k0 + of_nat (length xs)"

lemma example_pools_wf: "\<forall>p \<in> set example_pools. pool_wf p"
  using example_pool_wf by (simp add: example_pools_def)

lemma show_port_inject:
  assumes "show_digits 5 10 (unat p) = show_digits 5 10 (unat q)"
  shows "p = (q :: u16)"
proof -
  have "read_number 10 (Some 5) True 65536 (show_digits 5 10 (unat r) @ []) = Some (unat r, [])" for r :: u16
  proof -
    have "unat r < 65536" using unsigned_less [of r, where ?'a = nat] by simp
    then show ?thesis by (intro read_number_show) (simp_all add: no_digit_head_def)
  qed
  from this [of p] this [of q] assms show ?thesis by (simp add: word_unat_eq_iff)
qed

lemma show_digits_no_colon: "CHR '':'' \<notin> set (show_digits 5 10 (unat (p :: u16)))"
proof -
  have "unat p < 10 ^ 5" using unsigned_less [of p, where ?'a = nat] by simp
  then obtain ds where ds: "show_digits 5 10 (unat p) = map digit_char ds" "\<forall>d \<in> set ds. d < 10"
    by (rule show_digits_eq [of "unat p" 10 5]) auto
  have "digit_char d \<noteq> CHR '':''" if "d < 10" for d
  proof
    assume eq: "digit_char d = CHR '':''"
    have "code (digit_char d) \<noteq> 58" using that by (simp add: code_digit_char)
    moreover have "code (CHR '':'') = 58" by (simp add: code_def)
    ultimately show False unfolding eq by simp
  qed
  then show ?thesis unfolding ds(1) set_map using ds(2) by (metis imageE)
qed

lemma lookup_text_inject: "lookup_text h p = lookup_text h' p' \<Longrightarrow> h = h' \<and> p = p'"
proof -
  assume eq: "lookup_text h p = lookup_text h' p'"
  have "rfind_char (CHR '':'') (lookup_text x q) = Some (length x)" for x q
    using rfind_char_last [OF show_digits_no_colon] by (simp add: lookup_text_def)
  from this [of h p] this [of h' p'] eq have "length h = length h'" by simp
  then show ?thesis using eq show_port_inject by (simp add: lookup_text_def)
qed

lemma example_resolver: "resolver_laws (ci_dns example_io)"
  by (auto simp: resolver_laws_def example_io_def example_answers_def split: if_splits
      dest!: lookup_text_inject)

lemma example_calls:
  "ci_dns example_io (lookup_text ''a.b'' 80) = Some example_answers" "example_pools \<noteq> []"
  "ci_socket example_io" "ci_freebind example_io" "ci_bind example_io" "ci_connect example_io"
  "ci_copy example_io = Some (10, 20)"
  by (simp_all add: example_io_def example_pools_def)

lemma example_forwards:
  obtains src where
    "handle_tcp plain_ops example_sip example_pools example_io peer 80 example_app
      = (Some (Inr ()), [Lookup (lookup_text ''a.b'' 80), TcpBind src,
          TcpConnect src \<lparr>sa_ip = IpV6 (0x20010db80001 * 2 ^ 80), sa_port = 80\<rparr>, TcpCopy 10 20],
         at_egress_check example_io peer example_app)"
proof -
  have h: "host_allowed (ap_domain_filter (at_domain_check example_io peer example_app)) ''a.b''"
    "first_permitted plain_ops (ap_egress_filter (at_egress_check example_io peer example_app)) example_answers
      = Some \<lparr>sa_ip = IpV6 (0x20010db80001 * 2 ^ 80), sa_port = 80\<rparr>"
    by (simp_all add: example_states peer_binding_filters example_allowed_host example_permitted)
  from handle_tcp_success [OF example_peek h(1) example_calls(1) h(2) example_calls(2-7), of example_sip] that
  show ?thesis unfolding Let_def by blast
qed

text \<open>The example with one binding, and with the defaults that a startup sets.\<close>

definition bound_app :: "(ip_addr \<times> u8) app" where
  "bound_app = example_app\<lparr>pr_default_policy := Some SrcIp, pr_default_seed := Some 3,
     pr_policies := (policies_default 0)
       \<lparr>pol_bindings := [IpV4 1 \<mapsto> \<lparr>bd_policy = FiveTuple, bd_seed = 9, bd_updated_at = 0\<rparr>]\<rparr>\<rparr>"

section \<open>Properties\<close>

text \<open>Whatever the other tasks do meanwhile, a TCP connection is made only for a name that the
  domain filter allowed when it was asked, to an IPv6 address of that name that the egress filter
  allowed when it was asked, at the port of the listener, and from where traffic of a pool leaves; the handler
  never panics.\<close>

theorem tcp_guarded:
  assumes run: "handle_tcp ops sip pools io peer port s = (r, tr, s')"
    and pools: "\<forall>p \<in> set pools. pool_wf p"
    and dns: "resolver_laws (ci_dns io)"
  shows "r \<noteq> None \<and>
    (\<forall>src dst. TcpConnect src dst \<in> set tr \<longrightarrow>
       (\<exists>data host addrs.
          peek_sni_or_host (ci_peek io) port = Some (Inr (data, Some host))
          \<and> host_allowed (ap_domain_filter (at_domain_check io peer s)) host
          \<and> ci_dns io (lookup_text host port) = Some addrs \<and> dst \<in> set addrs
          \<and> egress_allowed ops (ap_egress_filter (at_egress_check io peer s)) (sa_ip dst))
       \<and> is_ipv6 dst \<and> sa_port dst = port \<and> (\<exists>p \<in> set pools. leaves_from p src))"
proof (intro conjI allI impI)
  obtain x where "peek_sni_or_host (ci_peek io) port = Some x" using peek_total by blast
  then show "r \<noteq> None"
    using run by (auto simp: handle_tcp_unfold Let_def split: sum.splits option.splits if_splits prod.splits)
next
  fix src dst assume c: "TcpConnect src dst \<in> set tr"
  obtain data host addrs where h:
    "peek_sni_or_host (ci_peek io) port = Some (Inr (data, Some host))"
    "host_allowed (ap_domain_filter (at_domain_check io peer s)) host"
    "ci_dns io (lookup_text host port) = Some addrs"
    "first_permitted ops (ap_egress_filter (at_egress_check io peer s)) addrs = Some dst"
    "pick_outgoing sip pools (fst (peer_binding (ci_now io) (sa_ip peer) s)) (sa_ip peer) (sa_ip dst)
       (sa_port peer) port = Some (Some src)"
    using handle_tcp_connect [OF run c] by metis
  note perm = first_permittedD [OF h(4)]
  show "\<exists>data host addrs.
      peek_sni_or_host (ci_peek io) port = Some (Inr (data, Some host))
      \<and> host_allowed (ap_domain_filter (at_domain_check io peer s)) host
      \<and> ci_dns io (lookup_text host port) = Some addrs \<and> dst \<in> set addrs
      \<and> egress_allowed ops (ap_egress_filter (at_egress_check io peer s)) (sa_ip dst)"
    using h perm by blast
  show "is_ipv6 dst" using perm by simp
  show "sa_port dst = port" using dns h(3) perm by (auto simp: resolver_laws_def)
  have "pools \<noteq> []" using h(5) by (auto simp: pick_outgoing_def)
  then obtain p k where "p \<in> set pools" "src = host_at p k"
    using h(5) pick_outgoing_cases by (metis option.inject)
  then show "\<exists>p \<in> set pools. leaves_from p src" using pools host_at_leaves_from by blast
qed

theorem tcp_guarded_witness:
  "\<exists>src p. p \<in> set example_pools \<and> leaves_from p src \<and>
     TcpConnect src \<lparr>sa_ip = IpV6 (0x20010db80001 * 2 ^ 80), sa_port = 80\<rparr>
       \<in> set (fst (snd (handle_tcp plain_ops example_sip example_pools example_io
           \<lparr>sa_ip = IpV4 1, sa_port = 5\<rparr> 80 example_app)))"
proof -
  obtain src where run: "handle_tcp plain_ops example_sip example_pools example_io
      \<lparr>sa_ip = IpV4 1, sa_port = 5\<rparr> 80 example_app
      = (Some (Inr ()), [Lookup (lookup_text ''a.b'' 80), TcpBind src,
          TcpConnect src \<lparr>sa_ip = IpV6 (0x20010db80001 * 2 ^ 80), sa_port = 80\<rparr>, TcpCopy 10 20],
         at_egress_check example_io \<lparr>sa_ip = IpV4 1, sa_port = 5\<rparr> example_app)"
    by (rule example_forwards)
  then show ?thesis using tcp_guarded [OF run example_pools_wf example_resolver] by auto
qed

lemma peer_binding_cases:
  "pol_bindings (pr_policies s) ip = Some b \<Longrightarrow> peer_binding now ip s = (b, s)"
  "pol_bindings (pr_policies s) ip = None \<Longrightarrow> pr_default_policy s = Some hp \<Longrightarrow> pr_default_seed s = Some n \<Longrightarrow>
     peer_binding now ip s = (\<lparr>bd_policy = hp, bd_seed = n, bd_updated_at = now\<rparr>, s)"
  by (simp_all add: peer_binding_def default_binding_def default_hash_policy_def default_binding_seed_def)

text \<open>C27: a TCP connection of a peer that has a binding is forwarded, under these conditions: a name is found in
  the peeked bytes, the domain filter allows it when it is asked, the resolver answers, one of the
  answers is an IPv6 address that the egress filter allows when it is asked, there is a pool, and the
  system calls (socket, freebind, bind, connect, copy) succeed. Then there is one lookup, a socket bound
  to the address that the binding of the peer picks, a connection to the first permitted address in the
  order of the answers, and the copy; the handler itself leaves the process state alone.\<close>

theorem tcp_forwards:
  assumes "pol_bindings (pr_policies s) (sa_ip peer) = Some b"
    and "peek_sni_or_host (ci_peek io) port = Some (Inr (data, Some host))"
    and "host_allowed (ap_domain_filter (at_domain_check io peer s)) host"
    and "ci_dns io (lookup_text host port) = Some addrs"
    and "first_permitted ops (ap_egress_filter (at_egress_check io peer s)) addrs = Some dst"
    and "pools \<noteq> []" "ci_socket io" "ci_freebind io" "ci_bind io" "ci_connect io"
    and "ci_copy io = Some (c2u, u2c)"
  shows "\<exists>src. pick_outgoing sip pools b (sa_ip peer) (sa_ip dst) (sa_port peer) port = Some (Some src)
      \<and> handle_tcp ops sip pools io peer port s
        = (Some (Inr ()), [Lookup (lookup_text host port), TcpBind src, TcpConnect src dst, TcpCopy c2u u2c],
           at_egress_check io peer s)
      \<and> at_egress_check io peer s = ci_after_dns io (ci_after_peek io s)"
  using handle_tcp_success [OF assms(2-11)] peer_binding_cases(1) [OF assms(1)]
  unfolding Let_def by (simp add: at_egress_check_def at_domain_check_def) blast

theorem tcp_forwards_witness:
  "\<exists>src. fst (snd (handle_tcp plain_ops example_sip example_pools example_io
       \<lparr>sa_ip = IpV4 1, sa_port = 5\<rparr> 80 bound_app))
     = [Lookup (lookup_text ''a.b'' 80), TcpBind src,
        TcpConnect src \<lparr>sa_ip = IpV6 (0x20010db80001 * 2 ^ 80), sa_port = 80\<rparr>, TcpCopy 10 20]
     \<and> pick_outgoing example_sip example_pools \<lparr>bd_policy = FiveTuple, bd_seed = 9, bd_updated_at = 0\<rparr>
         (IpV4 1) (IpV6 (0x20010db80001 * 2 ^ 80)) 5 80 = Some (Some src)"
proof -
  let ?peer = "\<lparr>sa_ip = IpV4 1, sa_port = 5\<rparr> :: socket_addr"
  have b: "pol_bindings (pr_policies bound_app) (sa_ip ?peer) = Some \<lparr>bd_policy = FiveTuple, bd_seed = 9, bd_updated_at = 0\<rparr>"
    by (simp add: bound_app_def)
  have at: "at_domain_check example_io ?peer bound_app = bound_app" "at_egress_check example_io ?peer bound_app = bound_app"
    using peer_binding_cases(1) [OF b] by (simp_all add: at_domain_check_def at_egress_check_def example_io_def)
  have h: "host_allowed (ap_domain_filter (at_domain_check example_io ?peer bound_app)) ''a.b''"
    "first_permitted plain_ops (ap_egress_filter (at_egress_check example_io ?peer bound_app)) example_answers
      = Some \<lparr>sa_ip = IpV6 (0x20010db80001 * 2 ^ 80), sa_port = 80\<rparr>"
    unfolding at by (simp_all add: bound_app_def example_allowed_host example_permitted)
  from tcp_forwards [OF b example_peek h(1) example_calls(1) h(2) example_calls(2-7), of example_sip] show ?thesis
    by (metis fst_conv snd_conv socket_addr.select_convs)
qed



text \<open>C29: what is refused leaves no trace on the network beyond the lookup: no name, no lookup and no
  count; a name the domain filter blocks, no lookup and one count; an answer without IPv6 addresses,
  an error without a count; only blocked IPv6 addresses, an error and one count of the egress filter.\<close>

theorem tcp_refusals:
  assumes "peek_sni_or_host (ci_peek io) port = Some (Inr (data, name))"
  shows "let s1 = at_domain_check io peer s; s2 = at_egress_check io peer s in
    (name = None \<longrightarrow> handle_tcp ops sip pools io peer port s = (Some (Inr ()), [], s1))
    \<and> (\<forall>host. name = Some host \<longrightarrow>
        (\<not> host_allowed (ap_domain_filter s1) host \<longrightarrow>
           handle_tcp ops sip pools io peer port s = (Some (Inr ()), [], note_domain_blocked s1))
        \<and> (host_allowed (ap_domain_filter s1) host \<longrightarrow>
             ci_dns io (lookup_text host port) = Some addrs \<longrightarrow>
             first_permitted ops (ap_egress_filter s2) addrs = None \<longrightarrow>
               handle_tcp ops sip pools io peer port s
                 = (if \<exists>a \<in> set addrs. is_ipv6 a
                    then (Some (Inl (EgressBlocked host)), [Lookup (lookup_text host port)], note_egress_blocked s2)
                    else (Some (Inl (NoAaaaRecord host)), [Lookup (lookup_text host port)], s2))))"
  unfolding Let_def by (auto simp: handle_tcp_unfold assms(1) resolve_dst_eq Let_def)

theorem tcp_refusals_witness:
  "let s = example_app\<lparr>ap_domain_filter := \<lparr>df_allow = domain_matcher_default, df_deny = from_rules [Keyword ''b'']\<rparr>,
         pr_default_policy := Some SrcIp, pr_default_seed := Some 0\<rparr>
   in handle_tcp plain_ops example_sip example_pools example_io \<lparr>sa_ip = IpV4 1, sa_port = 5\<rparr> 80 s
      = (Some (Inr ()), [], s\<lparr>ap_domain_blocked := 1\<rparr>)"
proof -
  let ?f = "\<lparr>df_allow = domain_matcher_default, df_deny = from_rules [Keyword ''b'']\<rparr>"
  let ?s = "example_app\<lparr>ap_domain_filter := ?f, pr_default_policy := Some SrcIp, pr_default_seed := Some 0\<rparr>"
  have s: "at_domain_check example_io \<lparr>sa_ip = IpV4 1, sa_port = 5\<rparr> ?s = ?s"
    by (simp add: at_domain_check_def example_io_def peer_binding_def default_binding_def
        default_hash_policy_def default_binding_seed_def example_app_def proc.defs split: option.splits)
  have f: "ap_domain_filter ?s = ?f" "ap_domain_blocked ?s = 0" by (simp_all add: example_app_def proc.defs)
  have "\<not> host_allowed ?f ''a.b''" by code_simp
  then show ?thesis
    using tcp_refusals [OF example_peek, of "\<lparr>sa_ip = IpV4 1, sa_port = 5\<rparr>" ?s]
    unfolding Let_def s f(1) by (simp add: note_domain_blocked_def f(2))
qed

end
