(* ===== verification/Quic.thy ===== *)
theory Quic
  imports Sni
begin

text \<open>
  The server name of a QUIC Initial packet (\<open>src/dataplane/quic.rs\<close>): variable-length integers, the
  long header, the removal of header protection, decryption and the CRYPTO frames. The cryptographic
  primitives are those of the crates \<open>hkdf\<close>, \<open>sha2\<close>, \<open>aes\<close> and \<open>aes-gcm\<close>: the record \<open>crypto\<close>, a
  parameter; \<open>crypto_laws\<close> says what they document about the lengths of their results. Positions are
  natural numbers: a variable-length integer is below \<open>2 ^ 62\<close>, so no sum of the source wraps.
\<close>

section \<open>Variable-length integers\<close>

text \<open>\<open>for i in 1..len { val = (val << 8) | data[i] }\<close>\<close>

function varint_loop :: "bytes \<Rightarrow> nat \<Rightarrow> nat \<Rightarrow> u64 \<Rightarrow> u64 run" where
  "varint_loop data i len val =
     (if i < len then do {
        b \<leftarrow> idx data i;
        varint_loop data (i + 1) len (or (push_bit 8 val) (ucast b))
      } else ret val)"
  by pat_completeness auto
termination
  by (relation "measure (\<lambda>(data, i, len, val). len - i)") auto

declare varint_loop.simps [simp del]

definition read_varint :: "bytes \<Rightarrow> (u64 \<times> nat) option run" where
  "read_varint data =
     (if data = [] then ret None
      else do {
        b \<leftarrow> idx data 0;
        let prefix = drop_bit 6 b;
        let len = 2 ^ unat prefix;
        if length data < len then ret None
        else do {
          val \<leftarrow> varint_loop data 1 len (ucast (and b 0x3f));
          ret (Some (val, len))
        }
      })"

section \<open>Keys\<close>

record crypto =
  hkdf_new :: "bytes \<Rightarrow> bytes \<Rightarrow> bytes"
  hkdf_from_prk :: "bytes \<Rightarrow> bytes option"
  hkdf_expand :: "bytes \<Rightarrow> bytes \<Rightarrow> nat \<Rightarrow> bytes option"
  aes_encrypt_block :: "bytes \<Rightarrow> bytes \<Rightarrow> bytes"
  gcm_decrypt :: "bytes \<Rightarrow> bytes \<Rightarrow> bytes \<Rightarrow> bytes \<Rightarrow> bytes option"

definition crypto_laws :: "crypto \<Rightarrow> bool" where
  "crypto_laws c \<longleftrightarrow>
     (\<forall>prk info n bs. hkdf_expand c prk info n = Some bs \<longrightarrow> length bs = n)
     \<and> (\<forall>key block. length (aes_encrypt_block c key block) = length block)"

definition quic_v1_salt :: bytes where
  "quic_v1_salt =
     [0x38, 0x76, 0x2c, 0xf7, 0xf5, 0x59, 0x34, 0xb3, 0x4d, 0x17, 0x9a, 0xe6, 0xa4, 0xc8, 0x0c, 0xad,
      0xcc, 0xbb, 0x7f, 0x0a]"

definition quic_v2_salt :: bytes where
  "quic_v2_salt =
     [0x0d, 0xed, 0xe3, 0xde, 0xf7, 0x00, 0xa6, 0xdb, 0x81, 0x93, 0x81, 0xbe, 0x6e, 0x26, 0x9d, 0xcb,
      0xf9, 0xbd, 0x2e, 0xd9]"

definition hkdf_label :: "bytes \<Rightarrow> bytes \<Rightarrow> u16 \<Rightarrow> bytes" where
  "hkdf_label label context len =
     (let full_label_len = 6 + length label
      in be_bytes16 len @ [of_nat full_label_len] @ bytes_of_str ''tls13 '' @ label
         @ [of_nat (length context)] @ context)"

record initial_keys =
  ik_key :: bytes
  ik_iv :: bytes
  ik_hp :: bytes

definition derive_initial_keys :: "crypto \<Rightarrow> bytes \<Rightarrow> bytes \<Rightarrow> initial_keys option" where
  "derive_initial_keys c dcid salt = do {
     let hk = hkdf_new c salt dcid;
     let client_label = hkdf_label (bytes_of_str ''client in'') [] 32;
     client_secret \<leftarrow> hkdf_expand c hk client_label 32;
     client_hk \<leftarrow> hkdf_from_prk c client_secret;
     key \<leftarrow> hkdf_expand c client_hk (hkdf_label (bytes_of_str ''quic key'') [] 16) 16;
     iv \<leftarrow> hkdf_expand c client_hk (hkdf_label (bytes_of_str ''quic iv'') [] 12) 12;
     hp \<leftarrow> hkdf_expand c client_hk (hkdf_label (bytes_of_str ''quic hp'') [] 16) 16;
     Some \<lparr>ik_key = key, ik_iv = iv, ik_hp = hp\<rparr>
   }"

definition compute_hp_mask :: "crypto \<Rightarrow> bytes \<Rightarrow> bytes \<Rightarrow> bytes run" where
  "compute_hp_mask c hp_key sample = do {
     block \<leftarrow> subslice sample 0 16;
     subslice (aes_encrypt_block c hp_key block) 0 5
   }"

section \<open>CRYPTO frames\<close>

text \<open>
  The loop over the frames: padding and ping are skipped, the data of CRYPTO frames is collected (the
  offset is read and ignored), anything else, and a frame that is cut off, ends it. The result \<open>None\<close>
  inside is that of a \<open>?\<close> on a variable-length integer. The bound of a step is \<open>length payload - pos\<close>.
\<close>

function crypto_frames :: "bytes \<Rightarrow> nat \<Rightarrow> bytes \<Rightarrow> bytes option run" where
  "crypto_frames payload pos crypto_data =
     (if pos < length payload then do {
        frame_type \<leftarrow> idx payload pos;
        let pos = pos + 1;
        if frame_type = 0x00 \<or> frame_type = 0x01 then crypto_frames payload pos crypto_data
        else if frame_type = 0x06 then
          (if length payload \<le> pos then ret (Some crypto_data)
           else do {
             tail \<leftarrow> slice_from payload pos;
             offset \<leftarrow> read_varint tail;
             case offset of
               None \<Rightarrow> ret None
             | Some (off, consumed) \<Rightarrow>
                 (let pos = pos + consumed in
                  if length payload \<le> pos then ret (Some crypto_data)
                  else do {
                    tail \<leftarrow> slice_from payload pos;
                    len \<leftarrow> read_varint tail;
                    case len of
                      None \<Rightarrow> ret None
                    | Some (n, consumed) \<Rightarrow>
                        (let pos = pos + consumed; n = unat n in
                         if length payload < pos + n then ret (Some crypto_data)
                         else do {
                           piece \<leftarrow> subslice payload pos (pos + n);
                           crypto_frames payload (pos + n) (crypto_data @ piece)
                         })
                  })
           })
        else ret (Some crypto_data)
      } else ret (Some crypto_data))"
  by pat_completeness auto
termination
  by (relation "measure (\<lambda>(payload, pos, crypto_data). length payload - pos)") auto

declare crypto_frames.simps [simp del]

definition extract_crypto_data :: "bytes \<Rightarrow> bytes option run" where
  "extract_crypto_data payload = do {
     r \<leftarrow> crypto_frames payload 0 [];
     case r of
       None \<Rightarrow> ret None
     | Some crypto_data \<Rightarrow> ret (if crypto_data = [] then None else Some crypto_data)
   }"

section \<open>The Initial packet\<close>

text \<open>\<open>for i in 0..pn_len { header[pn_offset + i] ^= hp_mask[1 + i] }\<close> and the loops that read the packet
  number and build the nonce.\<close>

fun unmask_loop :: "nat \<Rightarrow> nat \<Rightarrow> bytes \<Rightarrow> bytes \<Rightarrow> nat \<Rightarrow> bytes run" where
  "unmask_loop 0 i hp_mask header pn_offset = ret header"
| "unmask_loop (Suc k) i hp_mask header pn_offset = do {
     h \<leftarrow> idx header (pn_offset + i);
     m \<leftarrow> idx hp_mask (1 + i);
     unmask_loop k (i + 1) hp_mask (header[pn_offset + i := xor h m]) pn_offset
   }"

fun pn_loop :: "nat \<Rightarrow> nat \<Rightarrow> bytes \<Rightarrow> nat \<Rightarrow> u64 \<Rightarrow> u64 run" where
  "pn_loop 0 i header pn_offset pn = ret pn"
| "pn_loop (Suc k) i header pn_offset pn = do {
     h \<leftarrow> idx header (pn_offset + i);
     pn_loop k (i + 1) header pn_offset (or (push_bit 8 pn) (ucast h))
   }"

definition be_bytes64 :: "u64 \<Rightarrow> bytes" where
  "be_bytes64 w = map (\<lambda>i. ucast (drop_bit (56 - 8 * i) w)) [0..<8]"

fun nonce_loop :: "nat \<Rightarrow> nat \<Rightarrow> bytes \<Rightarrow> bytes \<Rightarrow> bytes run" where
  "nonce_loop 0 i pn_bytes nonce = ret nonce"
| "nonce_loop (Suc k) i pn_bytes nonce = do {
     n \<leftarrow> idx nonce (12 - 8 + i);
     b \<leftarrow> idx pn_bytes i;
     nonce_loop k (i + 1) pn_bytes (nonce[12 - 8 + i := xor n b])
   }"

text \<open>From the position of the packet number on: unprotect, decrypt, parse.\<close>

definition decrypt_initial ::
  "crypto \<Rightarrow> bytes \<Rightarrow> initial_keys \<Rightarrow> nat \<Rightarrow> nat \<Rightarrow> bytes option run" where
  "decrypt_initial c data keys pos payload_len =
     (let pn_offset = pos; sample_offset = pn_offset + 4 in
      if length data < sample_offset + 16 then ret None
      else do {
        sample \<leftarrow> subslice data sample_offset (sample_offset + 16);
        hp_mask \<leftarrow> compute_hp_mask c (ik_hp keys) sample;
        header \<leftarrow> subslice data 0 (pos + payload_len);
        h0 \<leftarrow> idx header 0;
        m0 \<leftarrow> idx hp_mask 0;
        let header = header[0 := xor h0 (and m0 0x0f)];
        h0 \<leftarrow> idx header 0;
        let pn_len = unat (and h0 0x03 + 1);
        if length header < pn_offset + pn_len then ret None
        else do {
          header \<leftarrow> unmask_loop pn_len 0 hp_mask header pn_offset;
          pn \<leftarrow> pn_loop pn_len 0 header pn_offset 0;
          nonce \<leftarrow> nonce_loop 8 0 (be_bytes64 pn) (ik_iv keys);
          aad \<leftarrow> subslice header 0 (pn_offset + pn_len);
          let ciphertext_start = pn_offset + pn_len;
          let ciphertext_end = pos + payload_len;
          if ciphertext_end \<le> ciphertext_start then ret None
          else do {
            ciphertext \<leftarrow> subslice data ciphertext_start ciphertext_end;
            ret (gcm_decrypt c (ik_key keys) nonce aad ciphertext)
          }
        }
      })"

text \<open>The rest of the long header: the connection identifiers, the token and the payload length.\<close>

definition after_version :: "crypto \<Rightarrow> bytes \<Rightarrow> bytes \<Rightarrow> bytes option run" where
  "after_version c data salt =
     (let pos = 5 in
      if length data \<le> pos then ret None
      else do {
        dcid_len \<leftarrow> idx data pos;
        let pos = pos + 1;
        if length data < pos + unat dcid_len then ret None
        else do {
          dcid \<leftarrow> subslice data pos (pos + unat dcid_len);
          let pos = pos + unat dcid_len;
          if length data \<le> pos then ret None
          else do {
            scid_len \<leftarrow> idx data pos;
            let pos = pos + (1 + unat scid_len);
            if length data \<le> pos then ret None
            else do {
              tail \<leftarrow> slice_from data pos;
              token \<leftarrow> read_varint tail;
              opt_try token (\<lambda>(token_len, consumed).
                let pos = pos + (consumed + unat token_len) in
                if length data \<le> pos then ret None
                else do {
                  tail \<leftarrow> slice_from data pos;
                  payload \<leftarrow> read_varint tail;
                  opt_try payload (\<lambda>(payload_len, consumed).
                    let pos = pos + consumed in
                    if length data < pos + unat payload_len then ret None
                    else opt_try (derive_initial_keys c dcid salt)
                      (\<lambda>keys. decrypt_initial c data keys pos (unat payload_len)))
                })
            }
          }
        }
      })"

definition extract_quic_sni :: "crypto \<Rightarrow> bytes \<Rightarrow> string option run" where
  "extract_quic_sni c data =
     (if length data < 5 then ret None
      else do {
        first \<leftarrow> idx data 0;
        if and first 0x80 = 0 then ret None
        else if drop_bit 4 (and first 0x30) \<noteq> 0 then ret None
        else do {
          v1 \<leftarrow> idx data 1; v2 \<leftarrow> idx data 2; v3 \<leftarrow> idx data 3; v4 \<leftarrow> idx data 4;
          let version = u32_from_be_bytes v1 v2 v3 v4;
          let salt = (if version = 0x00000001 then Some quic_v1_salt
                      else if version = 0x6b3343cf then Some quic_v2_salt else None);
          opt_try salt (\<lambda>salt. do {
            plaintext \<leftarrow> after_version c data salt;
            opt_try plaintext (\<lambda>plaintext. do {
              client_hello \<leftarrow> extract_crypto_data plaintext;
              opt_try client_hello extract_tls_sni_from_handshake
            })
          })
        }
      })"

section \<open>Facts about variable-length integers\<close>

abbreviation (input) horner256 :: "nat \<Rightarrow> bytes \<Rightarrow> nat" where
  "horner256 \<equiv> foldl (\<lambda>a b. a * 256 + unat b)"

lemma or_push_byte: "or (push_bit 8 val) (ucast b) = val * 256 + ucast (b :: u8)" for val :: u64
proof -
  have "or (push_bit 8 val) (ucast b) = push_bit 8 val + ucast b"
    by (rule disjunctive_add [symmetric]) (auto simp: bit_simps dest: bit_imp_le_length)
  then show ?thesis by (simp add: push_bit_eq_mult)
qed

lemma varint_loop_eq:
  "len \<le> length data \<Longrightarrow> i \<le> len \<Longrightarrow>
     varint_loop data i len (of_nat a) = Some (of_nat (horner256 a (take (len - i) (drop i data))))"
proof (induction "len - i" arbitrary: i a)
  case 0
  then show ?case by (subst varint_loop.simps) simp
next
  case (Suc k)
  then have i: "i < len" "i < length data" by simp_all
  have "take (len - i) (drop i data) = data ! i # take (len - Suc i) (drop (Suc i) data)"
    using i by (simp add: Cons_nth_drop_Suc [symmetric] Suc_diff_Suc take_Cons')
  moreover have "or (push_bit 8 (of_nat a)) (ucast (data ! i)) = (of_nat (a * 256 + unat (data ! i)) :: u64)"
    by (simp add: or_push_byte)
  ultimately show ?case
    using Suc.hyps(1) [of "Suc i" "a * 256 + unat (data ! i)"] Suc.hyps(2) Suc.prems i
    by (subst varint_loop.simps) (simp add: idx_in_range)
qed

lemma varint_prefix: "unat (drop_bit 6 (b :: u8)) \<le> 3"
proof -
  have "unat b < 256" using unsigned_less [of b, where ?'a = nat] by simp
  then have "unat b div 64 \<le> 3" by simp
  then show ?thesis by (simp add: drop_bit_eq_div unat_div)
qed

lemma varint_low: "unat (and b 0x3f :: u8) < 64"
proof -
  have "(0x3f :: u8) = mask 6" by (simp add: mask_eq_exp_minus_1)
  then have "and b 0x3f = take_bit 6 b" by (simp only: take_bit_eq_mask)
  then show ?thesis
    using take_bit_nat_less_exp [of 6 "unat b"] by (simp add: unsigned_take_bit_eq)
qed

lemma horner256_bound: "a < m \<Longrightarrow> horner256 a bs < m * 256 ^ length bs"
proof (induction bs arbitrary: a m)
  case (Cons b bs)
  have "unat b < 256" using unsigned_less [of b, where ?'a = nat] by simp
  then have "a * 256 + unat b < m * 256" using Cons.prems by simp
  from Cons.IH [OF this] show ?case by (simp add: ac_simps)
qed simp

definition varint_len :: "u8 \<Rightarrow> nat" where
  "varint_len b = 2 ^ unat (drop_bit 6 b)"

lemma varint_len_bounds: "1 \<le> varint_len b" "varint_len b \<le> 8"
proof -
  have "(2 :: nat) ^ unat (drop_bit 6 b) \<le> 2 ^ 3" by (rule power_increasing [OF varint_prefix]) simp
  then show "varint_len b \<le> 8" "1 \<le> varint_len b" by (simp_all add: varint_len_def)
qed

lemma read_varint_Nil [simp]: "read_varint [] = Some None"
  by (simp add: read_varint_def)

lemma read_varint_Cons:
  "read_varint (b # bs) =
     (if length bs + 1 < varint_len b then Some None
      else Some (Some (of_nat (horner256 (unat (and b 0x3f)) (take (varint_len b - 1) bs)), varint_len b)))"
proof -
  have "ucast (and b 0x3f) = (of_nat (unat (and b 0x3f)) :: u64)" by simp
  then show ?thesis
    using varint_loop_eq [of "varint_len b" "b # bs" 1 "unat (and b 0x3f)"] varint_len_bounds [of b]
    by (simp add: read_varint_def idx_in_range varint_len_def [symmetric] Let_def)
qed

lemma read_varint_total:
  obtains "read_varint data = Some None"
  | v n where "read_varint data = Some (Some (v, n))" "1 \<le> n" "n \<le> length data" "unat v < 2 ^ 62"
proof (cases data)
  case Nil
  then show ?thesis using that(1) by simp
next
  case (Cons b bs)
  show ?thesis
  proof (cases "length bs + 1 < varint_len b")
    case True
    then show ?thesis using that(1) Cons by (simp add: read_varint_Cons)
  next
    case False
    let ?h = "horner256 (unat (and b 0x3f)) (take (varint_len b - 1) bs)"
    have "?h < 64 * 256 ^ length (take (varint_len b - 1) bs)"
      by (rule horner256_bound) (rule varint_low)
    also have "\<dots> \<le> 64 * 256 ^ 7"
      using varint_len_bounds(2) [of b] by (intro mult_le_mono2 power_increasing) auto
    finally have "?h < 2 ^ 62" by simp
    then have "unat (of_nat ?h :: u64) < 2 ^ 62" by (simp add: unat_of_nat)
    then show ?thesis
      using that(2) [of "of_nat ?h" "varint_len b"] False Cons varint_len_bounds [of b]
      by (simp add: read_varint_Cons)
  qed
qed

section \<open>No panic\<close>

text \<open>A parser owes a result (never a panic) whose value satisfies a condition.\<close>

definition returns :: "('a \<Rightarrow> bool) \<Rightarrow> 'a option run \<Rightarrow> bool" where
  "returns P r \<longleftrightarrow> (\<exists>x. r = Some x \<and> (\<forall>v. x = Some v \<longrightarrow> P v))"

lemma returns_None [simp]: "returns P (Some None)"
  by (simp add: returns_def)

lemma returns_Some [simp]: "returns P (Some (Some v)) \<longleftrightarrow> P v"
  by (simp add: returns_def)

lemma returns_opt_try: "(\<And>v. x = Some v \<Longrightarrow> returns P (f v)) \<Longrightarrow> returns P (opt_try x f)"
  by (cases x) simp_all

lemma returns_bind_try:
  "returns Q r \<Longrightarrow> (\<And>v. Q v \<Longrightarrow> returns P (f v)) \<Longrightarrow> returns P (r \<bind> (\<lambda>x. opt_try x f))"
  by (auto simp: returns_def opt_try_def split: option.splits)

lemma returns_read_varint:
  "returns (\<lambda>(v, n). 1 \<le> n \<and> n \<le> length data \<and> unat v < 2 ^ 62) (read_varint data)"
  by (rule read_varint_total [of data]) simp_all

lemma crypto_frames_step:
  "crypto_frames payload pos acc =
     (if pos < length payload then
        (if payload ! pos = 0 \<or> payload ! pos = 1 then crypto_frames payload (pos + 1) acc
         else if payload ! pos = 6 then
           (if length payload \<le> pos + 1 then Some (Some acc)
            else read_varint (drop (pos + 1) payload) \<bind> (\<lambda>x. case x of
                None \<Rightarrow> Some None
              | Some (off, c1) \<Rightarrow>
                  (if length payload \<le> pos + 1 + c1 then Some (Some acc)
                   else read_varint (drop (pos + 1 + c1) payload) \<bind> (\<lambda>x. case x of
                       None \<Rightarrow> Some None
                     | Some (n, c2) \<Rightarrow>
                         (if length payload < pos + 1 + c1 + c2 + unat n then Some (Some acc)
                          else crypto_frames payload (pos + 1 + c1 + c2 + unat n)
                            (acc @ take (unat n) (drop (pos + 1 + c1 + c2) payload)))))))
         else Some (Some acc))
      else Some (Some acc))"
  by (subst crypto_frames.simps)
     (auto simp: idx_in_range slice_from_in_range subslice_in_range Let_def
       intro!: Option.bind_cong split: option.split)

lemma crypto_frames_total: "returns (\<lambda>v. True) (crypto_frames payload pos acc)"
proof (induction "length payload - pos" arbitrary: pos acc rule: less_induct)
  case less
  show ?case
  proof (cases "pos < length payload \<and> payload ! pos \<in> {0, 1, 6}")
    case False
    then show ?thesis by (subst crypto_frames_step) auto
  next
    case True
    then have pos: "pos < length payload" by blast
    have skip: "returns (\<lambda>v. True) (crypto_frames payload (pos + 1) acc)"
      by (rule less) (use pos in simp)
    show ?thesis
    proof (rule read_varint_total [of "drop (pos + 1) payload"])
      assume "read_varint (drop (pos + 1) payload) = Some None"
      then show ?thesis using skip pos by (subst crypto_frames_step) simp
    next
      fix off c1 assume off: "read_varint (drop (pos + 1) payload) = Some (Some (off, c1))"
      show ?thesis
      proof (rule read_varint_total [of "drop (pos + 1 + c1) payload"])
        assume "read_varint (drop (pos + 1 + c1) payload) = Some None"
        then show ?thesis using skip pos off by (subst crypto_frames_step) simp
      next
        fix n c2 assume n: "read_varint (drop (pos + 1 + c1) payload) = Some (Some (n, c2))"
        have "returns (\<lambda>v. True) (crypto_frames payload (pos + 1 + c1 + c2 + unat n) acc')" for acc'
          by (rule less) (use pos in simp)
        then show ?thesis using skip pos off n by (subst crypto_frames_step) simp
      qed
    qed
  qed
qed

lemma extract_crypto_data_total: "returns (\<lambda>v. v \<noteq> []) (extract_crypto_data payload)"
  using crypto_frames_total [of payload 0 "[]"]
  by (auto simp: extract_crypto_data_def returns_def split: option.splits)

lemma unmask_loop_total:
  "pn_offset + i + k \<le> length header \<Longrightarrow> i + k < length m \<Longrightarrow>
     \<exists>h. unmask_loop k i m header pn_offset = Some h \<and> length h = length header"
proof (induction k arbitrary: i header)
  case (Suc k)
  then show ?case
    using Suc.IH [of "Suc i" "header[pn_offset + i := xor (header ! (pn_offset + i)) (m ! Suc i)]"]
    by (simp add: idx_in_range)
qed simp

lemma pn_loop_total: "pn_offset + i + k \<le> length header \<Longrightarrow> \<exists>p. pn_loop k i header pn_offset pn = Some p"
  by (induction k arbitrary: i pn) (simp_all add: idx_in_range)

lemma nonce_loop_total:
  "i + k \<le> 8 \<Longrightarrow> length pn_bytes = 8 \<Longrightarrow> length nonce = 12 \<Longrightarrow>
     \<exists>n. nonce_loop k i pn_bytes nonce = Some n \<and> length n = 12"
  by (induction k arbitrary: i nonce) (simp_all add: idx_in_range)

lemma pn_len_bounds: "1 \<le> unat (and h 0x03 + 1 :: u8)" "unat (and h 0x03 + 1 :: u8) \<le> 4"
proof -
  have "(0x03 :: u8) = mask 2" by (simp add: mask_eq_exp_minus_1)
  then have "and h 0x03 = take_bit 2 h" by (simp only: take_bit_eq_mask)
  then have "unat (and h 0x03 :: u8) < 4"
    using take_bit_nat_less_exp [of 2 "unat h"] by (simp add: unsigned_take_bit_eq)
  then have "unat (and h 0x03 + 1 :: u8) = unat (and h 0x03) + 1"
    by (simp add: unat_word_ariths(1))
  then show "1 \<le> unat (and h 0x03 + 1 :: u8)" "unat (and h 0x03 + 1 :: u8) \<le> 4"
    using \<open>unat (and h 0x03) < 4\<close> by simp_all
qed

lemma derive_initial_keys_lengths:
  "crypto_laws c \<Longrightarrow> derive_initial_keys c dcid salt = Some keys \<Longrightarrow>
     length (ik_key keys) = 16 \<and> length (ik_iv keys) = 12 \<and> length (ik_hp keys) = 16"
  by (auto simp: derive_initial_keys_def crypto_laws_def Let_def split: bind_splits)

lemma compute_hp_mask_eq:
  "crypto_laws c \<Longrightarrow> length sample = 16 \<Longrightarrow>
     compute_hp_mask c hp sample = Some (take 5 (aes_encrypt_block c hp sample))
     \<and> length (take 5 (aes_encrypt_block c hp sample)) = 5"
  by (simp add: compute_hp_mask_def subslice_in_range crypto_laws_def)

lemma decrypt_initial_total:
  assumes laws: "crypto_laws c" and iv: "length (ik_iv keys) = 12"
    and pos: "1 \<le> pos" "pos + n \<le> length data"
  shows "returns (\<lambda>v. True) (decrypt_initial c data keys pos n)"
proof (cases "length data < pos + 4 + 16")
  case True
  then show ?thesis by (simp add: decrypt_initial_def)
next
  case False
  let ?sample = "take 16 (drop (pos + 4) data)"
  have sample: "subslice data (pos + 4) (pos + 4 + 16) = Some ?sample" "length ?sample = 16"
    using False by (simp_all add: subslice_in_range)
  obtain m where m: "compute_hp_mask c (ik_hp keys) ?sample = Some m" "length m = 5"
    using compute_hp_mask_eq [OF laws sample(2), of "ik_hp keys"] by metis
  let ?h = "take (pos + n) data"
  have h: "subslice data 0 (pos + n) = Some ?h" "idx ?h 0 = Some (?h ! 0)" "idx m 0 = Some (m ! 0)"
    using pos m(2) by (simp_all add: subslice_in_range idx_def)
  define h' where "h' = ?h[0 := xor (?h ! 0) (and (m ! 0) 0x0f)]"
  define k where "k = unat (and (h' ! 0) 0x03 + 1 :: u8)"
  have h': "idx h' 0 = Some (h' ! 0)" "length h' = pos + n"
    using pos by (simp_all add: h'_def idx_def)
  have k: "1 \<le> k" "k \<le> 4" unfolding k_def by (rule pn_len_bounds)+
  have enough: "(length data < pos + 4 + 16) = False" using False by simp
  note unfold = decrypt_initial_def Let_def enough if_False sample(1) bind.bind_lunit m(1) h
    h'_def [symmetric] h'(1) k_def [symmetric]
  show ?thesis
  proof (cases "length h' < pos + k")
    case True
    then show ?thesis unfolding unfold by simp
  next
    case fits: False
    obtain h2 where h2: "unmask_loop k 0 m h' pos = Some h2" "length h2 = length h'"
      using unmask_loop_total [of pos 0 k h' m] fits k m(2) by auto
    obtain pn where pn: "pn_loop k 0 h2 pos 0 = Some pn"
      using pn_loop_total [of pos 0 k h2 0] fits h2(2) by auto
    obtain nonce where nonce: "nonce_loop 8 0 (be_bytes64 pn) (ik_iv keys) = Some nonce"
      using nonce_loop_total [of 0 8 "be_bytes64 pn" "ik_iv keys"] iv by (auto simp: be_bytes64_def)
    have aad: "subslice h2 0 (pos + k) = Some (take (pos + k) h2)"
      using fits h2(2) by (simp add: subslice_in_range)
    have ct: "subslice data (pos + k) (pos + n) = Some (take (n - k) (drop (pos + k) data))"
      if "\<not> pos + n \<le> pos + k" using that pos by (simp add: subslice_in_range)
    have fits': "(length h' < pos + k) = False" using fits by simp
    show ?thesis
      unfolding unfold fits' h2(1) pn nonce aad using ct by (simp add: returns_def)
  qed
qed

lemma after_version_total:
  assumes laws: "crypto_laws c"
  shows "returns (\<lambda>v. True) (after_version c data salt)"
proof -
  have tail: "\<And>p. \<not> length data \<le> p \<Longrightarrow> slice_from data p = Some (drop p data)"
    by (simp add: slice_from_in_range)
  have key: "returns (\<lambda>v. True) (opt_try (derive_initial_keys c dcid salt)
      (\<lambda>keys. decrypt_initial c data keys p n))"
    if "1 \<le> p" "p + n \<le> length data" for dcid p n
    using that derive_initial_keys_lengths [OF laws]
    by (intro returns_opt_try decrypt_initial_total [OF laws]) auto
  show ?thesis
    unfolding after_version_def Let_def
    by (auto simp: idx_in_range subslice_in_range tail not_le not_less
        intro!: returns_bind_try [OF returns_read_varint] key)
qed

lemma returns_name_of: "name_of bs r \<Longrightarrow> returns (\<lambda>name. length name \<le> 65535) r"
  by (auto simp: name_of_def returns_def)

lemma extract_quic_sni_total:
  assumes "crypto_laws c"
  shows "returns (\<lambda>name. length name \<le> 65535) (extract_quic_sni c data)"
proof -
  have tls: "returns (\<lambda>name. length name \<le> 65535) (extract_tls_sni_from_handshake hs)" for hs
    by (rule returns_name_of [OF handshake_name_of])
  show ?thesis
    unfolding extract_quic_sni_def Let_def
    by (auto simp: idx_in_range idx_def
        intro!: returns_opt_try returns_bind_try [OF after_version_total [OF assms]]
          returns_bind_try [OF extract_crypto_data_total] tls)
qed

section \<open>The wire format\<close>

text \<open>What RFC 9000 and RFC 9001 prescribe for a client, without reference to the parser: a
  variable-length integer of \<open>2 ^ w\<close> bytes and the frames.\<close>

fun be_bytes :: "nat \<Rightarrow> nat \<Rightarrow> bytes" where
  "be_bytes 0 v = []"
| "be_bytes (Suc n) v = of_nat (v div 256 ^ n) # be_bytes n v"

definition encode_varint :: "nat \<Rightarrow> nat \<Rightarrow> bytes" where
  "encode_varint w v =
     (let n = 2 ^ w - 1
      in or (push_bit 6 (of_nat w)) (of_nat (v div 256 ^ n)) # be_bytes n v)"

definition varint_fits :: "nat \<Rightarrow> nat \<Rightarrow> bool" where
  "varint_fits w v \<longleftrightarrow> w \<le> 3 \<and> v < 64 * 256 ^ (2 ^ w - 1)"

lemma length_be_bytes [simp]: "length (be_bytes n v) = n"
  by (induction n) simp_all

lemma length_encode_varint [simp]: "length (encode_varint w v) = 2 ^ w"
  by (simp add: encode_varint_def Let_def)

lemma horner256_be_bytes: "horner256 a (be_bytes n v) = a * 256 ^ n + v mod 256 ^ n"
proof (induction n arbitrary: a)
  case (Suc n)
  have "unat (of_nat (v div 256 ^ n) :: u8) = v div 256 ^ n mod 256"
    by (simp add: unat_of_nat)
  moreover have "v mod (256 ^ n * 256) = 256 ^ n * (v div 256 ^ n mod 256) + v mod 256 ^ n"
    by (rule mod_mult2_eq)
  ultimately show ?case using Suc by (simp add: algebra_simps)
qed simp

lemma varint_first_byte:
  assumes "w \<le> 3" "h < 64"
  shows "drop_bit 6 (or (push_bit 6 (of_nat w)) (of_nat h :: u8)) = of_nat w"
    "and (or (push_bit 6 (of_nat w)) (of_nat h :: u8)) 0x3f = of_nat h"
proof -
  have h: "take_bit 6 (of_nat h :: u8) = of_nat h"
    unfolding take_bit_of_nat using assms(2) by (simp add: take_bit_nat_eq_self)
  have w: "take_bit 2 (of_nat w :: u8) = of_nat w"
    unfolding take_bit_of_nat using assms(1) by (simp add: take_bit_nat_eq_self)
  have m: "(0x3f :: u8) = mask 6" by (simp add: mask_eq_exp_minus_1)
  have "drop_bit 6 (or (push_bit 6 (take_bit 2 x)) (take_bit 6 y)) = take_bit 2 x" for x y :: u8
    by (rule bit_word_eqI) (auto simp: bit_simps)
  then show "drop_bit 6 (or (push_bit 6 (of_nat w)) (of_nat h :: u8)) = of_nat w"
    using h w by metis
  have "and (or (push_bit 6 x) (take_bit 6 y)) (mask 6) = take_bit 6 y" for x y :: u8
    by (rule bit_word_eqI) (auto simp: bit_simps)
  then show "and (or (push_bit 6 (of_nat w)) (of_nat h :: u8)) 0x3f = of_nat h"
    unfolding m using h by metis
qed

lemma read_encode_varint:
  assumes "varint_fits w v"
  shows "read_varint (encode_varint w v @ rest) = Some (Some (of_nat v, 2 ^ w))"
proof -
  let ?n = "2 ^ w - 1 :: nat"
  let ?h = "v div 256 ^ ?n"
  have w: "w \<le> 3" and v: "v < 64 * 256 ^ ?n" using assms by (auto simp: varint_fits_def)
  have h: "?h < 64" using v by (simp add: less_mult_imp_div_less)
  note first = varint_first_byte [OF w h]
  have len: "varint_len (or (push_bit 6 (of_nat w)) (of_nat ?h)) = 2 ^ w"
    unfolding varint_len_def first using w by (simp add: unat_of_nat)
  have "unat (and (or (push_bit 6 (of_nat w)) (of_nat ?h :: u8)) 0x3f) = ?h"
    unfolding first using h by (simp add: unat_of_nat)
  moreover have "horner256 ?h (be_bytes ?n v) = v"
    by (simp add: horner256_be_bytes div_mult_mod_eq)
  ultimately show ?thesis
    unfolding encode_varint_def Let_def append_Cons read_varint_Cons len by simp
qed

datatype frame = Padding | Ping | Crypto nat nat nat bytes

text \<open>The data of the CRYPTO frame \<open>Crypto wo off wl d\<close>, with the widths of its two integers.\<close>

fun encode_frame :: "frame \<Rightarrow> bytes" where
  "encode_frame Padding = [0]"
| "encode_frame Ping = [1]"
| "encode_frame (Crypto wo off wl d) = 6 # encode_varint wo off @ encode_varint wl (length d) @ d"

fun frame_data :: "frame \<Rightarrow> bytes" where
  "frame_data (Crypto wo off wl d) = d"
| "frame_data _ = []"

fun frame_fits :: "frame \<Rightarrow> bool" where
  "frame_fits (Crypto wo off wl d) \<longleftrightarrow> varint_fits wo off \<and> varint_fits wl (length d) \<and> d \<noteq> []"
| "frame_fits _ \<longleftrightarrow> True"

lemma varint_fits_unat: "varint_fits w v \<Longrightarrow> unat (of_nat v :: u64) = v"
proof -
  assume "varint_fits w v"
  then have "v < 64 * 256 ^ (2 ^ w - 1)" "w \<le> 3" by (auto simp: varint_fits_def)
  moreover have "(2 :: nat) ^ w \<le> 2 ^ 3" using \<open>w \<le> 3\<close> by (rule power_increasing) simp
  then have "(256 :: nat) ^ (2 ^ w - 1) \<le> 256 ^ 7" by (intro power_increasing) auto
  ultimately have "v < 2 ^ 64" by simp
  then show ?thesis by (simp add: unat_of_nat)
qed

lemma six_bytes: "((6 :: u8) = 0 \<or> (6 :: u8) = 1) = False"
  by simp

lemma crypto_frames_crypto:
  assumes o: "varint_fits wo off" and l: "varint_fits wl (length d)" and d: "d \<noteq> []"
    and p: "pos < length p" "p ! pos = 6"
      "drop (pos + 1) p = encode_varint wo off @ encode_varint wl (length d) @ d @ ys"
  shows "crypto_frames p pos acc
    = crypto_frames p (pos + (1 + 2 ^ wo + 2 ^ wl + length d)) (acc @ d)"
proof -
  have d2: "drop (pos + 1 + 2 ^ wo) p = encode_varint wl (length d) @ d @ ys"
    using p(3) by (metis drop_drop append_eq_conv_conj length_encode_varint add.commute)
  have d3: "drop (pos + 1 + 2 ^ wo + 2 ^ wl) p = d @ ys"
    using d2 by (metis drop_drop append_eq_conv_conj length_encode_varint add.commute)
  have "length (drop (pos + 1 + 2 ^ wo + 2 ^ wl) p) = length d + length ys" unfolding d3 by simp
  then have len: "length p = pos + 1 + 2 ^ wo + 2 ^ wl + length d + length ys"
    using d by (cases "length p \<le> pos + 1 + 2 ^ wo + 2 ^ wl") auto
  have c: "(length p \<le> pos + 1) = False" "(length p \<le> pos + 1 + 2 ^ wo) = False"
    "(length p < pos + 1 + 2 ^ wo + 2 ^ wl + length d) = False" "(pos < length p) = True"
    using d p(1) unfolding len by auto
  have here: "crypto_frames p pos acc
      = crypto_frames p (pos + 1 + 2 ^ wo + 2 ^ wl + length d) (acc @ take (length d) (d @ ys))"
    by (subst crypto_frames_step)
       (simp only: p(2,3) d2 d3 read_encode_varint [OF o] read_encode_varint [OF l] six_bytes
         varint_fits_unat [OF l] c bind.bind_lunit option.case prod.case if_False if_True refl)
  then show ?thesis by (simp add: ac_simps)
qed

lemma crypto_frames_skip:
  "pos < length p \<Longrightarrow> p ! pos = 0 \<or> p ! pos = 1 \<Longrightarrow> crypto_frames p pos acc = crypto_frames p (pos + 1) acc"
  by (subst crypto_frames_step) auto

lemma crypto_frames_encode:
  assumes "frame_fits f"
  shows "crypto_frames (xs @ encode_frame f @ ys) (length xs) acc
       = crypto_frames (xs @ encode_frame f @ ys) (length (xs @ encode_frame f)) (acc @ frame_data f)"
proof (cases f)
  case (Crypto wo off wl d)
  then have fits: "varint_fits wo off" "varint_fits wl (length d)" "d \<noteq> []" using assms by auto
  show ?thesis
    using crypto_frames_crypto [OF fits, of "length xs" "xs @ encode_frame f @ ys" ys acc]
    by (simp add: Crypto ac_simps)
next
  case Padding
  then show ?thesis
    using crypto_frames_skip [of "length xs" "xs @ encode_frame f @ ys" acc] by simp
next
  case Ping
  then show ?thesis
    using crypto_frames_skip [of "length xs" "xs @ encode_frame f @ ys" acc] by simp
qed

lemma crypto_frames_list:
  "\<forall>f \<in> set fs. frame_fits f \<Longrightarrow>
     crypto_frames (xs @ concat (map encode_frame fs)) (length xs) acc
       = Some (Some (acc @ concat (map frame_data fs)))"
proof (induction fs arbitrary: xs acc)
  case Nil
  show ?case by (subst crypto_frames_step) simp
next
  case (Cons f fs)
  then have "crypto_frames (xs @ encode_frame f @ concat (map encode_frame fs)) (length xs) acc
      = crypto_frames ((xs @ encode_frame f) @ concat (map encode_frame fs))
          (length (xs @ encode_frame f)) (acc @ frame_data f)"
    using crypto_frames_encode [of f xs "concat (map encode_frame fs)" acc] by simp
  also have "\<dots> = Some (Some ((acc @ frame_data f) @ concat (map frame_data fs)))"
    using Cons by (intro Cons.IH) simp
  finally show ?case by simp
qed

section \<open>Properties\<close>

text \<open>A variable-length integer of any of the four widths reads back, wherever it stands, and what
  is read is always below \<open>2 ^ 62\<close>, so that no position computed from it wraps.\<close>

theorem varint_roundtrip:
  assumes "varint_fits w v"
  shows "read_varint (encode_varint w v @ rest) = Some (Some (of_nat v, 2 ^ w))
    \<and> returns (\<lambda>(x, n). n \<le> length data \<and> unat x < 2 ^ 62) (read_varint data)"
  using read_encode_varint [OF assms] returns_read_varint [of data]
  by (auto simp: returns_def split: prod.splits)

theorem varint_roundtrip_witness:
  "read_varint (encode_varint 1 15293 @ [9]) = Some (Some (15293, 2))"
  using varint_roundtrip [of 1 15293 "[9]" "[]"] by (simp add: varint_fits_def)

text \<open>C24: on every datagram, whatever the cryptographic primitives return, the parser of QUIC Initial
  packets ends without a panic, and a name it finds is at most 65535 bytes long.\<close>

theorem quic_sni_safe:
  assumes "crypto_laws c"
  shows "returns (\<lambda>name. length name \<le> 65535) (extract_quic_sni c data)"
  using assms by (rule extract_quic_sni_total)

text \<open>An instance of the primitives: a key expands to zeros, a block encrypts to itself, and a
  ciphertext is the plaintext with a tag of 16 bytes.\<close>

definition plain_crypto :: crypto where
  "plain_crypto =
     \<lparr>hkdf_new = (\<lambda>salt ikm. ikm), hkdf_from_prk = Some,
      hkdf_expand = (\<lambda>prk info n. Some (replicate n 0)),
      aes_encrypt_block = (\<lambda>key block. block),
      gcm_decrypt = (\<lambda>key nonce aad ct. if length ct < 16 then None else Some (take (length ct - 16) ct))\<rparr>"

lemma plain_crypto_laws: "crypto_laws plain_crypto"
  by (simp add: crypto_laws_def plain_crypto_def)

theorem quic_sni_safe_witness:
  "returns (\<lambda>name. length name \<le> 65535) (extract_quic_sni plain_crypto [0xC0, 0, 0, 0, 1, 0xFF])"
  by (rule quic_sni_safe [OF plain_crypto_laws])

text \<open>The data of the CRYPTO frames is put together in the order of arrival, padding and pings
  skipped; the offsets are ignored, so frames that arrive in another order than their offsets say are
  assembled in the wrong order.\<close>

theorem crypto_data_in_arrival_order:
  assumes "\<forall>f \<in> set fs. frame_fits f"
  shows "extract_crypto_data (concat (map encode_frame fs))
    = Some (let d = concat (map frame_data fs) in if d = [] then None else Some d)"
  using crypto_frames_list [OF assms, of "[]" "[]"] by (simp add: extract_crypto_data_def Let_def)

theorem crypto_data_in_arrival_order_witness:
  "extract_crypto_data (concat (map encode_frame
     [Crypto 0 2 0 [3, 4], Padding, Ping, Crypto 0 0 0 [1, 2]])) = Some (Some [3, 4, 1, 2])"
  using crypto_data_in_arrival_order [of "[Crypto 0 2 0 [3, 4], Padding, Ping, Crypto 0 0 0 [1, 2]]"]
  by (simp add: varint_fits_def)

end
