(* ===== verification/QuicPacket.thy ===== *)
theory QuicPacket
  imports Quic
begin

text \<open>
  A whole QUIC Initial packet, as RFC 9000 and RFC 9001 have a client build and protect it, against
  the parser of \<open>src/dataplane/quic.rs\<close>: the parser removes the protection and finds the server name.
  Encryption is a parameter that the receiver's \<open>gcm_decrypt\<close> undoes.
\<close>

section \<open>A protected Initial packet\<close>

text \<open>
  The packet of a client: its connection identifiers, token, packet number (in \<open>qp_pn_len\<close> bytes) and
  frames; \<open>seal\<close> is the encryption that the receiver's \<open>gcm_decrypt\<close> undoes.
\<close>

record quic_packet =
  qp_dcid :: bytes
  qp_scid :: bytes
  qp_token :: bytes
  qp_token_width :: nat
  qp_length_width :: nat
  qp_pn_len :: nat
  qp_pn :: nat
  qp_plaintext :: bytes

type_synonym seal = "bytes \<Rightarrow> bytes \<Rightarrow> bytes \<Rightarrow> bytes \<Rightarrow> bytes"

definition seal_laws :: "crypto \<Rightarrow> seal \<Rightarrow> bool" where
  "seal_laws c seal \<longleftrightarrow>
     (\<forall>key nonce aad pt. gcm_decrypt c key nonce aad (seal key nonce aad pt) = Some pt
        \<and> length (seal key nonce aad pt) = length pt + 16)"

definition quic_nonce :: "bytes \<Rightarrow> nat \<Rightarrow> bytes" where
  "quic_nonce iv pn = take 4 iv @ map2 xor (drop 4 iv) (be_bytes 8 pn)"

text \<open>The long header of version 1 up to the packet number.\<close>

definition quic_prefix :: "quic_packet \<Rightarrow> bytes" where
  "quic_prefix q =
     [0, 0, 0, 1] @ len8 (qp_dcid q) @ len8 (qp_scid q)
     @ encode_varint (qp_token_width q) (length (qp_token q)) @ qp_token q
     @ encode_varint (qp_length_width q) (qp_pn_len q + length (qp_plaintext q) + 16)"

definition first_byte :: "quic_packet \<Rightarrow> u8" where
  "first_byte q = 0xC0 + of_nat (qp_pn_len q - 1)"

definition protect_packet :: "crypto \<Rightarrow> seal \<Rightarrow> initial_keys \<Rightarrow> quic_packet \<Rightarrow> bytes" where
  "protect_packet c seal keys q =
     (let pn = be_bytes (qp_pn_len q) (qp_pn q);
          header = first_byte q # quic_prefix q @ pn;
          ciphertext = seal (ik_key keys) (quic_nonce (ik_iv keys) (qp_pn q)) header (qp_plaintext q);
          sample = take 16 (drop 4 (pn @ ciphertext));
          m = take 5 (aes_encrypt_block c (ik_hp keys) sample)
      in xor (first_byte q) (and (m ! 0) 0x0f) # quic_prefix q
           @ map2 xor pn (take (qp_pn_len q) (drop 1 m)) @ ciphertext)"

definition quic_packet_wf :: "quic_packet \<Rightarrow> bool" where
  "quic_packet_wf q \<longleftrightarrow>
     length (qp_dcid q) \<le> 255 \<and> length (qp_scid q) \<le> 255
     \<and> varint_fits (qp_token_width q) (length (qp_token q))
     \<and> varint_fits (qp_length_width q) (qp_pn_len q + length (qp_plaintext q) + 16)
     \<and> 1 \<le> qp_pn_len q \<and> qp_pn_len q \<le> 4 \<and> qp_pn q < 256 ^ qp_pn_len q
     \<and> 4 \<le> length (qp_plaintext q)"

text \<open>The loops of the parser on the bytes of a packet.\<close>

lemma unmask_loop_eq:
  "length ys = k \<Longrightarrow> length ms = k \<Longrightarrow>
     unmask_loop k i (m0 # ps @ ms @ rest) (xs @ zs @ ys @ ts) n = Some (xs @ zs @ map2 xor ys ms @ ts)"
  if "length xs = n" "length zs = i" "length ps = i"
  using that
proof (induction k arbitrary: i zs ps ys ms)
  case (Suc k)
  obtain y ys' where ys: "ys = y # ys'" using Suc.prems by (cases ys) auto
  obtain m ms' where ms: "ms = m # ms'" using Suc.prems by (cases ms) auto
  have "idx (xs @ zs @ ys @ ts) (n + i) = Some y"
    using Suc.prems by (simp add: idx_def nth_append ys)
  moreover have "idx (m0 # ps @ ms @ rest) (1 + i) = Some m"
    using Suc.prems by (simp add: idx_def nth_append ms)
  moreover have "(xs @ zs @ ys @ ts)[n + i := xor y m] = xs @ (zs @ [xor y m]) @ ys' @ ts"
    using Suc.prems by (simp add: ys list_update_append)
  moreover have "unmask_loop k (Suc i) (m0 # (ps @ [m]) @ ms' @ rest) (xs @ (zs @ [xor y m]) @ ys' @ ts) n
      = Some (xs @ (zs @ [xor y m]) @ map2 xor ys' ms' @ ts)"
    using Suc.prems by (intro Suc.IH) (auto simp: ys ms)
  ultimately show ?case by (simp add: ys ms)
qed simp

lemma pn_loop_eq:
  "length xs = n \<Longrightarrow> length zs = i \<Longrightarrow>
     pn_loop (length ys) i (xs @ zs @ ys @ ts) n (of_nat a) = Some (of_nat (horner256 a ys))"
proof (induction ys arbitrary: i zs a)
  case (Cons y ys)
  have "idx (xs @ zs @ (y # ys) @ ts) (n + i) = Some y"
    using Cons.prems by (simp add: idx_def nth_append)
  moreover have "or (push_bit 8 (of_nat a)) (ucast y) = (of_nat (a * 256 + unat y) :: u64)"
    by (simp add: or_push_byte)
  moreover have "pn_loop (length ys) (Suc i) (xs @ (zs @ [y]) @ ys @ ts) n (of_nat (a * 256 + unat y))
      = Some (of_nat (horner256 (a * 256 + unat y) ys))"
    using Cons.prems by (intro Cons.IH) auto
  ultimately show ?case by simp
qed simp

lemma be_bytes_map: "be_bytes n v = map (\<lambda>i. of_nat (v div 256 ^ (n - 1 - i))) [0..<n]"
proof (induction n)
  case (Suc n)
  have "[0..<Suc n] = 0 # map Suc [0..<n]" by (simp add: upt_conv_Cons map_Suc_upt del: upt_Suc)
  then show ?case using Suc by (simp del: upt_Suc)
qed simp

lemma be_bytes64_eq: "be_bytes64 (of_nat v) = be_bytes 8 v" if "v < 2 ^ 64"
proof -
  have "ucast (drop_bit (8 * n) (of_nat v :: u64)) = (of_nat (v div 256 ^ n) :: u8)" if "n < 8" for n
  proof -
    have "unat (drop_bit (8 * n) (of_nat v :: u64)) = v div 2 ^ (8 * n)"
      using \<open>v < 2 ^ 64\<close> unfolding unsigned_drop_bit_eq
      by (simp add: unat_of_nat take_bit_nat_eq_self drop_bit_eq_div)
    then have "drop_bit (8 * n) (of_nat v :: u64) = of_nat (v div 2 ^ (8 * n))"
      by (metis of_nat_unat ucast_id)
    moreover have "v div 256 ^ n < 2 ^ 64"
      using \<open>v < 2 ^ 64\<close> div_le_dividend le_less_trans by blast
    ultimately show ?thesis by (simp add: power_mult unsigned_of_nat take_bit_nat_eq_self)
  qed
  then have "map (\<lambda>i. ucast (drop_bit (56 - 8 * i) (of_nat v :: u64)) :: u8) [0..<8]
      = map (\<lambda>i. of_nat (v div 256 ^ (8 - 1 - i))) [0..<8]"
  proof (intro map_cong refl)
    fix i assume "i \<in> set [0..<8]"
    then have "56 - 8 * i = 8 * (7 - i)" "7 - i < 8" by auto
    then show "ucast (drop_bit (56 - 8 * i) (of_nat v :: u64)) = (of_nat (v div 256 ^ (8 - 1 - i)) :: u8)"
      using \<open>\<And>n. n < 8 \<Longrightarrow> ucast (drop_bit (8 * n) (of_nat v :: u64)) = (of_nat (v div 256 ^ n) :: u8)\<close>
      by simp
  qed
  then show ?thesis by (simp add: be_bytes64_def be_bytes_map)
qed

lemma nonce_loop_eq:
  "length xs = 4 \<Longrightarrow> length zs = i \<Longrightarrow> length bs = i \<Longrightarrow> length cs = length ys \<Longrightarrow>
     nonce_loop (length ys) i (bs @ cs) (xs @ zs @ ys) = Some (xs @ zs @ map2 xor ys cs)"
proof (induction ys arbitrary: i zs bs cs)
  case (Cons y ys)
  obtain b cs' where cs: "cs = b # cs'" using Cons.prems by (cases cs) auto
  have "idx (xs @ zs @ y # ys) (12 - 8 + i) = Some y"
    using Cons.prems by (simp add: idx_def nth_append)
  moreover have "idx (bs @ cs) i = Some b" using Cons.prems by (simp add: idx_def nth_append cs)
  moreover have "(xs @ zs @ y # ys)[12 - 8 + i := xor y b] = xs @ (zs @ [xor y b]) @ ys"
    using Cons.prems by (simp add: list_update_append)
  moreover have "nonce_loop (length ys) (i + 1) ((bs @ [b]) @ cs') (xs @ (zs @ [xor y b]) @ ys)
      = Some (xs @ (zs @ [xor y b]) @ map2 xor ys cs')"
    using Cons.prems by (intro Cons.IH) (auto simp: cs)
  ultimately show ?case by (simp add: cs)
qed simp

lemma nonce_eq:
  assumes "length iv = 12" "v < 2 ^ 64"
  shows "nonce_loop 8 0 (be_bytes64 (of_nat v)) iv = Some (quic_nonce iv v)"
  using nonce_loop_eq [of "take 4 iv" "[]" 0 "[]" "be_bytes 8 v" "drop 4 iv"] assms
  by (simp add: be_bytes64_eq quic_nonce_def)

text \<open>The bits of the first byte: the four low ones are protected, the others are not.\<close>

lemma low_bits:
  "and (xor x (and y 0x0f)) 0x80 = and x 0x80" "and (xor x (and y 0x0f)) 0x30 = and x 0x30"
  for x y :: u8
proof -
  have keep: "and (xor x (and y (mask 4))) (push_bit 4 z) = and x (push_bit 4 z)" for z :: u8
    by (rule bit_word_eqI) (auto simp: bit_simps)
  have "(0x0f :: u8) = mask 4" by (simp add: mask_eq_exp_minus_1)
  then show "and (xor x (and y 0x0f)) 0x80 = and x 0x80" "and (xor x (and y 0x0f)) 0x30 = and x 0x30"
    using keep [of 8] keep [of 3] by simp_all
qed

lemma first_byte_bits:
  assumes "1 \<le> qp_pn_len q" "qp_pn_len q \<le> 4"
  shows "and (first_byte q) 0x80 = 0x80" "and (first_byte q) 0x30 = 0"
    "unat (and (first_byte q) 0x03 + 1) = qp_pn_len q"
proof -
  have "qp_pn_len q \<in> {1, 2, 3, 4}" using assms by auto
  then show "and (first_byte q) 0x80 = 0x80" "and (first_byte q) 0x30 = 0"
    "unat (and (first_byte q) 0x03 + 1) = qp_pn_len q"
    by (auto simp: first_byte_def)
qed

lemma xor_twice: "length ms = length ys \<Longrightarrow> map2 xor (map2 xor ys ms) ms = ys" for ys :: bytes
  by (induction ys ms rule: list_induct2') (simp_all add: xor.assoc)

text \<open>The unprotected header, packet number and ciphertext of a packet, and what follows it.\<close>

lemma decrypt_protected:
  assumes laws: "crypto_laws c" "seal_laws c seal" and iv: "length (ik_iv keys) = 12"
    and k: "1 \<le> length pn" "length pn \<le> 4" "unat (and fb 0x03 + 1 :: u8) = length pn"
    and v: "horner256 0 pn = v" "v < 2 ^ 64"
    and ct: "ct = seal (ik_key keys) (quic_nonce (ik_iv keys) v) (fb # pre @ pn) pt" "4 \<le> length pt"
    and m: "m = take 5 (aes_encrypt_block c (ik_hp keys) (take 16 (drop 4 (pn @ ct))))"
    and data: "data = xor fb (and (m ! 0) 0x0f) # pre @ map2 xor pn (take (length pn) (drop 1 m)) @ ct @ rest"
  shows "decrypt_initial c data keys (1 + length pre) (length pn + length ct) = Some (Some pt)"
proof -
  let ?pos = "1 + length pre" and ?n = "length pn + length ct"
  let ?f = "xor fb (and (m ! 0) 0x0f)" and ?ms = "take (length pn) (drop 1 m)"
  let ?p = "map2 xor pn ?ms"
  have lct: "20 \<le> length ct" using laws(2) ct by (simp add: seal_laws_def)
  have sample_len: "length (take 16 (drop 4 (pn @ ct))) = 16" using lct k by simp
  have hp: "compute_hp_mask c (ik_hp keys) (take 16 (drop 4 (pn @ ct))) = Some m" "length m = 5"
    unfolding m using compute_hp_mask_eq [OF laws(1) sample_len, of "ik_hp keys"] by auto
  have lms: "length ?ms = length pn" using k hp(2) by simp
  have sample: "subslice data (?pos + 4) (?pos + 4 + 16) = Some (take 16 (drop 4 (pn @ ct)))"
  proof -
    have "data = (?f # pre) @ ?p @ ct @ rest" using data by simp
    moreover have "drop (length xs + 4) (xs @ zs) = drop 4 zs" for xs zs :: bytes by simp
    ultimately have "drop (length (?f # pre) + 4) data = drop 4 (?p @ ct @ rest)" by metis
    then have "drop (?pos + 4) data = drop 4 ?p @ drop (4 - length pn) ct @ rest"
      using lct lms k by simp
    moreover have "?pos + 20 \<le> length data" unfolding data using lct lms by simp
    ultimately show ?thesis using lct k by (simp add: subslice_def lms)
  qed
  have header: "subslice data 0 (?pos + ?n) = Some (?f # pre @ ?p @ ct)"
    unfolding data using lms by (simp add: subslice_def)
  have h0: "idx (?f # pre @ ?p @ ct) 0 = Some ?f" "idx m 0 = Some (m ! 0)"
    "(?f # pre @ ?p @ ct)[0 := xor ?f (and (m ! 0) 0x0f)] = fb # pre @ ?p @ ct"
    "idx (fb # pre @ ?p @ ct) 0 = Some fb"
    using hp(2) by (simp_all add: idx_def xor.assoc)
  have enough: "(length data < ?pos + 4 + 16) = False" "(length (fb # pre @ ?p @ ct) < ?pos + length pn) = False"
    "(?pos + ?n \<le> ?pos + length pn) = False"
    unfolding data using lct lms by auto
  have "m = m ! 0 # [] @ ?ms @ drop (1 + length pn) m"
    using hp(2) k by (cases m) (simp_all add: drop_drop [symmetric])
  then have um: "unmask_loop (length pn) 0 m (fb # pre @ ?p @ ct) ?pos = Some (fb # pre @ pn @ ct)"
    using unmask_loop_eq [of "fb # pre" ?pos "[]" 0 "[]" ?p "length pn" ?ms "m ! 0"
        "drop (1 + length pn) m" ct] lms xor_twice [OF lms] by simp
  have pn: "pn_loop (length pn) 0 (fb # pre @ pn @ ct) ?pos 0 = Some (of_nat v)"
    using pn_loop_eq [of "fb # pre" ?pos "[]" 0 pn ct 0] v(1) by simp
  have aad: "subslice (fb # pre @ pn @ ct) 0 (?pos + length pn) = Some (fb # pre @ pn)"
    by (simp add: subslice_def)
  have ct': "subslice data (?pos + length pn) (?pos + ?n) = Some ct"
    unfolding data using lms by (simp add: subslice_def)
  have dec: "gcm_decrypt c (ik_key keys) (quic_nonce (ik_iv keys) v) (fb # pre @ pn) ct = Some pt"
    using laws(2) ct(1) by (simp add: seal_laws_def)
  show ?thesis
    unfolding decrypt_initial_def Let_def enough(1) if_False sample bind.bind_lunit hp(1) header h0 k(3)
      enough(2) um pn nonce_eq [OF iv v(2)] aad enough(3) ct' dec by simp
qed

text \<open>The header fields in front of the packet number, read one after the other.\<close>

lemma idx_append: "idx (xs @ y # ys) (length xs) = Some y"
  by (simp add: idx_def)

lemma subslice_append: "subslice (xs @ ys @ zs) (length xs) (length xs + length ys) = Some ys"
  by (simp add: subslice_def)

lemma slice_from_append: "slice_from (xs @ ys) (length xs) = Some ys"
  by (simp add: slice_from_def)

lemma after_version_header:
  assumes dcid: "length dcid \<le> 255" and scid: "length scid \<le> 255"
    and token: "varint_fits tw (length token)" and len: "varint_fits lw n"
    and body: "n \<le> length body" "body \<noteq> []"
    and data: "data = b # v @ len8 dcid @ len8 scid @ encode_varint tw (length token) @ token
      @ encode_varint lw n @ body" "length v = 4"
  shows "after_version c data salt
    = opt_try (derive_initial_keys c dcid salt) (\<lambda>keys. decrypt_initial c data keys (length data - length body) n)"
proof -
  let ?d = "of_nat (length dcid) :: u8" and ?s = "of_nat (length scid) :: u8"
  let ?tv = "encode_varint tw (length token)" and ?lv = "encode_varint lw n"
  have w: "unat ?d = length dcid" "unat ?s = length scid" using dcid scid by (simp_all add: unat_of_nat)
  let ?p1 = "5 + 1 + length dcid" and ?p2 = "5 + 1 + length dcid + (1 + length scid)"
  let ?p3 = "?p2 + (2 ^ tw + length token)" and ?p4 = "?p2 + (2 ^ tw + length token) + 2 ^ lw"
  have reads:
    "idx data 5 = Some ?d"
    "subslice data (5 + 1) ?p1 = Some dcid"
    "idx data ?p1 = Some ?s"
    "slice_from data ?p2 = Some (?tv @ token @ ?lv @ body)"
    "slice_from data ?p3 = Some (?lv @ body)"
    using data(2)
      idx_append [of "b # v" ?d "dcid @ len8 scid @ ?tv @ token @ ?lv @ body"]
      subslice_append [of "b # v @ [?d]" dcid "len8 scid @ ?tv @ token @ ?lv @ body"]
      idx_append [of "b # v @ len8 dcid" ?s "scid @ ?tv @ token @ ?lv @ body"]
      slice_from_append [of "b # v @ len8 dcid @ len8 scid" "?tv @ token @ ?lv @ body"]
      slice_from_append [of "b # v @ len8 dcid @ len8 scid @ ?tv @ token" "?lv @ body"]
    unfolding data(1) by (simp_all add: len8_def ac_simps)
  have total: "length data = ?p4 + length body" unfolding data(1) using data(2) by simp
  have long: "(length data \<le> 5) = False" "(length data < ?p1) = False" "(length data \<le> ?p1) = False"
    "(length data \<le> ?p2) = False" "(length data \<le> ?p3) = False" "(length data < ?p4 + n) = False"
    unfolding total using body by auto
  have pos: "length data - length body = ?p4" unfolding total by simp
  note tv = read_encode_varint [OF token, of "token @ ?lv @ body"]
  note lv = read_encode_varint [OF len, of body]
  show ?thesis
    unfolding after_version_def Let_def long if_False reads bind.bind_lunit w tv opt_try_simps
      prod.case varint_fits_unat [OF token] varint_fits_unat [OF len] lv pos by simp
qed

text \<open>The parser opens a protected packet: what is left is to parse its frames.\<close>

lemma after_version_protected:
  assumes laws: "crypto_laws c" "seal_laws c seal" and wf: "quic_packet_wf q"
    and keys: "derive_initial_keys c (qp_dcid q) quic_v1_salt = Some keys"
  shows "after_version c (protect_packet c seal keys q @ rest) quic_v1_salt = Some (Some (qp_plaintext q))"
proof -
  define pn where "pn = be_bytes (qp_pn_len q) (qp_pn q)"
  define ct where "ct = seal (ik_key keys) (quic_nonce (ik_iv keys) (qp_pn q))
    (first_byte q # quic_prefix q @ pn) (qp_plaintext q)"
  define m where "m = take 5 (aes_encrypt_block c (ik_hp keys) (take 16 (drop 4 (pn @ ct))))"
  define body where "body = map2 xor pn (take (length pn) (drop 1 m)) @ ct @ rest"
  define b where "b = xor (first_byte q) (and (m ! 0) 0x0f)"
  have k: "1 \<le> length pn" "length pn \<le> 4" "length pn = qp_pn_len q"
    using wf by (simp_all add: quic_packet_wf_def pn_def)
  have lct: "length ct = length (qp_plaintext q) + 16" "4 \<le> length (qp_plaintext q)"
    using laws(2) wf by (simp_all add: ct_def seal_laws_def quic_packet_wf_def)
  have "length (take 16 (drop 4 (pn @ ct))) = 16" using lct k by simp
  then have lm: "length m = 5"
    unfolding m_def using compute_hp_mask_eq [OF laws(1), of _ "ik_hp keys"] by blast
  have data: "protect_packet c seal keys q @ rest = b # quic_prefix q @ body"
    by (simp add: protect_packet_def Let_def pn_def ct_def m_def body_def b_def k)
  have body: "length pn + length ct \<le> length body" "body \<noteq> []"
    using lm k lct by (auto simp: body_def)
  have header: "length (qp_dcid q) \<le> 255" "length (qp_scid q) \<le> 255"
    "varint_fits (qp_token_width q) (length (qp_token q))"
    "varint_fits (qp_length_width q) (length pn + length ct)"
    using wf lct(1) by (simp_all add: quic_packet_wf_def k(3) ac_simps)
  have pre: "b # quic_prefix q @ body = b # [0, 0, 0, 1] @ len8 (qp_dcid q) @ len8 (qp_scid q)
      @ encode_varint (qp_token_width q) (length (qp_token q)) @ qp_token q
      @ encode_varint (qp_length_width q) (length pn + length ct) @ body"
    by (simp add: quic_prefix_def k lct ac_simps)
  have "after_version c (b # quic_prefix q @ body) quic_v1_salt
      = decrypt_initial c (b # quic_prefix q @ body) keys
          (length (b # quic_prefix q @ body) - length body) (length pn + length ct)"
    using after_version_header [OF header body pre] by (simp add: keys)
  also have "length (b # quic_prefix q @ body) - length body = 1 + length (quic_prefix q)" by simp
  also have "decrypt_initial c (b # quic_prefix q @ body) keys (1 + length (quic_prefix q))
      (length pn + length ct) = Some (Some (qp_plaintext q))"
  proof (rule decrypt_protected [OF laws _ k(1,2) _ _ _ ct_def lct(2) m_def])
    show "length (ik_iv keys) = 12" using derive_initial_keys_lengths [OF laws(1) keys] by blast
    show "unat (and (first_byte q) 0x03 + 1) = length pn" using first_byte_bits(3) k by simp
    have v: "qp_pn q < 256 ^ qp_pn_len q" using wf by (simp add: quic_packet_wf_def)
    then show "horner256 0 pn = qp_pn q" by (simp add: pn_def horner256_be_bytes)
    have "(256 :: nat) ^ qp_pn_len q \<le> 256 ^ 4" using k by (intro power_increasing) simp_all
    then show "qp_pn q < 2 ^ 64" using v by simp
    show "b # quic_prefix q @ body = xor (first_byte q) (and (m ! 0) 0x0f) # quic_prefix q
        @ map2 xor pn (take (length pn) (drop 1 m)) @ ct @ rest"
      by (simp add: body_def b_def)
  qed
  finally show ?thesis unfolding data .
qed

lemma version_one: "u32_from_be_bytes 0 0 0 1 = 1"
  by (simp add: u32_from_be_bytes_def)

lemma extract_protected:
  assumes laws: "crypto_laws c" "seal_laws c seal" and wf: "quic_packet_wf q"
    and keys: "derive_initial_keys c (qp_dcid q) quic_v1_salt = Some keys"
  shows "extract_quic_sni c (protect_packet c seal keys q @ rest)
    = extract_crypto_data (qp_plaintext q) \<bind> (\<lambda>ch. opt_try ch extract_tls_sni_from_handshake)"
proof -
  let ?data = "protect_packet c seal keys q @ rest"
  obtain x tl where d: "?data = xor (first_byte q) (and x 0x0f) # [0, 0, 0, 1] @ tl"
    by (auto simp: protect_packet_def Let_def quic_prefix_def)
  have pn: "1 \<le> qp_pn_len q" "qp_pn_len q \<le> 4" using wf by (simp_all add: quic_packet_wf_def)
  have reads: "idx ?data 0 = Some (xor (first_byte q) (and x 0x0f))" "idx ?data 1 = Some 0"
    "idx ?data 2 = Some 0" "idx ?data 3 = Some 0" "idx ?data 4 = Some 1" "(length ?data < 5) = False"
    unfolding d by (simp_all add: idx_def)
  show ?thesis
    unfolding extract_quic_sni_def Let_def reads bind.bind_lunit low_bits first_byte_bits [OF pn] version_one
    by (simp add: after_version_protected [OF assms])
qed

lemma extract_hello_packet:
  assumes "crypto_laws c" "seal_laws c seal" "quic_packet_wf q"
    and "derive_initial_keys c (qp_dcid q) quic_v1_salt = Some keys"
    and "qp_plaintext q = concat (map encode_frame fs)" "\<forall>f \<in> set fs. frame_fits f"
    and "concat (map frame_data fs) = encode_handshake (encode_hello h)"
    and "hello_wf h" "ch_extensions h = pre @ (0, server_name_data name) # post"
    and "\<forall>e \<in> set pre. fst e \<noteq> 0"
  shows "extract_quic_sni c (protect_packet c seal keys q @ rest) = Some (from_utf8 name)"
proof -
  have "length (encode_hello h) < 2 ^ 24" using assms(8) by (simp add: hello_wf_def encode_hello_def)
  then have tls: "extract_tls_sni_from_handshake (encode_handshake (encode_hello h)) = Some (from_utf8 name)"
    using sni_of_encode_hello [OF assms(8-10)] by (simp add: handshake_encode)
  have "extract_crypto_data (qp_plaintext q) = Some (Some (encode_handshake (encode_hello h)))"
    using crypto_frames_list [OF assms(6), of "[]" "[]"] assms(5,7)
    by (simp add: extract_crypto_data_def encode_handshake_def Let_def)
  then show ?thesis by (simp add: extract_protected [OF assms(1-4)] tls)
qed

section \<open>An instance\<close>

text \<open>An instance of encryption: sealing appends a tag of 16 zeros.\<close>

definition plain_seal :: seal where
  "plain_seal key nonce aad pt = pt @ replicate 16 0"

lemma plain_seal_laws: "seal_laws plain_crypto plain_seal"
  by (simp add: seal_laws_def plain_crypto_def plain_seal_def)

definition example_frames :: "frame list" where
  "example_frames =
     (let d = encode_handshake (encode_hello example_hello)
      in [Ping, Crypto 0 0 0 (take 20 d), Padding, Crypto 1 20 1 (drop 20 d), Padding])"

definition example_packet :: quic_packet where
  "example_packet =
     \<lparr>qp_dcid = [1, 2, 3, 4, 5, 6, 7, 8], qp_scid = [9], qp_token = [], qp_token_width = 0,
      qp_length_width = 1, qp_pn_len = 2, qp_pn = 258,
      qp_plaintext = concat (map encode_frame example_frames)\<rparr>"

lemma example_hello_length: "length (encode_handshake (encode_hello example_hello)) = 67"
  by (simp add: encode_handshake_def encode_hello_def example_hello_def server_name_data_def
      bytes_of_str_def Let_def)

definition example_keys :: initial_keys where
  "example_keys = \<lparr>ik_key = replicate 16 0, ik_iv = replicate 12 0, ik_hp = replicate 16 0\<rparr>"

lemma example_packet_facts:
  "quic_packet_wf example_packet"
  "derive_initial_keys plain_crypto (qp_dcid example_packet) quic_v1_salt = Some example_keys"
  "qp_plaintext example_packet = concat (map encode_frame example_frames)"
  "\<forall>f \<in> set example_frames. frame_fits f"
  "concat (map frame_data example_frames) = encode_handshake (encode_hello example_hello)"
  "hello_wf example_hello"
  "ch_extensions example_hello = [(43, [2, 3, 4])] @ (0, server_name_data (bytes_of_str ''a.b'')) # []"
  "\<forall>e \<in> set [(43, [2, 3, 4 :: u8])]. fst e \<noteq> (0 :: u16)"
  "from_utf8 (bytes_of_str ''a.b'') = Some ''a.b''"
proof -
  let ?d = "encode_handshake (encode_hello example_hello)"
  have len: "length ?d = 67" by (rule example_hello_length)
  show "\<forall>f \<in> set example_frames. frame_fits f"
    by (simp add: example_frames_def Let_def varint_fits_def len take_eq_Nil drop_eq_Nil)
       (use len in auto)
  show "concat (map frame_data example_frames) = ?d"
    by (simp add: example_frames_def Let_def)
  have "length (concat (map encode_frame example_frames)) = 78"
    by (simp add: example_frames_def Let_def len)
  then show "quic_packet_wf example_packet"
    by (simp add: quic_packet_wf_def example_packet_def varint_fits_def)
  show "derive_initial_keys plain_crypto (qp_dcid example_packet) quic_v1_salt = Some example_keys"
    by (simp add: derive_initial_keys_def plain_crypto_def example_keys_def)
  show "hello_wf example_hello"
    "ch_extensions example_hello = [(43, [2, 3, 4])] @ (0, server_name_data (bytes_of_str ''a.b'')) # []"
    by (simp_all add: hello_wf_def example_hello_def server_name_data_def bytes_of_str_def)
  show "from_utf8 (bytes_of_str ''a.b'') = Some ''a.b''" by code_simp
qed (simp_all add: example_packet_def)

definition example_datagram :: bytes where
  "example_datagram = protect_packet plain_crypto plain_seal example_keys example_packet @ [7, 7]"

lemma example_datagram_sni: "extract_quic_sni plain_crypto example_datagram = Some (Some ''a.b'')"
  unfolding example_datagram_def
  by (subst extract_hello_packet [OF plain_crypto_laws plain_seal_laws example_packet_facts(1-8)])
     (simp add: example_packet_facts(9))

text \<open>An Initial packet of QUIC version 2, whose type bits are 01, is dropped before its version is
  looked at, although the salt of that version is there.\<close>

lemma quic_v2_initial_rejected:
  assumes "and first 0x80 = 0x80" "and first 0x30 = 0x10"
  shows "extract_quic_sni c (first # [0x6b, 0x33, 0x43, 0xcf] @ rest) = Some None"
proof -
  have "drop_bit 4 (and first 0x30) \<noteq> 0" unfolding assms(2) by (simp add: drop_bit_eq_div)
  then show ?thesis using assms(1) by (simp add: extract_quic_sni_def idx_def)
qed

section \<open>Properties\<close>

text \<open>C22: the server name in the Initial packet of a QUIC version 1 client is found: whatever its
  connection identifiers, token, packet number (of one to four bytes) and integer widths, in however
  many CRYPTO frames the ClientHello is cut, with padding and pings between them, and whatever
  packets follow in the datagram, provided the frames come in the order of their data.\<close>

theorem quic_packet_roundtrip:
  assumes "crypto_laws c" "seal_laws c seal" "quic_packet_wf q"
    and "derive_initial_keys c (qp_dcid q) quic_v1_salt = Some keys"
    and "qp_plaintext q = concat (map encode_frame fs)" "\<forall>f \<in> set fs. frame_fits f"
    and "concat (map frame_data fs) = encode_handshake (encode_hello h)"
    and "hello_wf h" "ch_extensions h = pre @ (0, server_name_data name) # post"
    and "\<forall>e \<in> set pre. fst e \<noteq> 0"
  shows "extract_quic_sni c (protect_packet c seal keys q @ rest) = Some (from_utf8 name)"
  using assms by (rule extract_hello_packet)

theorem quic_packet_roundtrip_witness:
  "extract_quic_sni plain_crypto
     (protect_packet plain_crypto plain_seal example_keys example_packet @ [7, 7]) = Some (Some ''a.b'')"
  by (subst quic_packet_roundtrip [OF plain_crypto_laws plain_seal_laws example_packet_facts(1-8)])
     (simp add: example_packet_facts(9))

end
