(* ===== verification/QuicRelay.thy ===== *)
theory QuicRelay
  imports Forward QuicPacket
begin

text \<open>
  The UDP data plane (\<open>src/dataplane/quic.rs\<close>): the table of sessions, the handling of a datagram,
  the relay of replies and the cleanup. Every datagram is handled by a task of its own, every session
  has a relay task, and all run at the same time. The first part models the handling of one datagram
  with the outcomes of its calls as inputs; the second part is the listener as a step relation, in
  which a task advances from one waiting point to the next and the admin API may change the policies
  and filters at any moment. Time is a monotonic count of nanoseconds.
\<close>

section \<open>State\<close>

text \<open>An upstream socket is named by its number; the sockets are numbered in the order of creation.\<close>

record quic_session =
  qs_upstream :: nat
  qs_dst_addr :: socket_addr
  qs_src_v6 :: u128
  qs_last_active :: nat

type_synonym session_key = "ip_addr \<times> u16"

definition session_idle_timeout :: nat where
  "session_idle_timeout = 300 * 10 ^ 9"

text \<open>What the listener asks of the network. \<open>Forwarding\<close> is the log entry of a new session.\<close>

datatype quic_event =
  QuicLookup string
| UdpBound nat u128
| Forwarding socket_addr string nat u128 socket_addr
| ToUpstream socket_addr nat socket_addr bytes
| ToClient nat socket_addr socket_addr bytes

text \<open>A task that waits: for the resolver, for its first datagram to leave, or for a reply.\<close>

datatype quic_task =
  Resolving socket_addr bytes binding string
| Sending socket_addr nat u128 socket_addr
| Relaying nat socket_addr socket_addr nat

record 'net listener = "'net app" +
  ls_clock :: nat
  ls_sessions :: "session_key \<Rightarrow> quic_session option"
  ls_sockets :: "u128 list"
  ls_tasks :: "quic_task list"
  ls_trace :: "quic_event list"

definition emit :: "quic_event list \<Rightarrow> ('net, 'a) listener_scheme \<Rightarrow> ('net, 'a) listener_scheme" where
  "emit es s = s\<lparr>ls_trace := ls_trace s @ es\<rparr>"

section \<open>A datagram from a client\<close>

text \<open>The upstream socket: create it, allow it to bind to any address, bind it to the outgoing
  address, make it asynchronous; each call may fail.\<close>

record udp_io =
  ud_socket :: bool
  ud_freebind :: bool
  ud_bind :: bool
  ud_nonblocking :: bool
  ud_from_std :: bool

definition create_v6_udp_socket ::
  "udp_io \<Rightarrow> u128 \<Rightarrow> ('net, 'a) listener_scheme \<Rightarrow> (dp_error + nat) \<times> ('net, 'a) listener_scheme" where
  "create_v6_udp_socket io src_v6 s =
     (if \<not> ud_socket io then (Inl SocketFailed, s)
      else if \<not> ud_freebind io then (Inl FreebindFailed, s)
      else if \<not> ud_bind io then (Inl (BindFailed src_v6), s)
      else if \<not> ud_nonblocking io then (Inl SocketFailed, s)
      else if \<not> ud_from_std io then (Inl SocketFailed, s)
      else
        let n = length (ls_sockets s)
        in (Inr n, emit [UdpBound n src_v6] (s\<lparr>ls_sockets := ls_sockets s @ [src_v6]\<rparr>)))"

text \<open>A datagram of a peer, up to the first point where its task waits: a session takes it upstream;
  otherwise it must be an Initial packet with a name that the domain filter allows, and the task goes
  on to resolve the name.\<close>

definition quic_arrive ::
  "crypto \<Rightarrow> timestamp \<Rightarrow> bool \<Rightarrow> socket_addr \<Rightarrow> bytes \<Rightarrow> ('net, 'a) listener_scheme
     \<Rightarrow> (dp_error + quic_task option) run \<times> ('net, 'a) listener_scheme" where
  "quic_arrive c now send_ok peer data s =
     (let key = (sa_ip peer, sa_port peer) in
      case ls_sessions s key of
        Some session \<Rightarrow>
          (let s1 = s\<lparr>ls_sessions := (ls_sessions s)(key \<mapsto> session\<lparr>qs_last_active := ls_clock s\<rparr>)\<rparr>;
               s2 = emit [ToUpstream peer (qs_upstream session) (qs_dst_addr session) data] s1
           in (ret (if send_ok then Inr None else Inl SendFailed), s2))
      | None \<Rightarrow>
          (let (b, s1) = peer_binding now (sa_ip peer) s in
           case extract_quic_sni c data of
             None \<Rightarrow> (panic, s1)
           | Some None \<Rightarrow> (ret (Inr None), s1)
           | Some (Some sni) \<Rightarrow>
               (let (admitted, s2) = admit_host sni s1 in
                if \<not> admitted then (ret (Inr None), s2)
                else (ret (Inr (Some (Resolving peer data b sni))),
                      emit [QuicLookup (lookup_text sni 443)] s2))))"

text \<open>The task with the answers of the resolver: pick the outgoing address, create the socket, send the
  datagram on.\<close>

definition quic_resolved ::
  "'net ipnet_ops \<Rightarrow> hasher \<Rightarrow> v6_pool list \<Rightarrow> socket_addr list option \<Rightarrow> udp_io
     \<Rightarrow> socket_addr \<Rightarrow> bytes \<Rightarrow> binding \<Rightarrow> string \<Rightarrow> ('net, 'a) listener_scheme
     \<Rightarrow> (dp_error + quic_task option) run \<times> ('net, 'a) listener_scheme" where
  "quic_resolved ops sip pools addrs io peer data b sni s =
     (let (dst, s1) = resolve_dst ops addrs sni s in
      case dst of
        Inl e \<Rightarrow> (ret (Inl e), s1)
      | Inr dst_addr \<Rightarrow>
          (case pick_outgoing sip pools b (sa_ip peer) (sa_ip dst_addr) (sa_port peer) 443 of
             None \<Rightarrow> (panic, s1)
           | Some None \<Rightarrow> (ret (Inr None), s1)
           | Some (Some src_v6) \<Rightarrow>
               (let (sock, s2) = create_v6_udp_socket io src_v6 s1 in
                case sock of
                  Inl e \<Rightarrow> (ret (Inl e), s2)
                | Inr n \<Rightarrow>
                    (ret (Inr (Some (Sending peer n src_v6 dst_addr))),
                     emit [Forwarding peer sni n src_v6 dst_addr, ToUpstream peer n dst_addr data] s2))))"

text \<open>The task with its datagram sent: store the session and start the relay.\<close>

definition quic_sent ::
  "bool \<Rightarrow> socket_addr \<Rightarrow> nat \<Rightarrow> u128 \<Rightarrow> socket_addr \<Rightarrow> ('net, 'a) listener_scheme
     \<Rightarrow> (dp_error + quic_task option) \<times> ('net, 'a) listener_scheme" where
  "quic_sent send_ok peer n src_v6 dst_addr s =
     (if \<not> send_ok then (Inl SendFailed, s)
      else
        (Inr (Some (Relaying n peer dst_addr (ls_clock s))),
         s\<lparr>ls_sessions := (ls_sessions s)((sa_ip peer, sa_port peer) \<mapsto>
             \<lparr>qs_upstream = n, qs_dst_addr = dst_addr, qs_src_v6 = src_v6, qs_last_active = ls_clock s\<rparr>)\<rparr>))"

text \<open>The handling of one datagram as a whole, with what the other tasks do at the two waiting
  points.\<close>

record 's packet_io =
  pi_now :: timestamp
  pi_send_ok :: bool
  pi_dns :: "string \<Rightarrow> socket_addr list option"
  pi_after_dns :: "'s \<Rightarrow> 's"
  pi_udp :: udp_io
  pi_after_send :: "'s \<Rightarrow> 's"

definition handle_quic_packet ::
  "'net ipnet_ops \<Rightarrow> crypto \<Rightarrow> hasher \<Rightarrow> v6_pool list \<Rightarrow> ('net, 'a) listener_scheme packet_io
     \<Rightarrow> socket_addr \<Rightarrow> bytes \<Rightarrow> ('net, 'a) listener_scheme
     \<Rightarrow> (dp_error + quic_task option) run \<times> ('net, 'a) listener_scheme" where
  "handle_quic_packet ops c sip pools io peer data s =
     (case quic_arrive c (pi_now io) (pi_send_ok io) peer data s of
        (Some (Inr (Some (Resolving peer data b sni))), s1) \<Rightarrow>
          (case quic_resolved ops sip pools (pi_dns io (lookup_text sni 443)) (pi_udp io) peer data b sni
                  (pi_after_dns io s1) of
             (Some (Inr (Some (Sending peer n src_v6 dst_addr))), s2) \<Rightarrow>
               (let (r, s3) = quic_sent (pi_send_ok io) peer n src_v6 dst_addr (pi_after_send io s2)
                in (ret r, s3))
           | other \<Rightarrow> other)
      | other \<Rightarrow> other)"

section \<open>The relay and the cleanup\<close>

text \<open>What the reverse relay receives within its timeout: a datagram, which it sends on to the client
  if it comes from the destination of the session (and drops otherwise), an error, or nothing.\<close>

datatype relay_outcome = Received socket_addr bytes bool | RecvError | RecvTimeout

definition relay_step ::
  "relay_outcome \<Rightarrow> nat \<Rightarrow> socket_addr \<Rightarrow> socket_addr \<Rightarrow> ('net, 'a) listener_scheme
     \<Rightarrow> quic_task option \<times> ('net, 'a) listener_scheme" where
  "relay_step outcome n peer dst_addr s =
     (case outcome of
        Received from data send_ok \<Rightarrow>
          (if from \<noteq> dst_addr then (Some (Relaying n peer dst_addr (ls_clock s)), s)
           else (if send_ok then Some (Relaying n peer dst_addr (ls_clock s)) else None,
                 emit [ToClient n from peer data] s))
      | RecvError \<Rightarrow> (None, s)
      | RecvTimeout \<Rightarrow>
          (None, s\<lparr>ls_sessions := (ls_sessions s)((sa_ip peer, sa_port peer) := None)\<rparr>))"

text \<open>\<open>sessions.retain(|_k, v| v.last_active.elapsed() < SESSION_IDLE_TIMEOUT)\<close>\<close>

definition cleanup :: "('net, 'a) listener_scheme \<Rightarrow> ('net, 'a) listener_scheme" where
  "cleanup s =
     s\<lparr>ls_sessions := (\<lambda>k. case ls_sessions s k of
         None \<Rightarrow> None
       | Some v \<Rightarrow> if ls_clock s - qs_last_active v < session_idle_timeout then Some v else None)\<rparr>"

section \<open>The listener\<close>

text \<open>The tasks after one of them has come to a result: it waits again, or it has ended.\<close>

definition put_task :: "quic_task option \<Rightarrow> ('net, 'a) listener_scheme \<Rightarrow> ('net, 'a) listener_scheme" where
  "put_task t s = (case t of None \<Rightarrow> s | Some t \<Rightarrow> s\<lparr>ls_tasks := ls_tasks s @ [t]\<rparr>)"

definition drop_task :: "nat \<Rightarrow> ('net, 'a) listener_scheme \<Rightarrow> ('net, 'a) listener_scheme" where
  "drop_task i s = s\<lparr>ls_tasks := take i (ls_tasks s) @ drop (Suc i) (ls_tasks s)\<rparr>"

definition task_of :: "(dp_error + quic_task option) run \<Rightarrow> quic_task option" where
  "task_of r = (case r of Some (Inr t) \<Rightarrow> t | _ \<Rightarrow> None)"

record 'net quic_world =
  qw_nets :: "'net ipnet_ops"
  qw_crypto :: crypto
  qw_sip :: hasher
  qw_pools :: "v6_pool list"
  qw_dns :: "string \<Rightarrow> socket_addr list option \<Rightarrow> bool"

text \<open>The state that belongs to the listener alone.\<close>

definition listener_part :: "('net, 'a) listener_scheme \<Rightarrow>
    nat \<times> (session_key \<Rightarrow> quic_session option) \<times> u128 list \<times> quic_task list \<times> quic_event list" where
  "listener_part s = (ls_clock s, ls_sessions s, ls_sockets s, ls_tasks s, ls_trace s)"

text \<open>The steps of the listener: a datagram arrives, a task goes on, the cleanup runs, time passes, the
  admin API and the TCP tasks change policies, filters and counters. A relay times out when nothing
  came for five minutes.\<close>

inductive quic_step ::
  "'net quic_world \<Rightarrow> ('net, 'a) listener_scheme \<Rightarrow> ('net, 'a) listener_scheme \<Rightarrow> bool"
  for w where
  arrive: "quic_arrive (qw_crypto w) now send_ok peer data s = (r, s')
     \<Longrightarrow> quic_step w s (put_task (task_of r) s')"
| resolved: "i < length (ls_tasks s) \<Longrightarrow> ls_tasks s ! i = Resolving peer data b sni
     \<Longrightarrow> qw_dns w (lookup_text sni 443) addrs
     \<Longrightarrow> quic_resolved (qw_nets w) (qw_sip w) (qw_pools w) addrs io peer data b sni (drop_task i s) = (r, s')
     \<Longrightarrow> quic_step w s (put_task (task_of r) s')"
| sent: "i < length (ls_tasks s) \<Longrightarrow> ls_tasks s ! i = Sending peer n src_v6 dst_addr
     \<Longrightarrow> quic_sent send_ok peer n src_v6 dst_addr (drop_task i s) = (r, s')
     \<Longrightarrow> quic_step w s (put_task (task_of (Some r)) s')"
| relay_timeout: "i < length (ls_tasks s) \<Longrightarrow> ls_tasks s ! i = Relaying n peer dst_addr since
     \<Longrightarrow> since + session_idle_timeout \<le> ls_clock s
     \<Longrightarrow> relay_step RecvTimeout n peer dst_addr (drop_task i s) = (t, s')
     \<Longrightarrow> quic_step w s (put_task t s')"
| relay_recv: "i < length (ls_tasks s) \<Longrightarrow> ls_tasks s ! i = Relaying n peer dst_addr since
     \<Longrightarrow> outcome \<noteq> RecvTimeout
     \<Longrightarrow> relay_step outcome n peer dst_addr (drop_task i s) = (t, s')
     \<Longrightarrow> quic_step w s (put_task t s')"
| cleanup: "quic_step w s (cleanup s)"
| tick: "ls_clock s \<le> now \<Longrightarrow> quic_step w s (s\<lparr>ls_clock := now\<rparr>)"
| admin: "listener_part s' = listener_part s \<Longrightarrow> quic_step w s s'"

abbreviation quic_steps ::
  "'net quic_world \<Rightarrow> ('net, 'a) listener_scheme \<Rightarrow> ('net, 'a) listener_scheme \<Rightarrow> bool" where
  "quic_steps w \<equiv> (quic_step w)\<^sup>*\<^sup>*"

end
