(* ===== verification/QuicIsolation.thy ===== *)
theory QuicIsolation
  imports QuicRelay
begin

text \<open>
  What every run of the QUIC listener keeps: each socket serves one client and one destination, each
  session and each waiting task is backed by a socket that was opened for it, and what a step adds is
  admitted by the filters of that moment.
\<close>

section \<open>What every run keeps\<close>

text \<open>A socket was opened for a peer and a destination.\<close>

definition opened :: "quic_event list \<Rightarrow> nat \<Rightarrow> socket_addr \<Rightarrow> socket_addr \<Rightarrow> bool" where
  "opened tr n peer dst \<longleftrightarrow> (\<exists>sni src. Forwarding peer sni n src dst \<in> set tr)"

definition forwarding_ok :: "v6_pool list \<Rightarrow> u128 list \<Rightarrow> quic_event list \<Rightarrow> bool" where
  "forwarding_ok pools sockets tr \<longleftrightarrow>
     (\<forall>peer sni n src dst. Forwarding peer sni n src dst \<in> set tr \<longrightarrow>
        n < length sockets \<and> sockets ! n = src \<and> is_ipv6 dst \<and> sa_port dst = 443
        \<and> (\<exists>p \<in> set pools. leaves_from p src))"

definition exclusive :: "quic_event list \<Rightarrow> bool" where
  "exclusive tr \<longleftrightarrow>
     (\<forall>peer dst peer' dst' n. opened tr n peer dst \<longrightarrow> opened tr n peer' dst' \<longrightarrow> peer' = peer \<and> dst' = dst)"

definition relayed_ok :: "quic_event list \<Rightarrow> bool" where
  "relayed_ok tr \<longleftrightarrow>
     (\<forall>peer n dst data. ToUpstream peer n dst data \<in> set tr \<longrightarrow> opened tr n peer dst)
     \<and> (\<forall>n from peer data. ToClient n from peer data \<in> set tr \<longrightarrow> opened tr n peer from)"

fun task_ok :: "quic_event list \<Rightarrow> quic_task \<Rightarrow> bool" where
  "task_ok tr (Resolving peer data b sni) \<longleftrightarrow> True"
| "task_ok tr (Sending peer n src dst) \<longleftrightarrow> opened tr n peer dst"
| "task_ok tr (Relaying n peer dst since) \<longleftrightarrow> opened tr n peer dst"

definition sessions_ok :: "quic_event list \<Rightarrow> (session_key \<Rightarrow> quic_session option) \<Rightarrow> bool" where
  "sessions_ok tr m \<longleftrightarrow>
     (\<forall>peer q. m (sa_ip peer, sa_port peer) = Some q \<longrightarrow> opened tr (qs_upstream q) peer (qs_dst_addr q))"

definition listener_ok :: "v6_pool list \<Rightarrow> ('net, 'a) listener_scheme \<Rightarrow> bool" where
  "listener_ok pools s \<longleftrightarrow>
     forwarding_ok pools (ls_sockets s) (ls_trace s) \<and> exclusive (ls_trace s) \<and> relayed_ok (ls_trace s)
     \<and> sessions_ok (ls_trace s) (ls_sessions s)
     \<and> (\<forall>t \<in> set (ls_tasks s). task_ok (ls_trace s) t)"

lemma opened_append: "opened (tr @ es) n peer dst \<longleftrightarrow> opened tr n peer dst \<or> opened es n peer dst"
  by (auto simp: opened_def)

lemma opened_Cons:
  "opened (e # es) n peer dst \<longleftrightarrow> (\<exists>sni src. e = Forwarding peer sni n src dst) \<or> opened es n peer dst"
  "opened [] n peer dst = False"
  by (auto simp: opened_def)

lemma task_ok_append: "task_ok tr t \<Longrightarrow> task_ok (tr @ es) t"
  by (cases t) (auto simp: opened_append)

lemma sessions_ok_append: "sessions_ok tr m \<Longrightarrow> sessions_ok (tr @ es) m"
  by (auto simp: sessions_ok_def opened_append)

definition quiet :: "quic_event list \<Rightarrow> bool" where
  "quiet es \<longleftrightarrow> (\<forall>peer sni n src dst. Forwarding peer sni n src dst \<notin> set es)"

lemma quiet_opened: "quiet es \<Longrightarrow> opened (tr @ es) n peer dst = opened tr n peer dst"
  by (auto simp: opened_def quiet_def)

lemma forwarding_ok_quiet: "quiet es \<Longrightarrow> forwarding_ok pools socks tr \<Longrightarrow> forwarding_ok pools socks (tr @ es)"
  by (auto simp: forwarding_ok_def quiet_def)

lemma exclusive_quiet: "quiet es \<Longrightarrow> exclusive (tr @ es) = exclusive tr"
  by (simp add: exclusive_def quiet_opened)

lemma relayed_ok_append:
  assumes "relayed_ok tr"
    and "\<And>peer n dst data. ToUpstream peer n dst data \<in> set es \<Longrightarrow> opened (tr @ es) n peer dst"
    and "\<And>n from peer data. ToClient n from peer data \<in> set es \<Longrightarrow> opened (tr @ es) n peer from"
  shows "relayed_ok (tr @ es)"
proof -
  have "opened tr n peer dst \<Longrightarrow> opened (tr @ es) n peer dst" for n peer dst by (simp add: opened_append)
  then show ?thesis
    using assms unfolding relayed_ok_def set_append Un_iff by meson
qed

lemma forwarding_ok_open:
  assumes "forwarding_ok pools socks tr" "p \<in> set pools" "leaves_from p src" "is_ipv6 dst" "sa_port dst = 443"
  shows "forwarding_ok pools (socks @ [src]) (tr @ [UdpBound (length socks) src,
    Forwarding peer sni (length socks) src dst, ToUpstream peer (length socks) dst data])"
  using assms unfolding forwarding_ok_def by (auto simp: nth_append intro: less_SucI)

lemma exclusive_open:
  assumes "forwarding_ok pools socks tr" "exclusive tr"
  shows "exclusive (tr @ [UdpBound (length socks) src,
    Forwarding peer sni (length socks) src dst, ToUpstream peer (length socks) dst data])"
proof -
  have "\<not> opened tr (length socks) p d" for p d
    using assms(1) unfolding forwarding_ok_def opened_def by (meson less_irrefl)
  then show ?thesis
    using assms(2) unfolding exclusive_def opened_append opened_Cons by blast
qed

text \<open>A change of the statics leaves the listener's own state alone.\<close>

lemma more_frames:
  assumes "listener_part s' = listener_part s"
  shows "ls_clock s' = ls_clock s" "ls_sessions s' = ls_sessions s" "ls_sockets s' = ls_sockets s"
    "ls_tasks s' = ls_tasks s" "ls_trace s' = ls_trace s"
  using assms by (simp_all add: listener_part_def)

text \<open>The operations, one by one.\<close>

lemma listener_ok_frame:
  "ls_trace s' = ls_trace s \<Longrightarrow> ls_sockets s' = ls_sockets s \<Longrightarrow> ls_sessions s' = ls_sessions s \<Longrightarrow>
     set (ls_tasks s') \<subseteq> set (ls_tasks s) \<Longrightarrow> listener_ok pools s \<Longrightarrow> listener_ok pools s'"
  by (auto simp: listener_ok_def)

lemma app_frames:
  "ls_trace (snd (peer_binding now ip s)) = ls_trace s" "ls_sockets (snd (peer_binding now ip s)) = ls_sockets s"
  "ls_sessions (snd (peer_binding now ip s)) = ls_sessions s" "ls_tasks (snd (peer_binding now ip s)) = ls_tasks s"
  "ls_trace (snd (admit_host h s)) = ls_trace s" "ls_sockets (snd (admit_host h s)) = ls_sockets s"
  "ls_sessions (snd (admit_host h s)) = ls_sessions s" "ls_tasks (snd (admit_host h s)) = ls_tasks s"
  "ls_trace (snd (resolve_dst ops addrs h s)) = ls_trace s"
  "ls_sockets (snd (resolve_dst ops addrs h s)) = ls_sockets s"
  "ls_sessions (snd (resolve_dst ops addrs h s)) = ls_sessions s"
  "ls_tasks (snd (resolve_dst ops addrs h s)) = ls_tasks s"
  for s :: "('net, 'a) listener_scheme"
  by (auto simp: peer_binding_def default_binding_def default_hash_policy_def default_binding_seed_def
      admit_host_def note_domain_blocked_def resolve_dst_def note_egress_blocked_def Let_def
      split: option.splits)

lemma listener_ok_emit:
  assumes "listener_ok pools s" "quiet es"
    and "\<And>peer n dst data. ToUpstream peer n dst data \<in> set es \<Longrightarrow> opened (ls_trace s) n peer dst"
    and "\<And>n from peer data. ToClient n from peer data \<in> set es \<Longrightarrow> opened (ls_trace s) n peer from"
  shows "listener_ok pools (emit es s)"
proof -
  have ok: "forwarding_ok pools (ls_sockets s) (ls_trace s)" "exclusive (ls_trace s)" "relayed_ok (ls_trace s)"
    "sessions_ok (ls_trace s) (ls_sessions s)" "\<forall>t \<in> set (ls_tasks s). task_ok (ls_trace s) t"
    using assms(1) by (simp_all add: listener_ok_def)
  have "relayed_ok (ls_trace s @ es)"
    using relayed_ok_append [OF ok(3), of es] assms(3,4) by (simp add: quiet_opened [OF assms(2)])
  then show ?thesis
    using ok exclusive_quiet [OF assms(2)] forwarding_ok_quiet [OF assms(2)] sessions_ok_append task_ok_append
    by (simp add: listener_ok_def emit_def)
qed

lemma drop_task_subset: "set (ls_tasks (drop_task i s)) \<subseteq> set (ls_tasks s)"
  by (auto simp: drop_task_def dest: in_set_takeD in_set_dropD)

lemma listener_ok_drop: "listener_ok pools s \<Longrightarrow> listener_ok pools (drop_task i s)"
  by (rule listener_ok_frame [OF _ _ _ drop_task_subset]) (simp_all add: drop_task_def)

lemma listener_ok_put: "listener_ok pools s \<Longrightarrow> (\<And>t'. t = Some t' \<Longrightarrow> task_ok (ls_trace s) t') \<Longrightarrow>
    listener_ok pools (put_task t s)"
  by (auto simp: listener_ok_def put_task_def split: option.splits)

lemma listener_ok_app:
  "listener_ok pools s \<Longrightarrow> listener_ok pools (snd (peer_binding now ip s))"
  "listener_ok pools s \<Longrightarrow> listener_ok pools (snd (admit_host h s))"
  "listener_ok pools s \<Longrightarrow> listener_ok pools (snd (resolve_dst ops addrs h s))"
  by (rule listener_ok_frame [of _ s]; simp add: app_frames)+

lemma socket_addr_eq: "sa_ip p = sa_ip q \<and> sa_port p = sa_port q \<longleftrightarrow> p = (q :: socket_addr)"
  by auto

lemma sessions_ok_update:
  "sessions_ok tr m \<Longrightarrow> opened tr (qs_upstream q) peer (qs_dst_addr q) \<Longrightarrow>
     sessions_ok tr (m((sa_ip peer, sa_port peer) \<mapsto> q))"
  unfolding sessions_ok_def fun_upd_def prod.inject socket_addr_eq by simp

definition udp_ok :: "udp_io \<Rightarrow> bool" where
  "udp_ok io \<longleftrightarrow> ud_socket io \<and> ud_freebind io \<and> ud_bind io \<and> ud_nonblocking io \<and> ud_from_std io"

lemma create_v6_udp_socket_cases:
  "udp_ok io \<Longrightarrow> create_v6_udp_socket io src s =
     (Inr (length (ls_sockets s)), emit [UdpBound (length (ls_sockets s)) src] (s\<lparr>ls_sockets := ls_sockets s @ [src]\<rparr>))"
  "\<not> udp_ok io \<Longrightarrow> \<exists>e. create_v6_udp_socket io src s = (Inl e, s)"
  by (auto simp: create_v6_udp_socket_def udp_ok_def Let_def)

lemma quic_arrive_ok:
  assumes ok: "listener_ok pools s" and run: "quic_arrive c now send_ok peer data s = (r, s')"
  shows "listener_ok pools (put_task (task_of r) s')"
proof (cases "ls_sessions s (sa_ip peer, sa_port peer)")
  case (Some q)
  let ?q = "q\<lparr>qs_last_active := ls_clock s\<rparr>"
  let ?s = "s\<lparr>ls_sessions := (ls_sessions s)((sa_ip peer, sa_port peer) \<mapsto> ?q)\<rparr>"
  have op: "opened (ls_trace s) (qs_upstream q) peer (qs_dst_addr q)"
    using ok Some by (simp add: listener_ok_def sessions_ok_def)
  have "sessions_ok (ls_trace s) (ls_sessions ?s)"
    using ok op by (simp add: listener_ok_def sessions_ok_update)
  then have "listener_ok pools ?s" using ok by (simp add: listener_ok_def)
  then have "listener_ok pools (emit [ToUpstream peer (qs_upstream q) (qs_dst_addr q) data] ?s)"
    by (rule listener_ok_emit) (use op in \<open>auto simp: quiet_def\<close>)
  then show ?thesis
    using run Some by (auto simp: quic_arrive_def Let_def task_of_def put_task_def)
next
  case None
  let ?s1 = "snd (peer_binding now (sa_ip peer) s)"
  have s1: "listener_ok pools ?s1" by (rule listener_ok_app(1) [OF ok])
  have "listener_ok pools (emit [QuicLookup t] (snd (admit_host sni ?s1)))" for t sni
    by (rule listener_ok_emit [OF listener_ok_app(2) [OF s1]]) (auto simp: quiet_def)
  then show ?thesis
    using run None s1 listener_ok_app(2) [OF s1]
    by (auto simp: quic_arrive_def Let_def prod.case_eq_if task_of_def intro!: listener_ok_put
        split: option.splits if_splits)
qed

lemma quic_resolved_ok:
  assumes ok: "listener_ok pools s" and pools: "\<forall>p \<in> set pools. pool_wf p"
    and port: "\<And>as a. addrs = Some as \<Longrightarrow> a \<in> set as \<Longrightarrow> sa_port a = 443"
    and run: "quic_resolved ops sip pools addrs io peer data b sni s = (r, s')"
  shows "listener_ok pools (put_task (task_of r) s')"
proof -
  obtain d s1 where d: "resolve_dst ops addrs sni s = (d, s1)" by fastforce
  have s1: "listener_ok pools s1" using listener_ok_app(3) [OF ok, of ops addrs sni] d by simp
  show ?thesis
  proof (cases "\<exists>a src. d = Inr a
      \<and> pick_outgoing sip pools b (sa_ip peer) (sa_ip a) (sa_port peer) 443 = Some (Some src) \<and> udp_ok io")
    case False
    have "\<exists>e. create_v6_udp_socket io src s1 = (Inl e, s1)"
      if "d = Inr a" "pick_outgoing sip pools b (sa_ip peer) (sa_ip a) (sa_port peer) 443 = Some (Some src)" for a src
      using False that create_v6_udp_socket_cases(2) by blast
    then have "s' = s1 \<and> task_of r = None"
      using run
      by (cases d) (fastforce simp: quic_resolved_def d task_of_def pick_outgoing_total split: option.splits)+
    then show ?thesis using s1 by (simp add: put_task_def)
  next
    case True
    then obtain a src where opens: "d = Inr a"
      "pick_outgoing sip pools b (sa_ip peer) (sa_ip a) (sa_port peer) 443 = Some (Some src)"
      and io: "udp_ok io" by blast
    let ?n = "length (ls_sockets s1)"
    have r: "r = Some (Inr (Some (Sending peer ?n src a)))"
      and s'_eq: "s' = emit [Forwarding peer sni ?n src a, ToUpstream peer ?n a data]
        (emit [UdpBound ?n src] (s1\<lparr>ls_sockets := ls_sockets s1 @ [src]\<rparr>))"
      using run by (simp_all add: quic_resolved_def d opens create_v6_udp_socket_cases(1) [OF io] Let_def)
    obtain as where "addrs = Some as" "first_permitted ops (ap_egress_filter s) as = Some a"
      using d opens(1) by (auto simp: resolve_dst_eq split: option.splits if_splits)
    then have a: "is_ipv6 a" "sa_port a = 443" using first_permittedD port by blast+
    have "pools \<noteq> []" using opens(2) by (auto simp: pick_outgoing_def)
    then obtain p k where "p \<in> set pools" "src = host_at p k"
      using opens(2) pick_outgoing_cases by (metis option.inject)
    then have p: "p \<in> set pools" "leaves_from p src" using pools host_at_leaves_from by blast+
    let ?es = "[UdpBound ?n src, Forwarding peer sni ?n src a, ToUpstream peer ?n a data]"
    have ok1: "forwarding_ok pools (ls_sockets s1) (ls_trace s1)" "exclusive (ls_trace s1)" "relayed_ok (ls_trace s1)"
      "sessions_ok (ls_trace s1) (ls_sessions s1)" "\<forall>t \<in> set (ls_tasks s1). task_ok (ls_trace s1) t"
      using s1 by (simp_all add: listener_ok_def)
    have s': "ls_trace s' = ls_trace s1 @ ?es" "ls_sockets s' = ls_sockets s1 @ [src]"
      "ls_sessions s' = ls_sessions s1" "ls_tasks s' = ls_tasks s1"
      unfolding s'_eq by (simp_all add: emit_def)
    have "relayed_ok (ls_trace s1 @ ?es)"
      by (rule relayed_ok_append [OF ok1(3)]) (auto simp: opened_append opened_Cons)
    then have "listener_ok pools s'"
      using forwarding_ok_open [OF ok1(1) p a] exclusive_open [OF ok1(1,2)] ok1(4,5)
        sessions_ok_append task_ok_append
      by (simp add: listener_ok_def s')
    then show ?thesis
      by (rule listener_ok_put) (auto simp: r task_of_def s' opened_append opened_Cons)
  qed
qed

lemma quic_sent_ok:
  assumes ok: "listener_ok pools s" and op: "opened (ls_trace s) n peer dst"
    and run: "quic_sent send_ok peer n src dst s = (r, s')"
  shows "listener_ok pools (put_task (task_of (Some r)) s')"
proof (cases send_ok)
  case True
  then have "ls_trace s' = ls_trace s" "ls_sockets s' = ls_sockets s" "ls_tasks s' = ls_tasks s"
    "sessions_ok (ls_trace s) (ls_sessions s')"
    using run ok op by (auto simp: quic_sent_def listener_ok_def intro!: sessions_ok_update)
  then have "listener_ok pools s'" "opened (ls_trace s') n peer dst" using ok op by (simp_all add: listener_ok_def)
  then show ?thesis
    using run True by (auto simp: quic_sent_def task_of_def intro!: listener_ok_put)
qed (use run ok in \<open>auto simp: quic_sent_def task_of_def put_task_def\<close>)

lemma relay_step_ok:
  assumes ok: "listener_ok pools s" and op: "opened (ls_trace s) n peer dst"
    and run: "relay_step outcome n peer dst s = (t, s')"
  shows "listener_ok pools (put_task t s')"
proof (cases outcome)
  case (Received origin data send_ok)
  have "listener_ok pools (emit [ToClient n dst peer data] s)"
    by (rule listener_ok_emit [OF ok]) (use op in \<open>auto simp: quiet_def\<close>)
  then show ?thesis
    using run ok op Received
    by (auto simp: relay_step_def emit_def opened_append intro!: listener_ok_put split: if_splits)
next
  case RecvError
  then show ?thesis using run ok by (auto simp: relay_step_def put_task_def)
next
  case RecvTimeout
  have "sessions_ok (ls_trace s) ((ls_sessions s)((sa_ip peer, sa_port peer) := None))"
    using ok by (auto simp: listener_ok_def sessions_ok_def)
  then show ?thesis
    using run ok RecvTimeout by (auto simp: relay_step_def put_task_def listener_ok_def)
qed

text \<open>What the environment owes: the resolver answers with the port it was asked for, and the pools are
  those of a configuration that was accepted.\<close>

definition dns_ports :: "'net quic_world \<Rightarrow> bool" where
  "dns_ports w \<longleftrightarrow>
     (\<forall>host port addrs. qw_dns w (lookup_text host port) (Some addrs) \<longrightarrow>
        (\<forall>a \<in> set addrs. sa_port a = port))"

definition world_ok :: "'net quic_world \<Rightarrow> bool" where
  "world_ok w \<longleftrightarrow> (\<forall>p \<in> set (qw_pools w). pool_wf p) \<and> dns_ports w"

lemma quic_step_ok:
  assumes w: "world_ok w" and step: "quic_step w s s'" and ok: "listener_ok (qw_pools w) s"
  shows "listener_ok (qw_pools w) s'"
  using step ok
proof (cases rule: quic_step.cases)
  case (arrive now send_ok peer data r s1)
  then show ?thesis using quic_arrive_ok [OF ok] by simp
next
  case (resolved i peer data b sni addrs io r s1)
  have "sa_port a = 443" if "addrs = Some as" "a \<in> set as" for as a
    using w resolved(4) that by (auto simp: world_ok_def dns_ports_def)
  then show ?thesis
    using quic_resolved_ok [OF listener_ok_drop [OF ok] _ _ resolved(5)] w resolved(1)
    by (simp add: world_ok_def)
next
  case (sent i peer n src_v6 dst_addr send_ok r s1)
  have "task_ok (ls_trace s) (ls_tasks s ! i)" using ok sent(2) by (simp add: listener_ok_def)
  then have "opened (ls_trace (drop_task i s)) n peer dst_addr" using sent(3) by (simp add: drop_task_def)
  then show ?thesis using quic_sent_ok [OF listener_ok_drop [OF ok] _ sent(4)] sent(1) by simp
next
  case (relay_timeout i n peer dst_addr since t s1)
  have "task_ok (ls_trace s) (ls_tasks s ! i)" using ok relay_timeout(2) by (simp add: listener_ok_def)
  then have "opened (ls_trace (drop_task i s)) n peer dst_addr" using relay_timeout(3) by (simp add: drop_task_def)
  then show ?thesis
    using relay_step_ok [OF listener_ok_drop [OF ok] _ relay_timeout(5)] relay_timeout(1) by simp
next
  case (relay_recv i n peer dst_addr since outcome t s1)
  have "task_ok (ls_trace s) (ls_tasks s ! i)" using ok relay_recv(2) by (simp add: listener_ok_def)
  then have "opened (ls_trace (drop_task i s)) n peer dst_addr" using relay_recv(3) by (simp add: drop_task_def)
  then show ?thesis
    using relay_step_ok [OF listener_ok_drop [OF ok] _ relay_recv(5)] relay_recv(1) by simp
next
  case cleanup
  have "sessions_ok (ls_trace s) (ls_sessions (QuicRelay.cleanup s))"
    using ok by (auto simp: listener_ok_def sessions_ok_def QuicRelay.cleanup_def split: option.splits if_splits)
  then show ?thesis using ok cleanup by (simp add: listener_ok_def QuicRelay.cleanup_def)
next
  case (tick now)
  then show ?thesis using ok by (simp add: listener_ok_def)
next
  case admin
  then show ?thesis using ok more_frames [OF admin] by (simp add: listener_ok_def)
qed

text \<open>A listener that has just started.\<close>

definition fresh_listener :: "('net, 'a) listener_scheme \<Rightarrow> bool" where
  "fresh_listener s \<longleftrightarrow> ls_sessions s = (\<lambda>k. None) \<and> ls_tasks s = [] \<and> ls_trace s = []"

lemma quic_steps_ok:
  assumes "quic_steps w s0 s" "world_ok w" "fresh_listener s0"
  shows "listener_ok (qw_pools w) s"
  using assms(1)
proof (induction rule: rtranclp_induct)
  case base
  show ?case
    using assms(3) by (simp add: listener_ok_def fresh_listener_def forwarding_ok_def exclusive_def opened_def
        relayed_ok_def sessions_ok_def)
next
  case (step s1 s2)
  then show ?case using quic_step_ok [OF assms(2)] by blast
qed

lemma quic_arrive_new:
  assumes "quic_arrive c now send_ok peer data s = (r, s')" "task_of r = Some t"
  shows "\<exists>b sni. t = Resolving peer data b sni \<and> extract_quic_sni c data = Some (Some sni)
    \<and> host_allowed (ap_domain_filter s) sni"
proof -
  have "ap_domain_filter (snd (peer_binding now (sa_ip peer) s)) = ap_domain_filter s"
    by (rule peer_binding_filters)
  then show ?thesis
    using assms by (auto simp: quic_arrive_def Let_def task_of_def prod.case_eq_if admit_host_def
        split: option.splits if_splits)
qed

lemma quic_resolved_opens:
  assumes "quic_resolved ops sip pools addrs io peer data b sni s = (r, s')"
    and "Forwarding peer' sni' n src dst \<in> set (ls_trace s')" "Forwarding peer' sni' n src dst \<notin> set (ls_trace s)"
  shows "peer' = peer \<and> sni' = sni
    \<and> (\<exists>as. addrs = Some as \<and> dst \<in> set as) \<and> egress_allowed ops (ap_egress_filter s) (sa_ip dst)
    \<and> pick_outgoing sip pools b (sa_ip peer) (sa_ip dst) (sa_port peer) 443 = Some (Some src)"
proof -
  obtain d s1 where d: "resolve_dst ops addrs sni s = (d, s1)" by fastforce
  then have s1: "ls_trace s1 = ls_trace s" using app_frames(9) [of ops addrs sni s] by simp
  have cr: "ls_trace (snd (create_v6_udp_socket io src s1)) = ls_trace s
      \<or> (\<exists>n. ls_trace (snd (create_v6_udp_socket io src s1)) = ls_trace s @ [UdpBound n src])" for src
    by (auto simp: create_v6_udp_socket_def Let_def emit_def s1)
  obtain a where a: "d = Inr a" using assms s1 by (cases d) (auto simp: quic_resolved_def d)
  obtain src' where src: "pick_outgoing sip pools b (sa_ip peer) (sa_ip a) (sa_port peer) 443 = Some (Some src')"
    using assms s1 by (auto simp: quic_resolved_def d a split: option.splits)
  have "peer' = peer \<and> sni' = sni \<and> src = src' \<and> dst = a"
    using assms cr [of src']
    by (auto simp: quic_resolved_def d a src emit_def prod.case_eq_if split: sum.splits)
  moreover obtain as where "addrs = Some as" "first_permitted ops (ap_egress_filter s) as = Some a"
    using d a by (auto simp: resolve_dst_eq split: option.splits if_splits)
  ultimately show ?thesis using src first_permittedD by blast
qed

lemma task_frames:
  "ls_tasks (snd (quic_arrive c now send_ok peer data s)) = ls_tasks s"
  "ls_tasks (snd (quic_resolved ops sip pools addrs io peer data b sni s)) = ls_tasks s"
  "ls_tasks (snd (quic_sent send_ok peer n src dst s)) = ls_tasks s"
  "ls_tasks (snd (relay_step outcome n peer dst s)) = ls_tasks s"
proof -
  have cr: "ls_tasks (snd (create_v6_udp_socket io src s)) = ls_tasks s" for src and s :: "('x, 'y) listener_scheme"
    by (auto simp: create_v6_udp_socket_def Let_def emit_def)
  show "ls_tasks (snd (quic_arrive c now send_ok peer data s)) = ls_tasks s"
    by (auto simp: quic_arrive_def Let_def emit_def app_frames prod.case_eq_if split: option.splits)
  show "ls_tasks (snd (quic_resolved ops sip pools addrs io peer data b sni s)) = ls_tasks s"
    by (auto simp: quic_resolved_def Let_def emit_def app_frames cr prod.case_eq_if split: option.splits sum.splits)
  show "ls_tasks (snd (quic_sent send_ok peer n src dst s)) = ls_tasks s"
    by (simp add: quic_sent_def)
  show "ls_tasks (snd (relay_step outcome n peer dst s)) = ls_tasks s"
    by (auto simp: relay_step_def emit_def split: relay_outcome.splits)
qed

lemma forwarding_frames:
  "Forwarding p h n src d \<in> set (ls_trace (snd (quic_arrive c now send_ok peer data s)))
     \<Longrightarrow> Forwarding p h n src d \<in> set (ls_trace s)"
  "ls_trace (snd (quic_sent send_ok peer n src dst s)) = ls_trace s"
  "Forwarding p h n src d \<in> set (ls_trace (snd (relay_step outcome m peer dst s)))
     \<Longrightarrow> Forwarding p h n src d \<in> set (ls_trace s)"
proof -
  assume "Forwarding p h n src d \<in> set (ls_trace (snd (quic_arrive c now send_ok peer data s)))"
  then show "Forwarding p h n src d \<in> set (ls_trace s)"
    by (auto simp: quic_arrive_def Let_def emit_def app_frames prod.case_eq_if split: option.splits if_splits)
next
  show "ls_trace (snd (quic_sent send_ok peer n src dst s)) = ls_trace s"
    by (simp add: quic_sent_def)
next
  assume "Forwarding p h n src d \<in> set (ls_trace (snd (relay_step outcome m peer dst s)))"
  then show "Forwarding p h n src d \<in> set (ls_trace s)"
    by (auto simp: relay_step_def emit_def split: relay_outcome.splits if_splits)
qed

lemma no_new_resolving:
  "task_of (fst (quic_resolved ops sip pools addrs io peer data b sni s)) \<noteq> Some (Resolving p d' b' h)"
  "fst (quic_sent send_ok peer n src dst s) \<noteq> Inr (Some (Resolving p d' b' h))"
  "fst (relay_step outcome n peer dst s) \<noteq> Some (Resolving p d' b' h)"
  by (auto simp: quic_resolved_def quic_sent_def relay_step_def task_of_def Let_def prod.case_eq_if
      split: option.splits sum.splits relay_outcome.splits)

lemma put_task_mem: "x \<in> set (ls_tasks (put_task t s)) \<longleftrightarrow> x \<in> set (ls_tasks s) \<or> t = Some x"
  by (auto simp: put_task_def split: option.splits)

lemma put_drop_trace [simp]: "ls_trace (put_task t s) = ls_trace s" "ls_trace (drop_task i s) = ls_trace s"
  "ap_egress_filter (drop_task i s) = ap_egress_filter s"
  by (simp_all add: put_task_def drop_task_def split: option.split)

text \<open>What a step may add: a task for a name that the domain filter allows, a session for an address
  that the egress filter allows.\<close>

lemma new_resolving:
  assumes "quic_step w s s'" "Resolving p d' b' h \<in> set (ls_tasks s')"
  shows "Resolving p d' b' h \<in> set (ls_tasks s)
    \<or> extract_quic_sni (qw_crypto w) d' = Some (Some h) \<and> host_allowed (ap_domain_filter s) h"
  using assms
proof (cases rule: quic_step.cases)
  case (arrive now send_ok peer data r s1)
  then have "Resolving p d' b' h \<in> set (ls_tasks s) \<or> task_of r = Some (Resolving p d' b' h)"
    using assms(2) task_frames(1) by (metis put_task_mem snd_conv)
  then show ?thesis using quic_arrive_new [OF arrive(2)] by auto
next
  case (resolved i peer data b sni addrs io r s1)
  then have "Resolving p d' b' h \<in> set (ls_tasks (drop_task i s))"
    using assms(2) task_frames(2) no_new_resolving(1) by (metis put_task_mem fst_conv snd_conv)
  then show ?thesis using drop_task_subset by blast
next
  case (sent i peer n src_v6 dst_addr send_ok r s1)
  then have "r \<noteq> Inr (Some (Resolving p d' b' h))" using no_new_resolving(2) by (metis fst_conv)
  then have "task_of (Some r) \<noteq> Some (Resolving p d' b' h)" by (auto simp: task_of_def split: sum.splits)
  then have "Resolving p d' b' h \<in> set (ls_tasks (drop_task i s))"
    using assms(2) sent task_frames(3) by (metis put_task_mem snd_conv)
  then show ?thesis using drop_task_subset by blast
next
  case (relay_timeout i n peer dst_addr since t s1)
  then have "Resolving p d' b' h \<in> set (ls_tasks (drop_task i s))"
    using assms(2) task_frames(4) no_new_resolving(3) by (metis put_task_mem fst_conv snd_conv)
  then show ?thesis using drop_task_subset by blast
next
  case (relay_recv i n peer dst_addr since outcome t s1)
  then have "Resolving p d' b' h \<in> set (ls_tasks (drop_task i s))"
    using assms(2) task_frames(4) no_new_resolving(3) by (metis put_task_mem fst_conv snd_conv)
  then show ?thesis using drop_task_subset by blast
next
  case cleanup
  then show ?thesis using assms(2) by (simp add: QuicRelay.cleanup_def)
next
  case (tick now)
  then show ?thesis using assms(2) by simp
next
  case admin
  then show ?thesis using assms(2) more_frames(4) [OF admin] by simp
qed

lemma new_forwarding:
  assumes "quic_step w s s'" "Forwarding p h n src d \<in> set (ls_trace s')"
  shows "Forwarding p h n src d \<in> set (ls_trace s)
    \<or> egress_allowed (qw_nets w) (ap_egress_filter s) (sa_ip d) \<and> (\<exists>data b. Resolving p data b h \<in> set (ls_tasks s))"
  using assms(1)
proof (cases rule: quic_step.cases)
  case (arrive now send_ok peer data r s1)
  then show ?thesis using assms(2) forwarding_frames(1) by (metis put_drop_trace(1) snd_conv)
next
  case (resolved i peer data b sni addrs io r s1)
  show ?thesis
  proof (cases "Forwarding p h n src d \<in> set (ls_trace s)")
    case False
    then have "p = peer \<and> h = sni \<and> egress_allowed (qw_nets w) (ap_egress_filter s) (sa_ip d)"
      using quic_resolved_opens [OF resolved(5)] assms(2) resolved(1) by auto
    moreover have "Resolving peer data b sni \<in> set (ls_tasks s)" using resolved(2,3) by (metis nth_mem)
    ultimately show ?thesis by blast
  qed simp
next
  case (sent i peer n src_v6 dst_addr send_ok r s1)
  then show ?thesis using assms(2) forwarding_frames(2) by (metis put_drop_trace(1,2) snd_conv)
next
  case (relay_timeout i n peer dst_addr since t s1)
  then show ?thesis using assms(2) forwarding_frames(3) by (metis put_drop_trace(1,2) snd_conv)
next
  case (relay_recv i n peer dst_addr since outcome t s1)
  then show ?thesis using assms(2) forwarding_frames(3) by (metis put_drop_trace(1,2) snd_conv)
next
  case cleanup
  then show ?thesis using assms(2) by (simp add: QuicRelay.cleanup_def)
next
  case (tick now)
  then show ?thesis using assms(2) by simp
next
  case admin
  then show ?thesis using assms(2) more_frames(5) [OF admin] by simp
qed

text \<open>Both at some moment of a run. The run may be of a system that takes only some of the steps of the
  listener, or does more than the listener in one step.\<close>

definition admitted_in_run ::
  "(('net, 'a) listener_scheme \<Rightarrow> ('net, 'a) listener_scheme \<Rightarrow> bool) \<Rightarrow> 'net quic_world
     \<Rightarrow> ('net, 'a) listener_scheme \<Rightarrow> ('net, 'a) listener_scheme \<Rightarrow> string \<Rightarrow> bool" where
  "admitted_in_run R w s0 s sni \<longleftrightarrow>
     (\<exists>s1 data. R\<^sup>*\<^sup>* s0 s1 \<and> R\<^sup>*\<^sup>* s1 s \<and> extract_quic_sni (qw_crypto w) data = Some (Some sni)
        \<and> host_allowed (ap_domain_filter s1) sni)"

definition guarded_in_run ::
  "(('net, 'a) listener_scheme \<Rightarrow> ('net, 'a) listener_scheme \<Rightarrow> bool) \<Rightarrow> 'net quic_world
     \<Rightarrow> ('net, 'a) listener_scheme \<Rightarrow> ('net, 'a) listener_scheme \<Rightarrow> string \<Rightarrow> socket_addr \<Rightarrow> bool" where
  "guarded_in_run R w s0 s sni dst \<longleftrightarrow>
     (\<exists>s1 s2 data. R\<^sup>*\<^sup>* s0 s1 \<and> R\<^sup>*\<^sup>* s1 s2 \<and> R\<^sup>*\<^sup>* s2 s
        \<and> extract_quic_sni (qw_crypto w) data = Some (Some sni)
        \<and> host_allowed (ap_domain_filter s1) sni
        \<and> egress_allowed (qw_nets w) (ap_egress_filter s2) (sa_ip dst))"

lemma run_mono:
  "R s s' \<Longrightarrow> admitted_in_run R w s0 s sni \<Longrightarrow> admitted_in_run R w s0 s' sni"
  "R s s' \<Longrightarrow> guarded_in_run R w s0 s sni dst \<Longrightarrow> guarded_in_run R w s0 s' sni dst"
  unfolding admitted_in_run_def guarded_in_run_def by (meson rtranclp.rtrancl_into_rtrancl)+

lemma run_guarded:
  assumes "R\<^sup>*\<^sup>* s0 s" "fresh_listener s0" and sub: "\<And>s s'. R s s' \<Longrightarrow> quic_step w s s'"
  shows "(\<forall>p d b h. Resolving p d b h \<in> set (ls_tasks s) \<longrightarrow> admitted_in_run R w s0 s h)
    \<and> (\<forall>p h n src dst. Forwarding p h n src dst \<in> set (ls_trace s) \<longrightarrow> guarded_in_run R w s0 s h dst)"
  using assms(1)
proof (induction rule: rtranclp_induct)
  case base
  then show ?case using assms(2) by (simp add: fresh_listener_def)
next
  case (step s1 s2)
  note move = sub [OF step.hyps(2)]
  have here: "R\<^sup>*\<^sup>* s1 s2" "R\<^sup>*\<^sup>* s1 s1" using step.hyps(2) by auto
  have tasks: "admitted_in_run R w s0 s2 h" if "Resolving p d b h \<in> set (ls_tasks s2)" for p d b h
    using new_resolving [OF move that] step.IH run_mono(1) [of R, OF step.hyps(2)] step.hyps(1) here(1)
    unfolding admitted_in_run_def by blast
  have "guarded_in_run R w s0 s2 h dst" if "Forwarding p h n src dst \<in> set (ls_trace s2)" for p h n src dst
  proof (cases "Forwarding p h n src dst \<in> set (ls_trace s1)")
    case True
    then show ?thesis using step.IH run_mono(2) [of R, OF step.hyps(2)] by blast
  next
    case False
    then have e: "egress_allowed (qw_nets w) (ap_egress_filter s1) (sa_ip dst)"
      and "admitted_in_run R w s0 s1 h"
      using new_forwarding [OF move that] step.IH by blast+
    then show ?thesis unfolding admitted_in_run_def guarded_in_run_def using here(1) by blast
  qed
  with tasks show ?case by blast
qed

end
