(* ===== verification/QuicSessions.thy ===== *)
theory QuicSessions
  imports QuicIsolation
begin

text \<open>
  The properties of the QUIC listener, with a concrete instance of its environment and concrete runs:
  isolation of the sessions, admission by the filters, the opening of a session, and the run in which
  a left-over relay removes a session in use.
\<close>

section \<open>An instance\<close>

definition quic_answers :: "socket_addr list" where
  "quic_answers = [\<lparr>sa_ip = IpV6 (0x20010db80001 * 2 ^ 80), sa_port = 443\<rparr>]"

definition example_world :: "(ip_addr \<times> u8) quic_world" where
  "example_world =
     \<lparr>qw_nets = plain_ops, qw_crypto = plain_crypto, qw_sip = example_sip, qw_pools = example_pools,
      qw_dns = (\<lambda>t a. t = lookup_text ''a.b'' 443 \<and> a = Some quic_answers)\<rparr>"

lemma example_world_ok: "world_ok example_world"
  unfolding world_ok_def
proof (intro conjI)
  show "\<forall>p \<in> set (qw_pools example_world). pool_wf p"
    using example_pools_wf by (simp add: example_world_def)
  show "dns_ports example_world"
    by (auto simp: dns_ports_def example_world_def quic_answers_def dest!: lookup_text_inject)
qed

text \<open>The listener at a moment of the example: the clock, sessions, sockets, tasks and trace.\<close>

definition listener_at ::
  "nat \<Rightarrow> (session_key \<Rightarrow> quic_session option) \<Rightarrow> u128 list \<Rightarrow> quic_task list \<Rightarrow> quic_event list
     \<Rightarrow> (ip_addr \<times> u8) listener" where
  "listener_at now m socks ts tr =
     app.extend (example_app\<lparr>pr_default_policy := Some SrcIp, pr_default_seed := Some 0\<rparr>)
       \<lparr>ls_clock = now, ls_sessions = m, ls_sockets = socks, ls_tasks = ts, ls_trace = tr\<rparr>"

lemma listener_at_simps [simp]:
  "ls_clock (listener_at now m socks ts tr) = now"
  "ls_sessions (listener_at now m socks ts tr) = m"
  "ls_sockets (listener_at now m socks ts tr) = socks"
  "ls_tasks (listener_at now m socks ts tr) = ts"
  "ls_trace (listener_at now m socks ts tr) = tr"
  "(listener_at now m socks ts tr)\<lparr>ls_clock := now'\<rparr> = listener_at now' m socks ts tr"
  "(listener_at now m socks ts tr)\<lparr>ls_sessions := m'\<rparr> = listener_at now m' socks ts tr"
  "(listener_at now m socks ts tr)\<lparr>ls_sockets := socks'\<rparr> = listener_at now m socks' ts tr"
  "(listener_at now m socks ts tr)\<lparr>ls_tasks := ts'\<rparr> = listener_at now m socks ts' tr"
  "emit es (listener_at now m socks ts tr) = listener_at now m socks ts (tr @ es)"
  by (simp_all add: listener_at_def app.defs emit_def)

lemma listener_at_app:
  "host_allowed (ap_domain_filter (listener_at now m socks ts tr)) ''a.b''"
  "ap_egress_filter (listener_at now m socks ts tr) = ap_egress_filter example_app"
  "peer_binding t ip (listener_at now m socks ts tr)
     = (\<lparr>bd_policy = SrcIp, bd_seed = 0, bd_updated_at = t\<rparr>, listener_at now m socks ts tr)"
proof -
  have "ap_domain_filter (listener_at now m socks ts tr) = ap_domain_filter example_app"
    by (simp add: listener_at_def app.defs)
  then show "host_allowed (ap_domain_filter (listener_at now m socks ts tr)) ''a.b''"
    using example_allowed_host by simp
qed (auto simp: listener_at_def app.defs peer_binding_def default_binding_def default_hash_policy_def
      default_binding_seed_def example_app_def example_proc_def policies_default_def proc.defs split: option.splits)

abbreviation (input) quic_peer :: socket_addr where
  "quic_peer \<equiv> \<lparr>sa_ip = IpV4 1, sa_port = 5000\<rparr>"

abbreviation (input) quic_dst :: socket_addr where
  "quic_dst \<equiv> \<lparr>sa_ip = IpV6 (0x20010db80001 * 2 ^ 80), sa_port = 443\<rparr>"

definition quic_src :: u128 where
  "quic_src = host_at (hd example_pools) (example_sip 0 (word_rotl 17 0) [HashIp (IpV4 1)])"

definition quic_binding :: binding where
  "quic_binding = \<lparr>bd_policy = SrcIp, bd_seed = 0, bd_updated_at = 0\<rparr>"

lemma quic_pick: "pick_outgoing example_sip example_pools quic_binding (IpV4 1) d 5000 443 = Some (Some quic_src)"
  by (simp add: pick_outgoing_def example_pools_def quic_src_def idx_def quic_binding_def)

lemma quic_dst_permitted: "first_permitted plain_ops (ap_egress_filter example_app) quic_answers = Some quic_dst"
  by (simp add: first_permitted_def quic_answers_def is_ipv6_def example_app_def proc.defs
      egress_allowed_def egress_filter_default_def best_net_def)

lemma arrive_step:
  "m (IpV4 1, 5000) = None \<Longrightarrow>
     quic_step example_world (listener_at now m socks ts tr)
       (listener_at now m socks (ts @ [Resolving quic_peer example_datagram quic_binding ''a.b''])
          (tr @ [QuicLookup (lookup_text ''a.b'' 443)]))"
proof -
  assume m: "m (IpV4 1, 5000) = None"
  have "quic_arrive (qw_crypto example_world) 0 True quic_peer example_datagram (listener_at now m socks ts tr)
      = (Some (Inr (Some (Resolving quic_peer example_datagram quic_binding ''a.b''))),
         listener_at now m socks ts (tr @ [QuicLookup (lookup_text ''a.b'' 443)]))"
    using m by (simp add: quic_arrive_def listener_at_app example_world_def example_datagram_sni admit_host_def
        quic_binding_def)
  from quic_step.arrive [OF this] show ?thesis by (simp add: task_of_def put_task_def)
qed

definition good_udp :: udp_io where
  "good_udp = \<lparr>ud_socket = True, ud_freebind = True, ud_bind = True, ud_nonblocking = True, ud_from_std = True\<rparr>"

lemma resolved_step:
  "quic_step example_world
     (listener_at now m socks (Resolving quic_peer data quic_binding ''a.b'' # ts) tr)
     (listener_at now m (socks @ [quic_src]) (ts @ [Sending quic_peer (length socks) quic_src quic_dst])
        (tr @ [UdpBound (length socks) quic_src, Forwarding quic_peer ''a.b'' (length socks) quic_src quic_dst,
               ToUpstream quic_peer (length socks) quic_dst data]))"
proof -
  let ?s = "listener_at now m socks (Resolving quic_peer data quic_binding ''a.b'' # ts) tr"
  have drop: "drop_task 0 ?s = listener_at now m socks ts tr" by (simp add: drop_task_def)
  have "quic_resolved (qw_nets example_world) (qw_sip example_world) (qw_pools example_world) (Some quic_answers)
      good_udp quic_peer data quic_binding ''a.b'' (drop_task 0 ?s)
    = (Some (Inr (Some (Sending quic_peer (length socks) quic_src quic_dst))),
       listener_at now m (socks @ [quic_src]) ts
        (tr @ [UdpBound (length socks) quic_src, Forwarding quic_peer ''a.b'' (length socks) quic_src quic_dst,
               ToUpstream quic_peer (length socks) quic_dst data]))"
    unfolding drop
    by (simp add: quic_resolved_def resolve_dst_eq example_world_def listener_at_app quic_dst_permitted quic_pick
        create_v6_udp_socket_def good_udp_def Let_def)
  from quic_step.resolved [OF _ _ _ this] show ?thesis
    by (simp add: task_of_def put_task_def example_world_def)
qed

definition quic_entry :: "nat \<Rightarrow> nat \<Rightarrow> quic_session" where
  "quic_entry n now = \<lparr>qs_upstream = n, qs_dst_addr = quic_dst, qs_src_v6 = quic_src, qs_last_active = now\<rparr>"

lemma sent_step:
  "quic_step example_world (listener_at now m socks (Sending quic_peer n quic_src quic_dst # ts) tr)
     (listener_at now (m((IpV4 1, 5000) \<mapsto> quic_entry n now)) socks (ts @ [Relaying n quic_peer quic_dst now]) tr)"
proof -
  let ?s = "listener_at now m socks (Sending quic_peer n quic_src quic_dst # ts) tr"
  have "drop_task 0 ?s = listener_at now m socks ts tr" by (simp add: drop_task_def)
  then have "quic_sent True quic_peer n quic_src quic_dst (drop_task 0 ?s)
    = (Inr (Some (Relaying n quic_peer quic_dst now)),
       listener_at now (m((IpV4 1, 5000) \<mapsto> quic_entry n now)) socks ts tr)"
    by (simp add: quic_sent_def quic_entry_def)
  from quic_step.sent [OF _ _ this] show ?thesis by (simp add: task_of_def put_task_def)
qed

lemma follow_step:
  "m (IpV4 1, 5000) = Some (quic_entry n t) \<Longrightarrow>
     quic_step example_world (listener_at now m socks ts tr)
       (listener_at now (m((IpV4 1, 5000) \<mapsto> quic_entry n now)) socks ts
          (tr @ [ToUpstream quic_peer n quic_dst data]))"
proof -
  assume "m (IpV4 1, 5000) = Some (quic_entry n t)"
  then have "quic_arrive (qw_crypto example_world) 0 True quic_peer data (listener_at now m socks ts tr)
    = (Some (Inr None), listener_at now (m((IpV4 1, 5000) \<mapsto> quic_entry n now)) socks ts
         (tr @ [ToUpstream quic_peer n quic_dst data]))"
    by (simp add: quic_arrive_def quic_entry_def Let_def)
  from quic_step.arrive [OF this] show ?thesis by (simp add: task_of_def put_task_def)
qed

lemma reply_step:
  "quic_step example_world (listener_at now m socks [t, Relaying n quic_peer quic_dst since] tr)
     (listener_at now m socks [t, Relaying n quic_peer quic_dst now] (tr @ [ToClient n quic_dst quic_peer data]))"
proof -
  let ?s = "listener_at now m socks [t, Relaying n quic_peer quic_dst since] tr"
  have "drop_task 1 ?s = listener_at now m socks [t] tr" by (simp add: drop_task_def)
  then have "relay_step (Received quic_dst data True) n quic_peer quic_dst (drop_task 1 ?s)
    = (Some (Relaying n quic_peer quic_dst now), listener_at now m socks [t] (tr @ [ToClient n quic_dst quic_peer data]))"
    by (simp add: relay_step_def)
  from quic_step.relay_recv [OF _ _ _ this] show ?thesis by (simp add: put_task_def)
qed

lemma timeout_step:
  "since + session_idle_timeout \<le> now \<Longrightarrow>
     quic_step example_world (listener_at now m socks (Relaying n quic_peer quic_dst since # ts) tr)
       (listener_at now (m((IpV4 1, 5000) := None)) socks ts tr)"
proof -
  assume t: "since + session_idle_timeout \<le> now"
  let ?s = "listener_at now m socks (Relaying n quic_peer quic_dst since # ts) tr"
  have "drop_task 0 ?s = listener_at now m socks ts tr" by (simp add: drop_task_def)
  then have "relay_step RecvTimeout n quic_peer quic_dst (drop_task 0 ?s)
    = (None, listener_at now (m((IpV4 1, 5000) := None)) socks ts tr)"
    by (simp add: relay_step_def)
  from quic_step.relay_timeout [OF _ _ _ this] t show ?thesis by (simp add: put_task_def)
qed

lemma tick_step: "now \<le> now' \<Longrightarrow>
    quic_step example_world (listener_at now m socks ts tr) (listener_at now' m socks ts tr)"
  using quic_step.tick [of "listener_at now m socks ts tr" now' example_world] by simp

text \<open>Two datagrams of a new connection, both handled before there is a session: the table keeps the
  second socket, while the relay of the first one times out and removes the session in use.\<close>

abbreviation (input) after_open :: "nat \<Rightarrow> nat \<Rightarrow> quic_task list \<Rightarrow> quic_event list \<Rightarrow> (ip_addr \<times> u8) listener" where
  "after_open now t ts tr \<equiv> listener_at now [(IpV4 1, 5000) \<mapsto> quic_entry 1 t] [quic_src, quic_src] ts tr"

lemma opening_run:
  "\<exists>tr. quic_steps example_world (listener_at 0 (\<lambda>k. None) [] [] [])
     (after_open 0 0 [Relaying 0 quic_peer quic_dst 0, Relaying 1 quic_peer quic_dst 0] tr)"
proof -
  let ?r = "Resolving quic_peer example_datagram quic_binding ''a.b''"
  note step = rtranclp.rtrancl_into_rtrancl [of "quic_step example_world"]
  have "\<exists>tr. quic_steps example_world (listener_at 0 (\<lambda>k. None) [] [] []) (listener_at 0 (\<lambda>k. None) [] [?r] tr)"
    using arrive_step [of "\<lambda>k. None" 0 "[]" "[]" "[]"] by auto
  then have "\<exists>tr. quic_steps example_world (listener_at 0 (\<lambda>k. None) [] [] []) (listener_at 0 (\<lambda>k. None) [] [?r, ?r] tr)"
    using step arrive_step [of "\<lambda>k. None" 0 "[]" "[?r]"] by fastforce
  then have "\<exists>tr. quic_steps example_world (listener_at 0 (\<lambda>k. None) [] [] [])
      (listener_at 0 (\<lambda>k. None) [quic_src] [?r, Sending quic_peer 0 quic_src quic_dst] tr)"
    using step resolved_step [of 0 "\<lambda>k. None" "[]" example_datagram "[?r]"] by fastforce
  then have "\<exists>tr. quic_steps example_world (listener_at 0 (\<lambda>k. None) [] [] [])
      (listener_at 0 (\<lambda>k. None) [quic_src, quic_src]
        [Sending quic_peer 0 quic_src quic_dst, Sending quic_peer 1 quic_src quic_dst] tr)"
    using step resolved_step [of 0 "\<lambda>k. None" "[quic_src]" example_datagram "[Sending quic_peer 0 quic_src quic_dst]"]
    by fastforce
  then have "\<exists>tr. quic_steps example_world (listener_at 0 (\<lambda>k. None) [] [] [])
      (listener_at 0 [(IpV4 1, 5000) \<mapsto> quic_entry 0 0] [quic_src, quic_src]
        [Sending quic_peer 1 quic_src quic_dst, Relaying 0 quic_peer quic_dst 0] tr)"
    using step sent_step [of 0 "\<lambda>k. None" "[quic_src, quic_src]" 0 "[Sending quic_peer 1 quic_src quic_dst]"]
    by fastforce
  then show ?thesis
    using step sent_step [of 0 "[(IpV4 1, 5000) \<mapsto> quic_entry 0 0]" "[quic_src, quic_src]" 1 "[Relaying 0 quic_peer quic_dst 0]"]
    by fastforce
qed

lemma stale_relay_run:
  "\<exists>s s'. quic_steps example_world (listener_at 0 (\<lambda>k. None) [] [] []) s
     \<and> ls_sessions s (IpV4 1, 5000) = Some (quic_entry 1 (299 * 10 ^ 9)) \<and> ls_clock s = 300 * 10 ^ 9
     \<and> (\<exists>since. Relaying 1 quic_peer quic_dst since \<in> set (ls_tasks s) \<and> since = 299 * 10 ^ 9)
     \<and> quic_step example_world s s' \<and> ls_sessions s' (IpV4 1, 5000) = None \<and> ls_trace s' = ls_trace s"
proof -
  let ?a = "299 * 10 ^ 9 :: nat" and ?b = "300 * 10 ^ 9 :: nat" and ?init = "listener_at 0 (\<lambda>k. None) [] [] []"
  let ?r0 = "Relaying 0 quic_peer quic_dst 0"
  note step = rtranclp.rtrancl_into_rtrancl [of "quic_step example_world"]
  obtain tr where "quic_steps example_world ?init (after_open 0 0 [?r0, Relaying 1 quic_peer quic_dst 0] tr)"
    using opening_run by blast
  from step [OF this tick_step [of 0 ?a]]
  have "quic_steps example_world ?init (after_open ?a 0 [?r0, Relaying 1 quic_peer quic_dst 0] tr)" by simp
  from step [OF this follow_step [of _ 1 0 ?a _ _ _ "[1]"]]
  have "quic_steps example_world ?init (after_open ?a ?a [?r0, Relaying 1 quic_peer quic_dst 0]
      (tr @ [ToUpstream quic_peer 1 quic_dst [1]]))" by simp
  from step [OF this reply_step [of ?a _ _ _ _ _ _ "[2]"]]
  have "quic_steps example_world ?init (after_open ?a ?a [?r0, Relaying 1 quic_peer quic_dst ?a]
      (tr @ [ToUpstream quic_peer 1 quic_dst [1], ToClient 1 quic_dst quic_peer [2]]))" by simp
  from step [OF this tick_step [of ?a ?b]]
  have run: "quic_steps example_world ?init (after_open ?b ?a [?r0, Relaying 1 quic_peer quic_dst ?a]
      (tr @ [ToUpstream quic_peer 1 quic_dst [1], ToClient 1 quic_dst quic_peer [2]]))" by simp
  have "0 + session_idle_timeout \<le> ?b" by (simp add: session_idle_timeout_def)
  from timeout_step [OF this, of "[(IpV4 1, 5000) \<mapsto> quic_entry 1 ?a]" "[quic_src, quic_src]" 0
      "[Relaying 1 quic_peer quic_dst ?a]" "tr @ [ToUpstream quic_peer 1 quic_dst [1], ToClient 1 quic_dst quic_peer [2]]"]
  show ?thesis using run by (intro exI conjI) (assumption | simp)+
qed

section \<open>Properties\<close>

text \<open>C10: isolation of QUIC sessions in every run of the listener from a start without sessions, with pools
  as a configuration that is accepted has them (their host bits are zero) and a resolver that answers at
  the port it was asked for: a datagram that goes upstream leaves through a socket opened for the very
  client it came from, to the IPv6 address and port 443 that the socket was opened for; the socket is
  bound to an address of a pool or, for a pool of a single address (/128), to its prefix with the lowest
  bit set, which may lie outside the pool; a datagram relayed to a client came from the destination of a
  socket opened for that client; and no socket serves two clients or two destinations.\<close>

theorem quic_isolation:
  assumes run: "quic_steps w s0 s" and w: "world_ok w" and s0: "fresh_listener s0"
  shows "(\<forall>peer n dst data. ToUpstream peer n dst data \<in> set (ls_trace s) \<longrightarrow>
            (\<exists>sni src. Forwarding peer sni n src dst \<in> set (ls_trace s) \<and> ls_sockets s ! n = src
               \<and> is_ipv6 dst \<and> sa_port dst = 443 \<and> (\<exists>p \<in> set (qw_pools w). leaves_from p src)))
    \<and> (\<forall>n from peer data. ToClient n from peer data \<in> set (ls_trace s) \<longrightarrow>
            (\<exists>sni src. Forwarding peer sni n src from \<in> set (ls_trace s)))
    \<and> (\<forall>peer sni src dst peer' sni' src' dst' n.
            Forwarding peer sni n src dst \<in> set (ls_trace s) \<longrightarrow>
            Forwarding peer' sni' n src' dst' \<in> set (ls_trace s) \<longrightarrow> peer' = peer \<and> dst' = dst)"
proof -
  have ok: "forwarding_ok (qw_pools w) (ls_sockets s) (ls_trace s)" "exclusive (ls_trace s)" "relayed_ok (ls_trace s)"
    using quic_steps_ok [OF run w s0] by (simp_all add: listener_ok_def)
  show ?thesis
  proof (intro conjI)
    have up: "\<exists>sni src. Forwarding peer sni n src dst \<in> set (ls_trace s) \<and> ls_sockets s ! n = src
        \<and> is_ipv6 dst \<and> sa_port dst = 443 \<and> (\<exists>p \<in> set (qw_pools w). leaves_from p src)"
      if up: "ToUpstream peer n dst data \<in> set (ls_trace s)" for peer n dst data
    proof -
      obtain sni src where f: "Forwarding peer sni n src dst \<in> set (ls_trace s)"
        using ok(3) up unfolding relayed_ok_def opened_def by blast
      from ok(1) [unfolded forwarding_ok_def, rule_format, OF f] f show ?thesis by blast
    qed
    show "\<forall>peer n dst data. ToUpstream peer n dst data \<in> set (ls_trace s) \<longrightarrow>
            (\<exists>sni src. Forwarding peer sni n src dst \<in> set (ls_trace s) \<and> ls_sockets s ! n = src
               \<and> is_ipv6 dst \<and> sa_port dst = 443 \<and> (\<exists>p \<in> set (qw_pools w). leaves_from p src))"
      using up by blast
    show "\<forall>n from peer data. ToClient n from peer data \<in> set (ls_trace s) \<longrightarrow>
            (\<exists>sni src. Forwarding peer sni n src from \<in> set (ls_trace s))"
      using ok(3) unfolding relayed_ok_def opened_def by blast
    show "\<forall>peer sni src dst peer' sni' src' dst' n.
            Forwarding peer sni n src dst \<in> set (ls_trace s) \<longrightarrow>
            Forwarding peer' sni' n src' dst' \<in> set (ls_trace s) \<longrightarrow> peer' = peer \<and> dst' = dst"
      using ok(2) unfolding exclusive_def opened_def by blast
  qed
qed

lemma example_fresh: "fresh_listener (listener_at 0 (\<lambda>k. None) [] [] [])"
  by (simp add: fresh_listener_def)

lemma example_session_run:
  "\<exists>tr. quic_steps example_world (listener_at 0 (\<lambda>k. None) [] [] [])
     (listener_at 0 (\<lambda>k. None) [quic_src] [Sending quic_peer 0 quic_src quic_dst]
        (tr @ [Forwarding quic_peer ''a.b'' 0 quic_src quic_dst, ToUpstream quic_peer 0 quic_dst example_datagram]))"
proof -
  have "quic_steps example_world (listener_at 0 (\<lambda>k. None) [] [] [])
      (listener_at 0 (\<lambda>k. None) [] [Resolving quic_peer example_datagram quic_binding ''a.b'']
        [QuicLookup (lookup_text ''a.b'' 443)])"
    using arrive_step [of "\<lambda>k. None" 0 "[]" "[]" "[]"] by auto
  from rtranclp.rtrancl_into_rtrancl [of "quic_step example_world", OF this
      resolved_step [of 0 "\<lambda>k. None" "[]" example_datagram "[]" "[QuicLookup (lookup_text ''a.b'' 443)]"]]
  show ?thesis by (intro exI [of _ "[QuicLookup (lookup_text ''a.b'' 443), UdpBound 0 quic_src]"]) simp
qed

theorem quic_isolation_witness:
  "\<exists>s. quic_steps example_world (listener_at 0 (\<lambda>k. None) [] [] []) s
     \<and> ToUpstream quic_peer 0 quic_dst example_datagram \<in> set (ls_trace s)
     \<and> (\<exists>p \<in> set example_pools. leaves_from p (ls_sockets s ! 0))"
proof -
  obtain tr where run: "quic_steps example_world (listener_at 0 (\<lambda>k. None) [] [] [])
     (listener_at 0 (\<lambda>k. None) [quic_src] [Sending quic_peer 0 quic_src quic_dst]
        (tr @ [Forwarding quic_peer ''a.b'' 0 quic_src quic_dst, ToUpstream quic_peer 0 quic_dst example_datagram]))"
    (is "quic_steps _ _ ?s") using example_session_run by blast
  moreover have up: "ToUpstream quic_peer 0 quic_dst example_datagram \<in> set (ls_trace ?s)" by simp
  moreover have "\<exists>p \<in> set example_pools. leaves_from p (ls_sockets ?s ! 0)"
    using conjunct1 [OF quic_isolation [OF run example_world_ok example_fresh]] up
    unfolding example_world_def quic_world.select_convs by blast
  ultimately show ?thesis by blast
qed

text \<open>No QUIC session escapes the filters: whenever the listener has opened a session for a name and
  a destination, the name was read from a datagram, the domain filter published at some earlier moment of the run allowed that name, and
  the egress filter published at a later one allowed that destination, whatever the admin API changed
  in between.\<close>

theorem quic_admission:
  assumes "quic_steps w s0 s" "fresh_listener s0" "Forwarding peer sni n src dst \<in> set (ls_trace s)"
  shows "\<exists>s1 s2. quic_steps w s0 s1 \<and> quic_steps w s1 s2 \<and> quic_steps w s2 s
    \<and> (\<exists>data. extract_quic_sni (qw_crypto w) data = Some (Some sni))
    \<and> host_allowed (ap_domain_filter s1) sni
    \<and> egress_allowed (qw_nets w) (ap_egress_filter s2) (sa_ip dst)"
  using run_guarded [OF assms(1,2)] assms(3) unfolding guarded_in_run_def by blast

theorem quic_admission_witness:
  "\<exists>s2. quic_steps example_world (listener_at 0 (\<lambda>k. None) [] [] []) s2
     \<and> egress_allowed plain_ops (ap_egress_filter s2) (sa_ip quic_dst)"
proof -
  obtain tr where run: "quic_steps example_world (listener_at 0 (\<lambda>k. None) [] [] [])
     (listener_at 0 (\<lambda>k. None) [quic_src] [Sending quic_peer 0 quic_src quic_dst]
        (tr @ [Forwarding quic_peer ''a.b'' 0 quic_src quic_dst, ToUpstream quic_peer 0 quic_dst example_datagram]))"
    (is "quic_steps _ _ ?s") using example_session_run by blast
  have "Forwarding quic_peer ''a.b'' 0 quic_src quic_dst \<in> set (ls_trace ?s)" by simp
  from quic_admission [OF run example_fresh this] show ?thesis
    unfolding example_world_def quic_world.select_convs by (meson rtranclp_trans)
qed


definition example_packet_io :: "(ip_addr \<times> u8) listener packet_io" where
  "example_packet_io =
     \<lparr>pi_now = 0, pi_send_ok = True, pi_dns = (\<lambda>t. if t = lookup_text ''a.b'' 443 then Some quic_answers else None),
      pi_after_dns = id, pi_udp = good_udp, pi_after_send = id\<rparr>"


text \<open>C40: two datagrams of one new connection (a client that repeats its Initial packet before the first is
  resolved) open two sockets; five minutes later the relay of the first removes the session that the
  second is still using, one second after its last datagram in either direction.\<close>

theorem stale_relay_removes_session:
  "\<exists>s s'. quic_steps example_world (listener_at 0 (\<lambda>k. None) [] [] []) s
     \<and> ls_sessions s (IpV4 1, 5000) = Some (quic_entry 1 (299 * 10 ^ 9)) \<and> ls_clock s = 300 * 10 ^ 9
     \<and> (\<exists>since. Relaying 1 quic_peer quic_dst since \<in> set (ls_tasks s) \<and> since = 299 * 10 ^ 9)
     \<and> quic_step example_world s s' \<and> ls_sessions s' (IpV4 1, 5000) = None \<and> ls_trace s' = ls_trace s"
  by (rule stale_relay_run)

end
