(* ===== verification/QuicLiveness.thy ===== *)
theory QuicLiveness
  imports QuicSessions
begin

text \<open>
  The QUIC listener left to itself: its tasks take a bounded number of turns, and from every state it
  can reach, a run without further datagrams leads to a state with no task and no session.
\<close>

section \<open>The turns of the tasks\<close>

text \<open>The steps in which a waiting task goes on by itself: its answer, its socket or its timeout is there.
  Neither a client nor a server has to send anything.\<close>

inductive task_turn ::
  "'net quic_world \<Rightarrow> ('net, 'a) listener_scheme \<Rightarrow> ('net, 'a) listener_scheme \<Rightarrow> bool"
  for w where
  resolved: "i < length (ls_tasks s) \<Longrightarrow> ls_tasks s ! i = Resolving peer data b sni
     \<Longrightarrow> qw_dns w (lookup_text sni 443) addrs
     \<Longrightarrow> quic_resolved (qw_nets w) (qw_sip w) (qw_pools w) addrs io peer data b sni (drop_task i s) = (r, s')
     \<Longrightarrow> task_turn w s (put_task (task_of r) s')"
| sent: "i < length (ls_tasks s) \<Longrightarrow> ls_tasks s ! i = Sending peer n src_v6 dst_addr
     \<Longrightarrow> quic_sent send_ok peer n src_v6 dst_addr (drop_task i s) = (r, s')
     \<Longrightarrow> task_turn w s (put_task (task_of (Some r)) s')"
| timed_out: "i < length (ls_tasks s) \<Longrightarrow> ls_tasks s ! i = Relaying n peer dst_addr since
     \<Longrightarrow> since + session_idle_timeout \<le> ls_clock s
     \<Longrightarrow> relay_step RecvTimeout n peer dst_addr (drop_task i s) = (t, s')
     \<Longrightarrow> task_turn w s (put_task t s')"

text \<open>The listener while nothing arrives: tasks take turns, time passes, the cleanup runs.\<close>

inductive idle_step ::
  "'net quic_world \<Rightarrow> ('net, 'a) listener_scheme \<Rightarrow> ('net, 'a) listener_scheme \<Rightarrow> bool"
  for w where
  turn: "task_turn w s s' \<Longrightarrow> idle_step w s s'"
| tick: "ls_clock s \<le> now \<Longrightarrow> idle_step w s (s\<lparr>ls_clock := now\<rparr>)"
| cleanup: "idle_step w s (cleanup s)"

lemma task_turn_step: "task_turn w s s' \<Longrightarrow> quic_step w s s'"
  by (induction rule: task_turn.induct)
     (blast intro: quic_step.resolved quic_step.sent quic_step.relay_timeout)+

lemma idle_step_step: "idle_step w s s' \<Longrightarrow> quic_step w s s'"
  by (induction rule: idle_step.induct) (auto intro: task_turn_step quic_step.tick quic_step.cleanup)

text \<open>How many turns a task has left at most.\<close>

fun turns_left :: "quic_task \<Rightarrow> nat" where
  "turns_left (Resolving peer data b sni) = 3"
| "turns_left (Sending peer n src dst) = 2"
| "turns_left (Relaying n peer dst since) = 1"

definition pending :: "('net, 'a) listener_scheme \<Rightarrow> nat" where
  "pending s = sum_list (map turns_left (ls_tasks s))"

lemma pending_bound: "pending s \<le> 3 * length (ls_tasks s)"
proof -
  have "turns_left t \<le> 3" for t by (cases t) simp_all
  then have "sum_list (map turns_left ts) \<le> 3 * length ts" for ts
    by (induction ts) (simp_all add: add_mono order_trans)
  then show ?thesis by (simp add: pending_def)
qed

lemma pending_drop:
  assumes "i < length (ls_tasks s)"
  shows "pending s = pending (drop_task i s) + turns_left (ls_tasks s ! i)"
  unfolding pending_def drop_task_def
  by (subst id_take_nth_drop [OF assms]) simp

lemma pending_put:
  "pending (put_task t s) = pending s + (case t of None \<Rightarrow> 0 | Some t \<Rightarrow> turns_left t)"
  by (simp add: pending_def put_task_def split: option.split)

lemma create_v6_udp_socket_tasks: "ls_tasks (snd (create_v6_udp_socket io src s)) = ls_tasks s"
  by (simp add: create_v6_udp_socket_def emit_def Let_def)

lemma quic_resolved_turns:
  assumes "quic_resolved ops sip pools addrs io peer data b sni s = (r, s')"
  shows "pending s' = pending s \<and> (\<forall>t. task_of r = Some t \<longrightarrow> turns_left t = 2)"
proof -
  obtain d s1 where d: "resolve_dst ops addrs sni s = (d, s1)" by fastforce
  have s1: "ls_tasks s1 = ls_tasks s" using app_frames(12) [of ops addrs sni s] d by simp
  have "ls_tasks s2 = ls_tasks s" if "create_v6_udp_socket io src s1 = (x, s2)" for src x s2
    using create_v6_udp_socket_tasks [of io src s1] that s1 by simp
  then have "ls_tasks s' = ls_tasks s \<and> (\<forall>t. task_of r = Some t \<longrightarrow> turns_left t = 2)"
    using assms s1
    by (auto simp: quic_resolved_def d task_of_def emit_def split: sum.splits option.splits prod.splits)
  then show ?thesis by (simp add: pending_def)
qed

lemma task_turn_pending: "task_turn w s s' \<Longrightarrow> pending s' < pending s"
proof (induction rule: task_turn.induct)
  case (resolved i s peer data b sni addrs io r s')
  then show ?case
    using quic_resolved_turns [OF resolved(4)] pending_drop [OF resolved(1)]
    by (simp add: pending_put split: option.split)
next
  case (sent i s peer n src dst send_ok r s')
  have "pending s' = pending (drop_task i s)" "\<forall>t. task_of (Some r) = Some t \<longrightarrow> turns_left t = 1"
    using sent(3) by (auto simp: quic_sent_def pending_def task_of_def split: if_splits)
  then show ?case
    using pending_drop [OF sent(1)] sent(2) by (simp add: pending_put split: option.split)
next
  case (timed_out i s n peer dst since t s')
  have "pending s' = pending (drop_task i s)" "t = None"
    using timed_out(4) by (auto simp: relay_step_def pending_def)
  then show ?case using pending_drop [OF timed_out(1)] timed_out(2) by (simp add: pending_put)
qed

lemma task_turns_pending: "(task_turn w ^^ n) s s' \<Longrightarrow> n + pending s' \<le> pending s"
proof (induction n arbitrary: s')
  case (Suc n)
  then obtain s1 where "(task_turn w ^^ n) s s1" "task_turn w s1 s'" by auto
  then show ?case using Suc.IH [of s1] task_turn_pending [of w s1 s'] by simp
qed simp

text \<open>The resolver always comes to a result, if only to an error.\<close>

definition dns_answers :: "'net quic_world \<Rightarrow> bool" where
  "dns_answers w \<longleftrightarrow> (\<forall>t. \<exists>a. qw_dns w t a)"

text \<open>Only a relay that is not yet due waits for longer.\<close>

fun due :: "nat \<Rightarrow> quic_task \<Rightarrow> bool" where
  "due now (Relaying n peer dst since) \<longleftrightarrow> since + session_idle_timeout \<le> now"
| "due now t \<longleftrightarrow> True"

lemma task_turn_exists:
  assumes dns: "dns_answers w" and t: "t \<in> set (ls_tasks s)" "due (ls_clock s) t"
  shows "\<exists>s'. task_turn w s s'"
proof -
  obtain i where i: "i < length (ls_tasks s)" "ls_tasks s ! i = t" using t(1) by (meson in_set_conv_nth)
  show ?thesis
  proof (cases t)
    case (Resolving peer data b sni)
    obtain addrs where "qw_dns w (lookup_text sni 443) addrs" using dns by (auto simp: dns_answers_def)
    then show ?thesis using task_turn.resolved [OF i(1) i(2) [unfolded Resolving]] by (metis surj_pair)
  next
    case (Sending peer n src dst)
    then show ?thesis using task_turn.sent [OF i(1) i(2) [unfolded Sending]] by (metis surj_pair)
  next
    case (Relaying n peer dst since)
    then show ?thesis
      using task_turn.timed_out [OF i(1) i(2) [unfolded Relaying]] t(2) by (metis due.simps(1) surj_pair)
  qed
qed

section \<open>The clock\<close>

definition clock_ok :: "('net, 'a) listener_scheme \<Rightarrow> bool" where
  "clock_ok s \<longleftrightarrow> (\<forall>k v. ls_sessions s k = Some v \<longrightarrow> qs_last_active v \<le> ls_clock s)"

lemma clock_frames:
  "ls_clock (snd (peer_binding now ip s)) = ls_clock s"
  "ls_clock (snd (admit_host h s)) = ls_clock s"
  "ls_clock (snd (resolve_dst ops addrs h s)) = ls_clock s"
  "ls_clock (put_task t s) = ls_clock s" "ls_sessions (put_task t s) = ls_sessions s"
  "ls_clock (drop_task i s) = ls_clock s" "ls_sessions (drop_task i s) = ls_sessions s"
  "ls_clock (snd (create_v6_udp_socket io src s)) = ls_clock s"
  "ls_sessions (snd (create_v6_udp_socket io src s)) = ls_sessions s"
  "ls_clock (emit es s) = ls_clock s" "ls_sessions (emit es s) = ls_sessions s"
  for s :: "('net, 'a) listener_scheme"
  by (auto simp: peer_binding_def default_binding_def default_hash_policy_def default_binding_seed_def
      admit_host_def note_domain_blocked_def resolve_dst_def note_egress_blocked_def Let_def put_task_def
      drop_task_def create_v6_udp_socket_def emit_def split: option.splits)

lemma clock_ok_frame:
  "ls_clock s' = ls_clock s \<Longrightarrow> ls_sessions s' = ls_sessions s \<Longrightarrow> clock_ok s' = clock_ok s"
  by (simp add: clock_ok_def)

lemma quic_arrive_clock:
  assumes "quic_arrive c now send_ok peer data s = (r, s')"
  shows "ls_clock s' = ls_clock s \<and> (clock_ok s \<longrightarrow> clock_ok s')"
proof (cases "ls_sessions s (sa_ip peer, sa_port peer)")
  case (Some q)
  then show ?thesis using assms by (auto simp: quic_arrive_def Let_def clock_frames clock_ok_def split: if_splits)
next
  case None
  then have "ls_clock s' = ls_clock s \<and> ls_sessions s' = ls_sessions s"
    using assms by (auto simp: quic_arrive_def Let_def prod.case_eq_if clock_frames app_frames
        split: option.splits if_splits)
  then show ?thesis using clock_ok_frame by blast
qed

lemma quic_resolved_clock:
  assumes "quic_resolved ops sip pools addrs io peer data b sni s = (r, s')"
  shows "ls_clock s' = ls_clock s \<and> ls_sessions s' = ls_sessions s"
proof -
  obtain d s1 where d: "resolve_dst ops addrs sni s = (d, s1)" by fastforce
  have s1: "ls_clock s1 = ls_clock s" "ls_sessions s1 = ls_sessions s"
    using clock_frames(3) [of ops addrs sni s] app_frames(11) [of ops addrs sni s] d by simp_all
  have "ls_clock s2 = ls_clock s \<and> ls_sessions s2 = ls_sessions s"
    if "create_v6_udp_socket io src s1 = (x, s2)" for src x s2
    using clock_frames(8,9) [of io src s1] that s1 by simp
  then show ?thesis
    using assms s1
    by (auto simp: quic_resolved_def d clock_frames split: sum.splits option.splits prod.splits)
qed

lemma quic_step_clock: "quic_step w s s' \<Longrightarrow> clock_ok s \<Longrightarrow> clock_ok s'"
proof (induction rule: quic_step.induct)
  case (arrive now send_ok peer data s r s')
  then show ?case using quic_arrive_clock [OF arrive(1)] clock_ok_frame [OF clock_frames(4,5)] by blast
next
  case (resolved i s peer data b sni addrs io r s')
  then show ?case using quic_resolved_clock [OF resolved(4)] by (simp add: clock_ok_def clock_frames)
next
  case (sent i s peer n src dst send_ok r s')
  then show ?case by (auto simp: clock_ok_def clock_frames quic_sent_def split: if_splits)
next
  case (relay_timeout i s n peer dst since t s')
  then show ?case by (auto simp: clock_ok_def clock_frames relay_step_def split: if_splits)
next
  case (relay_recv i s n peer dst since outcome t s')
  then show ?case
    by (auto simp: clock_ok_def clock_frames relay_step_def split: if_splits relay_outcome.splits)
next
  case (cleanup s)
  then show ?case by (auto simp: clock_ok_def QuicRelay.cleanup_def split: option.splits if_splits)
next
  case (tick s now)
  then show ?case by (fastforce simp: clock_ok_def)
next
  case (admin s' s)
  then show ?case using more_frames(1,2) [OF admin(1)] by (simp add: clock_ok_def)
qed

lemma quic_steps_clock: "quic_steps w s0 s \<Longrightarrow> fresh_listener s0 \<Longrightarrow> clock_ok s"
proof (induction rule: rtranclp_induct)
  case base
  then show ?case by (simp add: clock_ok_def fresh_listener_def)
qed (use quic_step_clock in blast)

section \<open>Winding down\<close>

lemma drain:
  assumes "dns_answers w" "clock_ok s"
  shows "\<exists>s'. (idle_step w)\<^sup>*\<^sup>* s s' \<and> ls_tasks s' = [] \<and> clock_ok s'"
  using assms(2)
proof (induction "pending s" arbitrary: s rule: less_induct)
  case less
  show ?case
  proof (cases "ls_tasks s")
    case (Cons t ts)
    define now where "now = ls_clock s + (case t of Relaying n peer dst since \<Rightarrow> since + session_idle_timeout | _ \<Rightarrow> 0)"
    have tick: "idle_step w s (s\<lparr>ls_clock := now\<rparr>)" by (rule idle_step.tick) (simp add: now_def)
    have "due now t" by (cases t) (simp_all add: now_def)
    then obtain s1 where s1: "task_turn w (s\<lparr>ls_clock := now\<rparr>) s1"
      using task_turn_exists [OF assms(1), of t "s\<lparr>ls_clock := now\<rparr>"] Cons by auto
    have "pending (s\<lparr>ls_clock := now\<rparr>) = pending s" by (simp add: pending_def)
    then have "pending s1 < pending s" using task_turn_pending [OF s1] by simp
    moreover have "clock_ok s1"
      using quic_step_clock [OF task_turn_step [OF s1]] quic_step_clock [OF idle_step_step [OF tick] less.prems] by blast
    ultimately obtain s' where "(idle_step w)\<^sup>*\<^sup>* s1 s'" "ls_tasks s' = []" "clock_ok s'"
      using less.hyps by blast
    then show ?thesis
      using tick idle_step.turn [OF s1] by (meson converse_rtranclp_into_rtranclp)
  qed (use less.prems in blast)
qed

lemma cleanup_empty:
  assumes "clock_ok s"
  shows "ls_sessions (cleanup (s\<lparr>ls_clock := ls_clock s + session_idle_timeout\<rparr>)) = (\<lambda>k. None)"
  using assms
  by (fastforce simp: cleanup_def clock_ok_def intro!: ext split: option.split)

section \<open>Properties\<close>

text \<open>C15: the tasks of the listener come to an end, provided that the resolver eventually answers every
  question (with addresses or with an error): left to themselves they take at most three turns each,
  whatever their other calls return and whatever the resolver answers; and when no turn is left, all
  that waits are relays whose timer has not yet run for five minutes. The timer of a relay starts when
  the relay starts, and starts again with every datagram it receives, whatever the source.\<close>

theorem quic_tasks_terminate:
  assumes "(task_turn w ^^ n) s s'" "dns_answers w"
  shows "n \<le> 3 * length (ls_tasks s)
    \<and> ((\<forall>s''. \<not> task_turn w s' s'') \<longrightarrow>
        (\<forall>t \<in> set (ls_tasks s'). \<exists>m peer dst since.
            t = Relaying m peer dst since \<and> ls_clock s' < since + session_idle_timeout))"
proof (intro conjI impI ballI)
  show "n \<le> 3 * length (ls_tasks s)"
    using task_turns_pending [OF assms(1)] pending_bound [of s] by linarith
  fix t assume "\<forall>s''. \<not> task_turn w s' s''" "t \<in> set (ls_tasks s')"
  then have "\<not> due (ls_clock s') t" using task_turn_exists [OF assms(2)] by blast
  then show "\<exists>m peer dst since. t = Relaying m peer dst since \<and> ls_clock s' < since + session_idle_timeout"
    by (cases t) simp_all
qed

definition answering_world :: "(ip_addr \<times> u8) quic_world" where
  "answering_world = example_world\<lparr>qw_dns := (\<lambda>t a. a = None)\<rparr>"

lemma answering: "dns_answers answering_world"
  by (simp add: dns_answers_def answering_world_def)

theorem quic_tasks_terminate_witness:
  "\<exists>s'. (task_turn answering_world ^^ 1) (listener_at 0 (\<lambda>k. None) [] [Sending quic_peer 0 quic_src quic_dst] []) s'
     \<and> (\<forall>n s''. (task_turn answering_world ^^ n)
            (listener_at 0 (\<lambda>k. None) [] [Sending quic_peer 0 quic_src quic_dst] []) s'' \<longrightarrow> n \<le> 3)"
proof -
  let ?s = "listener_at 0 (\<lambda>k. None) [] [Sending quic_peer 0 quic_src quic_dst] []"
  have "\<exists>s'. task_turn answering_world ?s s'"
    by (rule task_turn_exists [OF answering, of "Sending quic_peer 0 quic_src quic_dst"]) simp_all
  then have "\<exists>s'. (task_turn answering_world ^^ 1) ?s s'" by auto
  moreover have "n \<le> 3" if "(task_turn answering_world ^^ n) ?s s''" for n s''
    using quic_tasks_terminate [OF that answering] by simp
  ultimately show ?thesis by blast
qed

text \<open>C16: from every state that the listener can reach it can wind down without another datagram: when
  the clients and servers fall silent, a run of the tasks' own turns, the clock and the cleanup leads to
  a state with no task and no session; nothing of a connection stays behind for ever.\<close>

theorem quic_winds_down:
  assumes "quic_steps w s0 s" "fresh_listener s0" "dns_answers w"
  shows "\<exists>s'. (idle_step w)\<^sup>*\<^sup>* s s' \<and> quic_steps w s s' \<and> ls_tasks s' = [] \<and> ls_sessions s' = (\<lambda>k. None)"
proof -
  obtain s1 where s1: "(idle_step w)\<^sup>*\<^sup>* s s1" "ls_tasks s1 = []" "clock_ok s1"
    using drain [OF assms(3) quic_steps_clock [OF assms(1,2)]] by blast
  let ?s2 = "s1\<lparr>ls_clock := ls_clock s1 + session_idle_timeout\<rparr>"
  have "idle_step w s1 ?s2" "idle_step w ?s2 (cleanup ?s2)"
    by (auto intro: idle_step.tick idle_step.cleanup)
  then have run: "(idle_step w)\<^sup>*\<^sup>* s (cleanup ?s2)"
    using s1(1) by (meson rtranclp.rtrancl_into_rtrancl)
  then have "quic_steps w s (cleanup ?s2)"
    by (induction rule: rtranclp_induct) (auto intro: rtranclp.rtrancl_into_rtrancl idle_step_step)
  moreover have "ls_tasks (cleanup ?s2) = []" using s1(2) by (simp add: cleanup_def)
  ultimately show ?thesis using run cleanup_empty [OF s1(3)] by blast
qed

theorem quic_winds_down_witness:
  "\<exists>s s'. quic_steps answering_world (listener_at 0 (\<lambda>k. None) [] [] []) s \<and> ls_tasks s \<noteq> []
     \<and> (idle_step answering_world)\<^sup>*\<^sup>* s s' \<and> ls_tasks s' = [] \<and> ls_sessions s' = (\<lambda>k. None)"
proof -
  let ?s = "listener_at 0 (\<lambda>k. None) [] [Resolving quic_peer example_datagram quic_binding ''a.b'']
      [QuicLookup (lookup_text ''a.b'' 443)]"
  have "quic_arrive (qw_crypto answering_world) 0 True quic_peer example_datagram (listener_at 0 (\<lambda>k. None) [] [] [])
      = (Some (Inr (Some (Resolving quic_peer example_datagram quic_binding ''a.b''))),
         listener_at 0 (\<lambda>k. None) [] [] [QuicLookup (lookup_text ''a.b'' 443)])"
    by (simp add: quic_arrive_def listener_at_app answering_world_def example_world_def example_datagram_sni
        admit_host_def quic_binding_def)
  from quic_step.arrive [OF this] have run: "quic_steps answering_world (listener_at 0 (\<lambda>k. None) [] [] []) ?s"
    by (simp add: task_of_def put_task_def r_into_rtranclp)
  obtain s' where "(idle_step answering_world)\<^sup>*\<^sup>* ?s s'" "ls_tasks s' = []" "ls_sessions s' = (\<lambda>k. None)"
    using quic_winds_down [OF run example_fresh answering] by blast
  moreover have "ls_tasks ?s \<noteq> []" by simp
  ultimately show ?thesis using run by blast
qed

end
