(* ===== verification/ConfigFile.thy ===== *)
theory ConfigFile
  imports StateStore
begin

text \<open>
  The configuration of \<open>src/config.rs\<close> and its decoding as the \<open>serde\<close> attributes prescribe:
  required tables and fields, defaulted ones, the seed as an integer or a text. The TOML text is read
  by the crate \<open>toml\<close>, a parameter; an enum is decoded from the name of its variant, a struct from a
  table.
\<close>

section \<open>The data\<close>

datatype log_format = LogText | LogJson

record log_config =
  lc_level :: string
  lc_format :: log_format

record egress_config =
  ec_allow :: "string list"
  ec_deny :: "string list"

record domain_config =
  dc_allow :: "string list"
  dc_deny :: "string list"

record machine_config =
  ma_v6_pools :: "string list"

record admin_config =
  ad_bind :: string
  ad_token_hash :: string
  ad_allowlist :: "string list"

record data_config =
  da_tcp_binds :: "string list"
  da_udp_binds :: "string list"

record paths_config =
  pa_state :: string

record policy_config =
  pc_default :: hash_policy
  pc_default_seed :: u64

record config =
  cf_admin :: admin_config
  cf_data :: data_config
  cf_paths :: paths_config
  cf_machine :: machine_config
  cf_policy :: policy_config
  cf_egress :: egress_config
  cf_domain :: domain_config
  cf_log :: log_config

definition default_log_level :: string where
  "default_log_level = ''info''"

definition log_config_default :: log_config where
  "log_config_default = \<lparr>lc_level = default_log_level, lc_format = LogText\<rparr>"

definition default_hash_policy_config :: hash_policy where
  "default_hash_policy_config = SrcIp"

definition policy_config_default :: policy_config where
  "policy_config_default = \<lparr>pc_default = default_hash_policy_config, pc_default_seed = 0\<rparr>"

definition egress_config_default :: egress_config where
  "egress_config_default = \<lparr>ec_allow = [], ec_deny = []\<rparr>"

definition domain_config_default :: domain_config where
  "domain_config_default = \<lparr>dc_allow = [], dc_deny = []\<rparr>"

section \<open>Decoding\<close>

text \<open>A TOML document; integers are signed and of 64 bits.\<close>

datatype toml =
  TStr string | TInt "64 word" | TBool bool | TArr "toml list" | TTable "(string \<times> toml) list" | TOther

fun toml_string :: "toml \<Rightarrow> string option" where
  "toml_string (TStr s) = Some s"
| "toml_string _ = None"

fun toml_strings :: "toml \<Rightarrow> string list option" where
  "toml_strings (TArr xs) = map_all toml_string xs"
| "toml_strings _ = None"

fun toml_seed :: "toml \<Rightarrow> u64 option" where
  "toml_seed (TInt value) = (if value <s 0 then None else Some value)"
| "toml_seed (TStr value) = parse_seed value"
| "toml_seed _ = None"

fun toml_hash_policy :: "toml \<Rightarrow> hash_policy option" where
  "toml_hash_policy (TStr s) = res_ok (hash_policy_from_str s)"
| "toml_hash_policy _ = None"

fun toml_log_format :: "toml \<Rightarrow> log_format option" where
  "toml_log_format (TStr s) =
     (if s = ''text'' then Some LogText else if s = ''json'' then Some LogJson else None)"
| "toml_log_format _ = None"

definition log_of_toml :: "(string \<times> toml) list \<Rightarrow> log_config option" where
  "log_of_toml fs = do {
     level \<leftarrow> json_defaulted ''level'' default_log_level toml_string fs;
     fmt \<leftarrow> json_defaulted ''format'' LogText toml_log_format fs;
     Some \<lparr>lc_level = level, lc_format = fmt\<rparr>
   }"

definition egress_of_toml :: "(string \<times> toml) list \<Rightarrow> egress_config option" where
  "egress_of_toml fs = do {
     allow \<leftarrow> json_defaulted ''allow'' [] toml_strings fs;
     deny \<leftarrow> json_defaulted ''deny'' [] toml_strings fs;
     Some \<lparr>ec_allow = allow, ec_deny = deny\<rparr>
   }"

definition domain_of_toml :: "(string \<times> toml) list \<Rightarrow> domain_config option" where
  "domain_of_toml fs = do {
     allow \<leftarrow> json_defaulted ''allow'' [] toml_strings fs;
     deny \<leftarrow> json_defaulted ''deny'' [] toml_strings fs;
     Some \<lparr>dc_allow = allow, dc_deny = deny\<rparr>
   }"

definition machine_of_toml :: "(string \<times> toml) list \<Rightarrow> machine_config option" where
  "machine_of_toml fs = do {
     pools \<leftarrow> json_required ''v6_pools'' toml_strings fs;
     Some \<lparr>ma_v6_pools = pools\<rparr>
   }"

definition admin_of_toml :: "(string \<times> toml) list \<Rightarrow> admin_config option" where
  "admin_of_toml fs = do {
     b \<leftarrow> json_required ''bind'' toml_string fs;
     token_hash \<leftarrow> json_required ''token_hash'' toml_string fs;
     allowlist \<leftarrow> json_required ''allowlist'' toml_strings fs;
     Some \<lparr>ad_bind = b, ad_token_hash = token_hash, ad_allowlist = allowlist\<rparr>
   }"

definition data_of_toml :: "(string \<times> toml) list \<Rightarrow> data_config option" where
  "data_of_toml fs = do {
     tcp_binds \<leftarrow> json_required ''tcp_binds'' toml_strings fs;
     udp_binds \<leftarrow> json_required ''udp_binds'' toml_strings fs;
     Some \<lparr>da_tcp_binds = tcp_binds, da_udp_binds = udp_binds\<rparr>
   }"

definition paths_of_toml :: "(string \<times> toml) list \<Rightarrow> paths_config option" where
  "paths_of_toml fs = do {
     state \<leftarrow> json_required ''state'' toml_string fs;
     Some \<lparr>pa_state = state\<rparr>
   }"

definition policy_of_toml :: "(string \<times> toml) list \<Rightarrow> policy_config option" where
  "policy_of_toml fs = do {
     policy \<leftarrow> json_defaulted ''default'' default_hash_policy_config toml_hash_policy fs;
     seed \<leftarrow> json_defaulted ''default_seed'' 0 toml_seed fs;
     Some \<lparr>pc_default = policy, pc_default_seed = seed\<rparr>
   }"

fun toml_table :: "((string \<times> toml) list \<Rightarrow> 'a option) \<Rightarrow> toml \<Rightarrow> 'a option" where
  "toml_table dec (TTable fs) = dec fs"
| "toml_table dec _ = None"

definition config_of_toml :: "(string \<times> toml) list \<Rightarrow> config option" where
  "config_of_toml fs = do {
     admin \<leftarrow> json_required ''admin'' (toml_table admin_of_toml) fs;
     data \<leftarrow> json_required ''data'' (toml_table data_of_toml) fs;
     paths \<leftarrow> json_required ''paths'' (toml_table paths_of_toml) fs;
     machine \<leftarrow> json_required ''machine'' (toml_table machine_of_toml) fs;
     policy \<leftarrow> json_defaulted ''policy'' policy_config_default (toml_table policy_of_toml) fs;
     egress \<leftarrow> json_defaulted ''egress'' egress_config_default (toml_table egress_of_toml) fs;
     domain \<leftarrow> json_defaulted ''domain'' domain_config_default (toml_table domain_of_toml) fs;
     log \<leftarrow> json_defaulted ''log'' log_config_default (toml_table log_of_toml) fs;
     Some \<lparr>cf_admin = admin, cf_data = data, cf_paths = paths, cf_machine = machine,
       cf_policy = policy, cf_egress = egress, cf_domain = domain, cf_log = log\<rparr>
   }"

datatype config_error = ConfigUnreadable file_path | ConfigUnparsable file_path

definition config_load ::
  "(string \<Rightarrow> (string \<times> toml) list option) \<Rightarrow> bool \<Rightarrow> file_path \<Rightarrow> fs \<Rightarrow> config_error + config" where
  "config_load parse read_ok path fs =
     (case (if read_ok then fs_read fs path else None) of
        None \<Rightarrow> Inl (ConfigUnreadable path)
      | Some content \<Rightarrow>
          (case parse content of
             None \<Rightarrow> Inl (ConfigUnparsable path)
           | Some doc \<Rightarrow>
               (case config_of_toml doc of
                  None \<Rightarrow> Inl (ConfigUnparsable path)
                | Some cfg \<Rightarrow> Inr cfg)))"

section \<open>The starter configuration\<close>

datatype init_error = ConfigExists file_path | ConfigDirFailed string | ConfigWriteFailed file_path

text \<open>\<open>init_config\<close>: refuse to overwrite without \<open>force\<close>, create the directory, write. A write that fails
  leaves a part of the text, or the file as it was when the file could not be opened.\<close>

definition init_config ::
  "string \<Rightarrow> (string \<Rightarrow> bool) \<Rightarrow> bool \<Rightarrow> string option \<Rightarrow> file_path \<Rightarrow> bool \<Rightarrow> fs
     \<Rightarrow> (init_error + unit) \<times> fs" where
  "init_config default_config mkdir_ok write_ok part config_path force fs =
     (if fs_read fs config_path \<noteq> None \<and> \<not> force then (Inl (ConfigExists config_path), fs)
      else
        (let (made, fs1) = create_dir_all mkdir_ok (fp_dir config_path) fs in
         if \<not> made then (Inl (ConfigDirFailed (fp_dir config_path)), fs1)
         else if \<not> write_ok
           then (Inl (ConfigWriteFailed config_path),
             case part of None \<Rightarrow> fs1 | Some text \<Rightarrow> fs_write config_path text fs1)
         else (Inr (), fs_write config_path default_config fs1)))"

section \<open>A configuration as a document\<close>

text \<open>How a configuration is written down, the optional tables in full.\<close>

definition toml_of_strings :: "string list \<Rightarrow> toml" where
  "toml_of_strings ss = TArr (map TStr ss)"

definition required_tables :: "config \<Rightarrow> (string \<times> toml) list" where
  "required_tables cfg =
     [(''admin'', TTable [(''bind'', TStr (ad_bind (cf_admin cfg))),
         (''token_hash'', TStr (ad_token_hash (cf_admin cfg))),
         (''allowlist'', toml_of_strings (ad_allowlist (cf_admin cfg)))]),
      (''data'', TTable [(''tcp_binds'', toml_of_strings (da_tcp_binds (cf_data cfg))),
         (''udp_binds'', toml_of_strings (da_udp_binds (cf_data cfg)))]),
      (''paths'', TTable [(''state'', TStr (pa_state (cf_paths cfg)))]),
      (''machine'', TTable [(''v6_pools'', toml_of_strings (ma_v6_pools (cf_machine cfg)))])]"

definition optional_tables :: "config \<Rightarrow> (string \<times> toml) list" where
  "optional_tables cfg =
     [(''policy'', TTable [(''default'', TStr (hash_policy_display (pc_default (cf_policy cfg)))),
         (''default_seed'', TStr (format_0x016 (pc_default_seed (cf_policy cfg))))]),
      (''egress'', TTable [(''allow'', toml_of_strings (ec_allow (cf_egress cfg))),
         (''deny'', toml_of_strings (ec_deny (cf_egress cfg)))]),
      (''domain'', TTable [(''allow'', toml_of_strings (dc_allow (cf_domain cfg))),
         (''deny'', toml_of_strings (dc_deny (cf_domain cfg)))]),
      (''log'', TTable [(''level'', TStr (lc_level (cf_log cfg))),
         (''format'', TStr (case lc_format (cf_log cfg) of LogText \<Rightarrow> ''text'' | LogJson \<Rightarrow> ''json''))])]"

lemma map_all_strings: "map_all toml_string (map TStr ss) = Some ss"
  by (induction ss) simp_all

lemma toml_strings_of [simp]: "toml_strings (toml_of_strings ss) = Some ss"
  by (simp add: toml_of_strings_def map_all_strings)

section \<open>Properties\<close>

text \<open>C32: a configuration reads back from its document, and the optional tables that are left out have
  the documented defaults: policy \<open>src_ip\<close>, seed 0, empty filter lists, log level \<open>info\<close>, format
  \<open>text\<close>.\<close>

theorem config_roundtrip:
  "config_of_toml (required_tables cfg @ optional_tables cfg) = Some cfg
   \<and> config_of_toml (required_tables cfg) = Some (cfg\<lparr>
       cf_policy := \<lparr>pc_default = SrcIp, pc_default_seed = 0\<rparr>,
       cf_egress := \<lparr>ec_allow = [], ec_deny = []\<rparr>, cf_domain := \<lparr>dc_allow = [], dc_deny = []\<rparr>,
       cf_log := \<lparr>lc_level = ''info'', lc_format = LogText\<rparr>\<rparr>)"
  by (simp add: config_of_toml_def required_tables_def optional_tables_def json_required_def json_defaulted_def
      admin_of_toml_def data_of_toml_def paths_of_toml_def machine_of_toml_def policy_of_toml_def
      egress_of_toml_def domain_of_toml_def log_of_toml_def parse_seed_format hash_policy_roundtrip
      policy_config_default_def egress_config_default_def domain_config_default_def log_config_default_def
      default_hash_policy_config_def default_log_level_def split: log_format.splits)

end
