(* ===== verification/Startup.thy ===== *)
theory Startup
  imports ApiServer PoolHash ConfigFile
begin

text \<open>
  The startup of the program (\<open>src/main.rs\<close>): the validation of the configuration, the order in which
  the process state is initialised, and the listeners, all of which are bound before any of them is
  served. Command line, logging and the wait for the end of the process are left out.
\<close>

section \<open>Validation\<close>

datatype startup_error =
  PoolsFailed pool_error
| NoPools
| EgressFailed egress_error
| DomainFailed string rule_error
| AllowlistFailed net_error
| InvalidAdminBind
| InvalidTcpBind string
| InvalidUdpBind string
| StateDirFailed string
| PoliciesFailed load_error
| AdminBindFailed socket_addr
| TcpBindFailed string
| UdpBindFailed string

text \<open>\<open>DomainConfig::validate\<close>: the first rule that does not parse, allow rules first.\<close>

fun first_bad_rule :: "string list \<Rightarrow> (string \<times> rule_error) option" where
  "first_bad_rule [] = None"
| "first_bad_rule (r # rs) =
     (case parse_rule r of Inl e \<Rightarrow> Some (r, e) | Inr x \<Rightarrow> first_bad_rule rs)"

definition domain_validate :: "domain_config \<Rightarrow> (string \<times> rule_error) + unit" where
  "domain_validate d =
     (case first_bad_rule (dc_allow d @ dc_deny d) of None \<Rightarrow> Inr () | Some e \<Rightarrow> Inl e)"

fun first_bad_bind :: "string list \<Rightarrow> string option" where
  "first_bad_bind [] = None"
| "first_bad_bind (b # bs) =
     (case parse_socket_addr b of None \<Rightarrow> Some b | Some a \<Rightarrow> first_bad_bind bs)"

record 'net loaded_config =
  lo_config :: config
  lo_pools :: "v6_pool list"
  lo_tokens :: "'net tokens"
  lo_admin_bind :: socket_addr

definition validate_config ::
  "'net ipnet_ops \<Rightarrow> config \<Rightarrow> (startup_error + 'net loaded_config) run" where
  "validate_config ops cfg =
     (case parse_pools (ma_v6_pools (cf_machine cfg)) of
        Inl e \<Rightarrow> ret (Inl (PoolsFailed e))
      | Inr pools \<Rightarrow>
          if pools = [] then ret (Inl NoPools)
          else do {
            egress \<leftarrow> egress_build ops (ec_allow (cf_egress cfg)) (ec_deny (cf_egress cfg));
            case egress of
              Inl e \<Rightarrow> ret (Inl (EgressFailed e))
            | Inr f \<Rightarrow>
                (case domain_validate (cf_domain cfg) of
                   Inl (r, e) \<Rightarrow> ret (Inl (DomainFailed r e))
                 | Inr u \<Rightarrow>
                     (case parse_allowlist ops (ad_token_hash (cf_admin cfg)) (ad_allowlist (cf_admin cfg)) of
                        Inl e \<Rightarrow> ret (Inl (AllowlistFailed e))
                      | Inr tokens \<Rightarrow>
                          (case parse_socket_addr (ad_bind (cf_admin cfg)) of
                             None \<Rightarrow> ret (Inl InvalidAdminBind)
                           | Some admin_bind \<Rightarrow>
                               (case first_bad_bind (da_tcp_binds (cf_data cfg)) of
                                  Some b \<Rightarrow> ret (Inl (InvalidTcpBind b))
                                | None \<Rightarrow>
                                    (case first_bad_bind (da_udp_binds (cf_data cfg)) of
                                       Some b \<Rightarrow> ret (Inl (InvalidUdpBind b))
                                     | None \<Rightarrow>
                                         ret (Inr \<lparr>lo_config = cfg, lo_pools = pools, lo_tokens = tokens,
                                           lo_admin_bind = admin_bind\<rparr>))))))
          })"

section \<open>Initialisation\<close>

text \<open>The statics of a process that has just been started, over the file system it finds.\<close>

definition boot :: "timestamp \<Rightarrow> fs \<Rightarrow> 'net app" where
  "boot now fs = proc.extend
     \<lparr>pr_policies = policies_default now, pr_state_path = None, pr_default_policy = None,
      pr_default_seed = None, pr_fs = fs\<rparr>
     \<lparr>ap_domain_base = None, ap_egress_base = None, ap_domain_filter = domain_filter_default,
      ap_egress_filter = egress_filter_default, ap_domain_blocked = 0, ap_egress_blocked = 0\<rparr>"

text \<open>The path of a file: what stands before and after the last slash.\<close>

definition path_of :: "string \<Rightarrow> file_path" where
  "path_of s =
     (case rfind_char (CHR ''/'') s of
        None \<Rightarrow> \<lparr>fp_dir = [], fp_name = s\<rparr>
      | Some i \<Rightarrow> \<lparr>fp_dir = (if i = 0 then ''/'' else take i s), fp_name = drop (Suc i) s\<rparr>)"

text \<open>What the system calls of the startup return.\<close>

record startup_io =
  su_now :: timestamp
  su_mkdir :: "string \<Rightarrow> bool"
  su_read :: bool
  su_bind_admin :: bool
  su_bind_tcp :: "string \<Rightarrow> bool"
  su_bind_udp :: "string \<Rightarrow> bool"

text \<open>The directory of the state file is created, with those above it.\<close>

definition state_dirs :: "startup_io \<Rightarrow> config \<Rightarrow> fs \<Rightarrow> bool \<times> fs" where
  "state_dirs io cfg fs = create_dir_all (su_mkdir io) (fp_dir (path_of (pa_state (cf_paths cfg)))) fs"

definition init_state ::
  "'net ipnet_ops \<Rightarrow> codec \<Rightarrow> startup_io \<Rightarrow> config \<Rightarrow> ('net, 'a) app_scheme
     \<Rightarrow> (startup_error + ('net, 'a) app_scheme) run" where
  "init_state ops c io cfg s =
     (case init_default_binding (pc_default (cf_policy cfg)) (pc_default_seed (cf_policy cfg)) s of
        None \<Rightarrow> panic
      | Some s1 \<Rightarrow>
          (let path = path_of (pa_state (cf_paths cfg));
               (made, fs1) = state_dirs io cfg (pr_fs s1) in
           if \<not> made then ret (Inl (StateDirFailed (fp_dir path)))
           else
             (case load_policies c (su_now io) (su_read io) path fs1 of
                Inl e \<Rightarrow> ret (Inl (PoliciesFailed e))
              | Inr policies \<Rightarrow>
                  (case init_state_path path (s1\<lparr>pr_fs := fs1\<rparr>) of
                     None \<Rightarrow> panic
                   | Some s2 \<Rightarrow>
                       (let s3 = s2\<lparr>pr_policies := policies\<rparr> in
                        case init_domain_filter (dc_allow (cf_domain cfg)) (dc_deny (cf_domain cfg)) s3 of
                          None \<Rightarrow> panic
                        | Some s4 \<Rightarrow>
                            (case init_egress_filter ops (ec_allow (cf_egress cfg)) (ec_deny (cf_egress cfg)) s4 of
                               None \<Rightarrow> panic
                             | Some s5 \<Rightarrow> ret (Inr s5)))))))"

section \<open>Listeners\<close>

datatype startup_event =
  BoundAdmin socket_addr | BoundTcp string | BoundUdp string
| ServeAdmin socket_addr | ServeTcp string | ServeUdp string

text \<open>The binding loops: up to the first address that cannot be bound.\<close>

fun bind_all :: "(string \<Rightarrow> bool) \<Rightarrow> (string \<Rightarrow> startup_event) \<Rightarrow> string list
    \<Rightarrow> string option \<times> startup_event list" where
  "bind_all ok ev [] = (None, [])"
| "bind_all ok ev (b # bs) =
     (if \<not> ok b then (Some b, [])
      else let (failed, es) = bind_all ok ev bs in (failed, ev b # es))"

definition start_listeners ::
  "startup_io \<Rightarrow> 'net loaded_config \<Rightarrow> (startup_error + unit) \<times> startup_event list" where
  "start_listeners io loaded =
     (let admin_bind = lo_admin_bind loaded; data = cf_data (lo_config loaded) in
      if \<not> su_bind_admin io then (Inl (AdminBindFailed admin_bind), [])
      else case bind_all (su_bind_tcp io) BoundTcp (da_tcp_binds data) of
        (Some b, tcp) \<Rightarrow> (Inl (TcpBindFailed b), BoundAdmin admin_bind # tcp)
      | (None, tcp) \<Rightarrow>
          (case bind_all (su_bind_udp io) BoundUdp (da_udp_binds data) of
             (Some b, udp) \<Rightarrow> (Inl (UdpBindFailed b), BoundAdmin admin_bind # tcp @ udp)
           | (None, udp) \<Rightarrow>
               (Inr (), BoundAdmin admin_bind # tcp @ udp
                  @ ServeAdmin admin_bind # map ServeTcp (da_tcp_binds data) @ map ServeUdp (da_udp_binds data))))"

text \<open>From the loaded configuration to the running listeners, and the mode that only checks it.\<close>

definition startup ::
  "'net ipnet_ops \<Rightarrow> codec \<Rightarrow> startup_io \<Rightarrow> config \<Rightarrow> ('net, 'a) app_scheme
     \<Rightarrow> (startup_error + 'net loaded_config \<times> ('net, 'a) app_scheme) run \<times> startup_event list" where
  "startup ops c io cfg s =
     (case validate_config ops cfg of
        None \<Rightarrow> (panic, [])
      | Some (Inl e) \<Rightarrow> (ret (Inl e), [])
      | Some (Inr loaded) \<Rightarrow>
          (case init_state ops c io (lo_config loaded) s of
             None \<Rightarrow> (panic, [])
           | Some (Inl e) \<Rightarrow> (ret (Inl e), [])
           | Some (Inr s') \<Rightarrow>
               (case start_listeners io loaded of
                  (Inl e, es) \<Rightarrow> (ret (Inl e), es)
                | (Inr u, es) \<Rightarrow> (ret (Inr (loaded, s')), es))))"

text \<open>The file system that a startup leaves, whatever it ends with: only directories are made, and only
  after the validation.\<close>

definition startup_fs :: "'net ipnet_ops \<Rightarrow> startup_io \<Rightarrow> config \<Rightarrow> fs \<Rightarrow> fs" where
  "startup_fs ops io cfg fs =
     (case validate_config ops cfg of
        Some (Inr loaded) \<Rightarrow> snd (state_dirs io (lo_config loaded) fs)
      | _ \<Rightarrow> fs)"

definition check_config :: "'net ipnet_ops \<Rightarrow> config \<Rightarrow> (startup_error + unit) run" where
  "check_config ops cfg =
     (case validate_config ops cfg of
        None \<Rightarrow> panic | Some (Inl e) \<Rightarrow> ret (Inl e) | Some (Inr loaded) \<Rightarrow> ret (Inr ()))"

section \<open>Facts\<close>

lemma first_bad_rule_None: "first_bad_rule rs = None \<longleftrightarrow> (\<forall>r \<in> set rs. \<exists>x. parse_rule r = Inr x)"
  by (induction rs) (auto split: sum.splits)

lemma first_bad_bind_None: "first_bad_bind bs = None \<longleftrightarrow> (\<forall>b \<in> set bs. parse_socket_addr b \<noteq> None)"
  by (induction bs) (auto split: option.splits)

lemma domain_validate_Inr:
  "(\<exists>u. domain_validate d = Inr u) \<longleftrightarrow> (\<forall>r \<in> set (dc_allow d @ dc_deny d). \<exists>x. parse_rule r = Inr x)"
  unfolding domain_validate_def first_bad_rule_None [symmetric] by (simp split: option.split)

lemma parse_pools_Inr:
  "(\<exists>ps. parse_pools ss = Inr ps) \<longleftrightarrow> (\<forall>s \<in> set ss. \<exists>p. v6_pool_parse s = Inr p)"
proof -
  have "(\<exists>e. parse_pools ss = Inl e) \<longleftrightarrow> (\<exists>s \<in> set ss. \<exists>e. v6_pool_parse s = Inl e)"
    by (simp add: parse_pools_def collect_results_error)
  then show ?thesis by (metis Inl_Inr_False old.sum.exhaust)
qed

lemma parse_allowlist_Inr:
  "(\<exists>t. parse_allowlist ops h ss = Inr t) \<longleftrightarrow> (\<forall>s \<in> set ss. \<exists>n. parse_net ops s = Inr n)"
proof -
  have "(\<exists>t. parse_allowlist ops h ss = Inr t) \<longleftrightarrow> (\<exists>ns. parse_net_list ops ss = Inr ns)"
    by (auto simp: parse_allowlist_def res_try_eq_Inr)
  then show ?thesis using parse_net_list_error [of ops ss] by (metis Inl_Inr_False old.sum.exhaust)
qed

text \<open>A configuration is valid when every entry of it parses and there is a pool.\<close>

definition config_valid :: "'net ipnet_ops \<Rightarrow> config \<Rightarrow> bool" where
  "config_valid ops cfg \<longleftrightarrow>
     ma_v6_pools (cf_machine cfg) \<noteq> []
     \<and> (\<forall>s \<in> set (ma_v6_pools (cf_machine cfg)). \<exists>p. v6_pool_parse s = Inr p)
     \<and> (\<forall>s \<in> set (ec_allow (cf_egress cfg) @ ec_deny (cf_egress cfg)). \<exists>n. parse_net ops s = Inr n)
     \<and> (\<forall>r \<in> set (dc_allow (cf_domain cfg) @ dc_deny (cf_domain cfg)). \<exists>x. parse_rule r = Inr x)
     \<and> (\<forall>s \<in> set (ad_allowlist (cf_admin cfg)). \<exists>n. parse_net ops s = Inr n)
     \<and> parse_socket_addr (ad_bind (cf_admin cfg)) \<noteq> None
     \<and> (\<forall>b \<in> set (da_tcp_binds (cf_data cfg) @ da_udp_binds (cf_data cfg)). parse_socket_addr b \<noteq> None)"

lemma parse_pools_empty: "parse_pools ss = Inr [] \<longleftrightarrow> ss = []"
  using parse_pools_wf [of ss "[]"] by (auto simp: parse_pools_def)

lemma validate_config_total:
  assumes "ipnet_laws ops"
  shows "\<exists>r. validate_config ops cfg = Some r \<and> ((\<exists>l. r = Inr l) \<longleftrightarrow> config_valid ops cfg)"
proof -
  obtain e where e: "egress_build ops (ec_allow (cf_egress cfg)) (ec_deny (cf_egress cfg)) = Some e"
    "(\<exists>f. e = Inr f) \<longleftrightarrow> (\<forall>s \<in> set (ec_allow (cf_egress cfg) @ ec_deny (cf_egress cfg)). \<exists>n. parse_net ops s = Inr n)"
    using egress_build_succeeds [OF assms] by blast
  define p where "p = parse_pools (ma_v6_pools (cf_machine cfg))"
  define d where "d = domain_validate (cf_domain cfg)"
  define t where "t = parse_allowlist ops (ad_token_hash (cf_admin cfg)) (ad_allowlist (cf_admin cfg))"
  define a where "a = parse_socket_addr (ad_bind (cf_admin cfg))"
  define tb where "tb = first_bad_bind (da_tcp_binds (cf_data cfg))"
  define ub where "ub = first_bad_bind (da_udp_binds (cf_data cfg))"
  have valid: "config_valid ops cfg \<longleftrightarrow> (\<exists>ps. p = Inr ps \<and> ps \<noteq> []) \<and> (\<exists>f. e = Inr f) \<and> (\<exists>u. d = Inr u)
      \<and> (\<exists>x. t = Inr x) \<and> a \<noteq> None \<and> tb = None \<and> ub = None"
  proof -
    have "ma_v6_pools (cf_machine cfg) \<noteq> [] \<and> (\<exists>ps. p = Inr ps) \<longleftrightarrow> (\<exists>ps. p = Inr ps \<and> ps \<noteq> [])"
      unfolding p_def using parse_pools_empty [of "ma_v6_pools (cf_machine cfg)"] by (metis Inr_inject)
    then have P: "(\<exists>ps. p = Inr ps \<and> ps \<noteq> []) \<longleftrightarrow> ma_v6_pools (cf_machine cfg) \<noteq> []
        \<and> (\<forall>s \<in> set (ma_v6_pools (cf_machine cfg)). \<exists>p. v6_pool_parse s = Inr p)"
      unfolding p_def parse_pools_Inr by blast
    have B: "tb = None \<and> ub = None
        \<longleftrightarrow> (\<forall>b \<in> set (da_tcp_binds (cf_data cfg) @ da_udp_binds (cf_data cfg)). parse_socket_addr b \<noteq> None)"
      unfolding tb_def ub_def first_bad_bind_None by auto
    show ?thesis
      unfolding config_valid_def P B e(2) d_def domain_validate_Inr t_def parse_allowlist_Inr a_def by blast
  qed
  show ?thesis
    unfolding valid validate_config_def e(1) p_def [symmetric] d_def [symmetric] t_def [symmetric]
      a_def [symmetric] tb_def [symmetric] ub_def [symmetric]
    by (cases p, simp, cases e, simp, cases d, force, cases t, simp, cases a, simp, cases tb, cases ub) simp_all
qed

text \<open>What a valid configuration loads to.\<close>

lemma validate_config_Inr:
  "validate_config ops cfg = Some (Inr l) \<Longrightarrow>
     lo_config l = cfg \<and> parse_pools (ma_v6_pools (cf_machine cfg)) = Inr (lo_pools l) \<and> lo_pools l \<noteq> []
     \<and> parse_allowlist ops (ad_token_hash (cf_admin cfg)) (ad_allowlist (cf_admin cfg)) = Inr (lo_tokens l)
     \<and> parse_socket_addr (ad_bind (cf_admin cfg)) = Some (lo_admin_bind l)"
  by (auto simp: validate_config_def split: sum.splits option.splits if_splits bind_splits prod.splits)

text \<open>The initialisation from the statics of a fresh process.\<close>

lemma boot_simps [simp]:
  "pr_policies (boot now fs) = policies_default now" "pr_state_path (boot now fs) = None"
  "pr_default_policy (boot now fs) = None" "pr_default_seed (boot now fs) = None" "pr_fs (boot now fs) = fs"
  "ap_domain_base (boot now fs) = None" "ap_egress_base (boot now fs) = None"
  by (simp_all add: boot_def proc.defs)

text \<open>The canonical forms of the entries that parse: the base of a filter.\<close>

abbreviation (input) canonical_rules :: "string list \<Rightarrow> string list" where
  "canonical_rules \<equiv> List.map_filter (\<lambda>r. res_ok (canonicalize_rule r))"

abbreviation (input) canonical_nets :: "'net ipnet_ops \<Rightarrow> string list \<Rightarrow> string list" where
  "canonical_nets ops \<equiv> List.map_filter (\<lambda>e. res_ok (canonicalize_net ops e))"

lemma init_domain_ok:
  assumes "ap_domain_base s = None"
  obtains s' where "init_domain_filter ba bd s = Some s'" "live_domain s'"
    "domain_base s' = (canonical_rules ba, canonical_rules bd)"
    "pr_policies s' = pr_policies s" "pr_state_path s' = pr_state_path s" "pr_fs s' = pr_fs s"
    "pr_default_policy s' = pr_default_policy s" "pr_default_seed s' = pr_default_seed s"
    "ap_egress_base s' = ap_egress_base s"
proof -
  let ?s = "s\<lparr>ap_domain_base := set_once (ap_domain_base s) (canonical_rules ba, canonical_rules bd)\<rparr>"
  have base: "ap_domain_base ?s = Some (canonical_rules ba, canonical_rules bd)"
    using assms by (simp add: set_once_def)
  then obtain s' where s': "rebuild_domain_filter ?s = Some s'" using rebuild_domain_ok by blast
  then have "pr_default_policy s' = pr_default_policy s" "pr_default_seed s' = pr_default_seed s"
    "ap_egress_base s' = ap_egress_base s"
    by (auto simp: rebuild_domain_filter_def Let_def case_prod_beta split: option.splits)
  moreover have "domain_base ?s = (canonical_rules ba, canonical_rules bd)" using base by (simp add: domain_base_def)
  ultimately show ?thesis
    using rebuild_domain_live [OF s', of undefined] s' that by (simp add: init_domain_filter_def Let_def)
qed

lemma init_egress_ok:
  assumes "ipnet_laws ops" "live_domain s" "ap_egress_base s = None"
  obtains s' where "init_egress_filter ops ba bd s = Some s'" "live_egress ops s'" "live_domain s'"
    "domain_base s' = domain_base s" "egress_base s' = (canonical_nets ops ba, canonical_nets ops bd)"
    "pr_policies s' = pr_policies s" "pr_state_path s' = pr_state_path s" "pr_fs s' = pr_fs s"
    "pr_default_policy s' = pr_default_policy s" "pr_default_seed s' = pr_default_seed s"
proof -
  let ?s = "s\<lparr>ap_egress_base := set_once (ap_egress_base s) (canonical_nets ops ba, canonical_nets ops bd)\<rparr>"
  have base: "ap_egress_base ?s = Some (canonical_nets ops ba, canonical_nets ops bd)"
    using assms(3) by (simp add: set_once_def)
  then obtain s' where s': "rebuild_egress_filter ops ?s = Some s'" using rebuild_egress_ok [OF assms(1)] by blast
  then have "pr_default_policy s' = pr_default_policy s" "pr_default_seed s' = pr_default_seed s"
    by (auto simp: rebuild_egress_filter_def Let_def case_prod_beta split: option.splits bind_splits)
  moreover have "live_domain ?s" "domain_base ?s = domain_base s" using assms(2) by (simp_all add: live_domain_def domain_base_def)
  moreover have "egress_base ?s = (canonical_nets ops ba, canonical_nets ops bd)" using base by (simp add: egress_base_def)
  ultimately show ?thesis
    using rebuild_egress_live [OF s'] s' that by (simp add: init_egress_filter_def Let_def)
qed

text \<open>The state that a successful initialisation leaves.\<close>

definition initialised ::
  "'net ipnet_ops \<Rightarrow> codec \<Rightarrow> startup_io \<Rightarrow> config \<Rightarrow> fs \<Rightarrow> ('net, 'a) app_scheme \<Rightarrow> bool" where
  "initialised ops c io cfg fs s \<longleftrightarrow>
     server_wf ops s
     \<and> load_policies c (su_now io) (su_read io) (path_of (pa_state (cf_paths cfg))) fs = Inr (pr_policies s)
     \<and> pr_state_path s = Some (path_of (pa_state (cf_paths cfg))) \<and> pr_fs s = snd (state_dirs io cfg fs)
     \<and> pr_default_policy s = Some (pc_default (cf_policy cfg))
     \<and> pr_default_seed s = Some (pc_default_seed (cf_policy cfg))
     \<and> domain_base s = (canonical_rules (dc_allow (cf_domain cfg)), canonical_rules (dc_deny (cf_domain cfg)))
     \<and> egress_base s = (canonical_nets ops (ec_allow (cf_egress cfg)), canonical_nets ops (ec_deny (cf_egress cfg)))"

lemma init_state_cases:
  fixes ops :: "'net ipnet_ops" and cfg :: config
  assumes "ipnet_laws ops"
  defines "path \<equiv> path_of (pa_state (cf_paths cfg))"
  shows "\<exists>r. init_state ops c io cfg (boot now fs) = Some r
    \<and> ((\<exists>s. r = Inr s) \<longleftrightarrow> fst (state_dirs io cfg fs)
          \<and> (\<exists>p. load_policies c (su_now io) (su_read io) path fs = Inr p))
    \<and> (\<forall>s. r = Inr s \<longrightarrow> initialised ops c io cfg fs s)"
proof -
  let ?s1 = "(boot now fs :: 'net app)\<lparr>pr_default_policy := Some (pc_default (cf_policy cfg)),
     pr_default_seed := Some (pc_default_seed (cf_policy cfg))\<rparr>"
  have s1: "init_default_binding (pc_default (cf_policy cfg)) (pc_default_seed (cf_policy cfg)) (boot now fs) = Some ?s1"
    by (simp add: init_default_binding_def)
  obtain made fs1 where dirs: "state_dirs io cfg fs = (made, fs1)" by fastforce
  have reads: "fs_read fs1 = fs_read fs"
    using create_dir_all_reads [of "su_mkdir io" "fp_dir path" fs] dirs by (simp add: state_dirs_def path_def)
  then have load: "load_policies c (su_now io) (su_read io) path fs1 = load_policies c (su_now io) (su_read io) path fs"
    by (simp add: load_policies_def)
  show ?thesis
  proof (cases made)
    case False
    then show ?thesis using dirs unfolding init_state_def s1 Let_def path_def by simp
  next
    case dir: True
    show ?thesis
    proof (cases "load_policies c (su_now io) (su_read io) path fs")
      case (Inl e)
      then show ?thesis using dir dirs load unfolding init_state_def s1 Let_def path_def by simp
    next
      case (Inr p)
      let ?s3 = "?s1\<lparr>pr_fs := fs1, pr_state_path := Some path, pr_policies := p\<rparr>"
      have "ap_domain_base ?s3 = None" by simp
      then obtain s4 where s4: "init_domain_filter (dc_allow (cf_domain cfg)) (dc_deny (cf_domain cfg)) ?s3 = Some s4"
        "live_domain s4" "domain_base s4 = (canonical_rules (dc_allow (cf_domain cfg)), canonical_rules (dc_deny (cf_domain cfg)))"
        "pr_policies s4 = p" "pr_state_path s4 = Some path" "pr_fs s4 = fs1"
        "pr_default_policy s4 = Some (pc_default (cf_policy cfg))"
        "pr_default_seed s4 = Some (pc_default_seed (cf_policy cfg))" "ap_egress_base s4 = None"
        by (rule init_domain_ok [where ba = "dc_allow (cf_domain cfg)" and bd = "dc_deny (cf_domain cfg)"]) simp
      obtain s5 where s5: "init_egress_filter ops (ec_allow (cf_egress cfg)) (ec_deny (cf_egress cfg)) s4 = Some s5"
        "live_egress ops s5" "live_domain s5" "domain_base s5 = domain_base s4"
        "egress_base s5 = (canonical_nets ops (ec_allow (cf_egress cfg)), canonical_nets ops (ec_deny (cf_egress cfg)))"
        "pr_policies s5 = p" "pr_state_path s5 = Some path" "pr_fs s5 = fs1"
        "pr_default_policy s5 = Some (pc_default (cf_policy cfg))"
        "pr_default_seed s5 = Some (pc_default_seed (cf_policy cfg))"
        by (rule init_egress_ok [OF assms(1) s4(2,9), where ba = "ec_allow (cf_egress cfg)" and bd = "ec_deny (cf_egress cfg)"])
           (simp add: s4)
      have "init_state ops c io cfg (boot now fs) = Some (Inr s5)"
        using dir dirs load Inr s4(1) s5(1) unfolding init_state_def s1 Let_def path_def by (simp add: init_state_path_def)
      moreover have "server_wf ops s5" using s5 by (simp add: server_wf_def)
      ultimately show ?thesis using s5 s4(3) Inr dir dirs by (auto simp: initialised_def path_def)
    qed
  qed
qed

text \<open>Binding and serving.\<close>

definition serving :: "startup_event \<Rightarrow> bool" where
  "serving e \<longleftrightarrow> (case e of ServeAdmin a \<Rightarrow> True | ServeTcp b \<Rightarrow> True | ServeUdp b \<Rightarrow> True | _ \<Rightarrow> False)"

lemma bind_all_events: "set (snd (bind_all ok ev bs)) \<subseteq> ev ` set bs"
  by (induction bs) (auto split: prod.splits)

lemma bind_all_None: "fst (bind_all ok ev bs) = None \<Longrightarrow> snd (bind_all ok ev bs) = map ev bs \<and> (\<forall>b \<in> set bs. ok b)"
  by (induction bs) (auto split: prod.splits if_splits)

lemma start_listeners_cases:
  "start_listeners io l = (r, es) \<Longrightarrow>
     (case r of
        Inl e \<Rightarrow> \<forall>e \<in> set es. \<not> serving e
      | Inr u \<Rightarrow> es = BoundAdmin (lo_admin_bind l) # map BoundTcp (da_tcp_binds (cf_data (lo_config l)))
          @ map BoundUdp (da_udp_binds (cf_data (lo_config l)))
          @ ServeAdmin (lo_admin_bind l) # map ServeTcp (da_tcp_binds (cf_data (lo_config l)))
          @ map ServeUdp (da_udp_binds (cf_data (lo_config l))))"
proof -
  assume run: "start_listeners io l = (r, es)"
  let ?t = "bind_all (su_bind_tcp io) BoundTcp (da_tcp_binds (cf_data (lo_config l)))"
  let ?u = "bind_all (su_bind_udp io) BoundUdp (da_udp_binds (cf_data (lo_config l)))"
  have t: "\<forall>e \<in> set (snd ?t). \<not> serving e" using bind_all_events by (fastforce simp: serving_def)
  have u: "\<forall>e \<in> set (snd ?u). \<not> serving e" using bind_all_events by (fastforce simp: serving_def)
  have a: "\<not> serving (BoundAdmin a)" for a by (simp add: serving_def)
  obtain ft tt where ft: "?t = (ft, tt)" by fastforce
  obtain fu uu where fu: "?u = (fu, uu)" by fastforce
  show ?thesis
    using run t u a bind_all_None [of "su_bind_tcp io" BoundTcp "da_tcp_binds (cf_data (lo_config l))"]
      bind_all_None [of "su_bind_udp io" BoundUdp "da_udp_binds (cf_data (lo_config l))"]
    by (cases ft; cases fu) (auto simp: start_listeners_def Let_def ft fu split: if_splits)
qed

text \<open>Every run of the startup.\<close>

lemma startup_outcome:
  assumes "ipnet_laws ops"
  shows "\<exists>r es. startup ops c io cfg (boot now fs) = (Some r, es)
    \<and> (\<forall>e. r = Inl e \<longrightarrow> (\<forall>ev \<in> set es. \<not> serving ev))
    \<and> (\<forall>l s. r = Inr (l, s) \<longrightarrow>
         config_valid ops cfg \<and> initialised ops c io cfg fs s
         \<and> parse_pools (ma_v6_pools (cf_machine cfg)) = Inr (lo_pools l)
         \<and> lo_pools l \<noteq> [] \<and> list_all pool_wf (lo_pools l)
         \<and> (\<exists>binds serves. es = binds @ serves \<and> list_all (\<lambda>e. \<not> serving e) binds \<and> list_all serving serves
              \<and> length binds = length serves))"
proof -
  obtain v where v: "validate_config ops cfg = Some v" "(\<exists>l. v = Inr l) \<longleftrightarrow> config_valid ops cfg"
    using validate_config_total [OF assms] by blast
  show ?thesis
  proof (cases v)
    case (Inl e)
    then show ?thesis using v(1) by (simp add: startup_def)
  next
    case (Inr l)
    note l = validate_config_Inr [OF v(1) [unfolded Inr]]
    obtain i where i: "init_state ops c io cfg (boot now fs) = Some i"
      "\<forall>s. i = Inr s \<longrightarrow> initialised ops c io cfg fs s"
      using init_state_cases [OF assms, of c io cfg now fs] by blast
    obtain r es where s: "start_listeners io l = (r, es)" by fastforce
    note cases = start_listeners_cases [OF s]
    have pools: "list_all pool_wf (lo_pools l)" using l parse_pools_wf by blast
    show ?thesis
    proof (cases i)
      case (Inl e)
      then show ?thesis using v(1) \<open>v = Inr l\<close> i(1) l by (simp add: startup_def)
    next
      case (Inr s')
      show ?thesis
      proof (cases r)
        case (Inl e)
        then show ?thesis
          using v(1) \<open>v = Inr l\<close> i(1) \<open>i = Inr s'\<close> l s cases by (simp add: startup_def)
      next
        case (Inr u)
        let ?d = "cf_data (lo_config l)"
        let ?b = "BoundAdmin (lo_admin_bind l) # map BoundTcp (da_tcp_binds ?d) @ map BoundUdp (da_udp_binds ?d)"
        let ?s = "ServeAdmin (lo_admin_bind l) # map ServeTcp (da_tcp_binds ?d) @ map ServeUdp (da_udp_binds ?d)"
        have "es = ?b @ ?s" using cases Inr by simp
        moreover have "list_all (\<lambda>e. \<not> serving e) ?b" "list_all serving ?s" "length ?b = length ?s"
          by (auto simp: list_all_iff serving_def)
        ultimately have "\<exists>binds serves. es = binds @ serves \<and> list_all (\<lambda>e. \<not> serving e) binds
            \<and> list_all serving serves \<and> length binds = length serves" by blast
        moreover have "startup ops c io cfg (boot now fs) = (Some (Inr (l, s')), es)"
          using v(1) \<open>v = Inr l\<close> i(1) \<open>i = Inr s'\<close> l s Inr by (simp add: startup_def)
        ultimately show ?thesis
          using i(2) \<open>i = Inr s'\<close> \<open>v = Inr l\<close> v(2) l pools by auto
      qed
    qed
  qed
qed

lemma startup_loaded:
  "startup ops c io cfg s0 = (Some (Inr (l, s)), es) \<Longrightarrow> validate_config ops cfg = Some (Inr l)"
  by (auto simp: startup_def split: option.splits sum.splits prod.splits)

lemma startup_fs_frame:
  "fs_live (startup_fs ops io cfg fs) = fs_live fs" "fs_disk (startup_fs ops io cfg fs) = fs_disk fs"
  "fs_dirs fs \<subseteq> fs_dirs (startup_fs ops io cfg fs)"
  "fs_dirs (startup_fs ops io cfg fs) \<subseteq> fs_dirs fs \<union> set (dir_chain (fp_dir (path_of (pa_state (cf_paths cfg)))))"
  using validate_config_Inr [of ops cfg]
  by (auto simp: startup_fs_def state_dirs_def create_dir_all_frame split: option.splits sum.splits
      dest: subsetD [OF create_dir_all_frame(3)] subsetD [OF create_dir_all_frame(4)])

definition example_config :: config where
  "example_config =
     \<lparr>cf_admin = \<lparr>ad_bind = ''[::1]:87'', ad_token_hash = ''x'', ad_allowlist = [''::1'']\<rparr>,
      cf_data = \<lparr>da_tcp_binds = [''[::]:80''], da_udp_binds = [''[::]:443'']\<rparr>,
      cf_paths = \<lparr>pa_state = ''/v/p.json''\<rparr>, cf_machine = \<lparr>ma_v6_pools = [''2001:db8:a::/64'']\<rparr>,
      cf_policy = policy_config_default, cf_egress = egress_config_default,
      cf_domain = \<lparr>dc_allow = [], dc_deny = [''ads.com'']\<rparr>, cf_log = log_config_default\<rparr>"

lemma example_entries:
  "v6_pool_parse ''2001:db8:a::/64'' = Inr \<lparr>pl_prefix = 0x20010db8000a * 2 ^ 80, pl_prefix_len = 64\<rparr>"
  "parse_rule ''ads.com'' = Inr (Domain_zone ''ads.com'')"
  "\<exists>n. parse_net plain_ops ''::1'' = Inr n"
  "parse_socket_addr ''[::1]:87'' = Some \<lparr>sa_ip = IpV6 1, sa_port = 87\<rparr>"
  "parse_socket_addr ''[::]:80'' = Some \<lparr>sa_ip = IpV6 0, sa_port = 80\<rparr>"
  "parse_socket_addr ''[::]:443'' = Some \<lparr>sa_ip = IpV6 0, sa_port = 443\<rparr>"
proof -
  show "v6_pool_parse ''2001:db8:a::/64'' = Inr \<lparr>pl_prefix = 0x20010db8000a * 2 ^ 80, pl_prefix_len = 64\<rparr>"
    by (simp add: v6_pool_parse_def parse_uint_def ip_eval mask_eq_exp_minus_1)
  show "parse_rule ''ads.com'' = Inr (Domain_zone ''ads.com'')" by code_simp
  have "parse_ip_addr ''::1'' = Some (IpV6 1)" by (simp add: ip_eval)
  then show "\<exists>n. parse_net plain_ops ''::1'' = Inr n" by (simp add: parse_net_def contains_char_def)
  show "parse_socket_addr ''[::1]:87'' = Some \<lparr>sa_ip = IpV6 1, sa_port = 87\<rparr>" by (simp add: ip_eval)
  show "parse_socket_addr ''[::]:80'' = Some \<lparr>sa_ip = IpV6 0, sa_port = 80\<rparr>" by (simp add: ip_eval)
  show "parse_socket_addr ''[::]:443'' = Some \<lparr>sa_ip = IpV6 0, sa_port = 443\<rparr>" by (simp add: ip_eval)
qed

lemma example_config_valid: "config_valid plain_ops example_config"
  using example_entries(3)
  by (simp add: config_valid_def example_config_def example_entries(1,2,4-6) egress_config_default_def)

lemma init_config_effect:
  assumes "init_config text mkdir_ok write_ok part path force fs = (r, fs')"
  shows "(fs_read fs path \<noteq> None \<and> \<not> force \<longrightarrow> r = Inl (ConfigExists path) \<and> fs' = fs)
    \<and> (\<forall>q. q \<noteq> path \<longrightarrow> fs_read fs' q = fs_read fs q)
    \<and> (r = Inr () \<longrightarrow> fs_read fs' path = Some text)"
  using assms create_dir_all_reads [of mkdir_ok "fp_dir path" fs]
  by (auto simp: init_config_def fs_defs fun_eq_iff split: if_splits prod.splits option.splits)

section \<open>Properties\<close>

text \<open>C30: the validation never panics, and it accepts exactly the configurations in which there is a pool
  and every pool, filter entry, domain rule, allow-list entry and bind address parses; the check mode
  of the command line gives the same verdict as the validation at startup.\<close>

theorem validate_config_complete:
  assumes "ipnet_laws ops"
  shows "\<exists>r. validate_config ops cfg = Some r \<and> ((\<exists>l. r = Inr l) \<longleftrightarrow> config_valid ops cfg)
    \<and> check_config ops cfg = Some (case r of Inl e \<Rightarrow> Inl e | Inr l \<Rightarrow> Inr ())"
  using validate_config_total [OF assms, of cfg] by (auto simp: check_config_def split: sum.splits)

theorem validate_config_complete_witness:
  "\<exists>l. validate_config plain_ops example_config = Some (Inr l) \<and> check_config plain_ops example_config = Some (Inr ())"
  using validate_config_complete [OF plain_laws, of example_config] example_config_valid by auto

text \<open>C11: startup from a fresh process is all or nothing and never panics. When it fails, at whatever
  point, nothing is served. When it succeeds the configuration is valid, the admin API and the data
  plane start from a well-formed state (the cells set, the bases those of the configuration, the
  filters compiled from them and the persisted policies), the policies are those of the state file,
  the pools are those of the configuration, and all listeners were bound before the first was served.\<close>

theorem startup_all_or_nothing:
  assumes "ipnet_laws ops"
  shows "\<exists>r es. startup ops c io cfg (boot now fs) = (Some r, es)
    \<and> (\<forall>e. r = Inl e \<longrightarrow> (\<forall>ev \<in> set es. \<not> serving ev))
    \<and> (\<forall>l s. r = Inr (l, s) \<longrightarrow>
         config_valid ops cfg \<and> initialised ops c io cfg fs s
         \<and> parse_pools (ma_v6_pools (cf_machine cfg)) = Inr (lo_pools l)
         \<and> lo_pools l \<noteq> [] \<and> list_all pool_wf (lo_pools l)
         \<and> (\<exists>binds serves. es = binds @ serves \<and> list_all (\<lambda>e. \<not> serving e) binds \<and> list_all serving serves
              \<and> length binds = length serves))"
  by (rule startup_outcome [OF assms])

definition example_startup_io :: startup_io where
  "example_startup_io =
     \<lparr>su_now = 0, su_mkdir = (\<lambda>d. True), su_read = True, su_bind_admin = True,
      su_bind_tcp = (\<lambda>b. True), su_bind_udp = (\<lambda>b. b \<noteq> ''[::]:443'')\<rparr>"

theorem startup_all_or_nothing_witness:
  "\<exists>r es. startup plain_ops plain_codec example_startup_io example_config
       (boot 0 \<lparr>fs_live = (\<lambda>p. None), fs_disk = (\<lambda>p. None), fs_dirs = {}\<rparr>) = (Some r, es)
     \<and> ((\<exists>e. r = Inl e) \<longrightarrow> (\<forall>ev \<in> set es. \<not> serving ev))"
  using startup_all_or_nothing [OF plain_laws, of plain_codec example_startup_io example_config 0
      "\<lparr>fs_live = (\<lambda>p. None), fs_disk = (\<lambda>p. None), fs_dirs = {}\<rparr>"] by blast

text \<open>\<open>v6proxy init\<close> without \<open>--force\<close> never touches an existing configuration; it touches no other
  file in any case, and when it reports success the file holds the starter configuration.\<close>

theorem init_config_safe:
  assumes "init_config text mkdir_ok write_ok part path force fs = (r, fs')"
  shows "(fs_read fs path \<noteq> None \<and> \<not> force \<longrightarrow> r = Inl (ConfigExists path) \<and> fs' = fs)
    \<and> (\<forall>q. q \<noteq> path \<longrightarrow> fs_read fs' q = fs_read fs q)
    \<and> (r = Inr () \<longrightarrow> fs_read fs' path = Some text)"
  by (rule init_config_effect [OF assms])

theorem init_config_safe_witness:
  "let path = \<lparr>fp_dir = ''/e'', fp_name = ''c''\<rparr>;
       fs = \<lparr>fs_live = [path \<mapsto> (''old'', True)], fs_disk = (\<lambda>p. None), fs_dirs = {}\<rparr>
   in init_config ''new'' (\<lambda>d. True) True None path False fs = (Inl (ConfigExists path), fs)"
proof -
  let ?path = "\<lparr>fp_dir = ''/e'', fp_name = ''c''\<rparr>"
  let ?fs = "\<lparr>fs_live = [?path \<mapsto> (''old'', True)], fs_disk = (\<lambda>p. None), fs_dirs = {}\<rparr>"
  obtain r fs' where run: "init_config ''new'' (\<lambda>d. True) True None ?path False ?fs = (r, fs')" by fastforce
  have "fs_read ?fs ?path \<noteq> None" by (simp add: fs_read_def)
  then show ?thesis using init_config_safe [OF run] run unfolding Let_def by simp
qed

end
