(* ===== verification/Proxy.thy ===== *)
theory Proxy
  imports ApiRace QuicLiveness Startup
begin

text \<open>
  The parts of the program together: the startup gives the data plane its pools and a well-formed
  state, the admin API keeps the state well formed, and on a well-formed state the filters that the
  data plane asks decide what configuration and overlay say. The chain is run once, from an example
  configuration to a connection.
\<close>

section \<open>From the configuration to the network\<close>

text \<open>A change of the process state by other tasks that keeps the server well formed, as the requests
  of the admin API do.\<close>

definition keeps_wf :: "'net ipnet_ops \<Rightarrow> (('net, 'a) app_scheme \<Rightarrow> ('net, 'a) app_scheme) \<Rightarrow> bool" where
  "keeps_wf ops f \<longleftrightarrow> (\<forall>s. server_wf ops s \<longrightarrow> server_wf ops (f s))"

lemma requests_keep_wf:
  assumes "ipnet_laws (api_nets api)"
  shows "keeps_wf (api_nets api) (\<lambda>s. snd (serve_all api argon tokens rqs s))"
  unfolding keeps_wf_def using serve_all_wf [OF assms] by (metis prod.collapse)

lemma peer_binding_wf: "server_wf ops s \<Longrightarrow> server_wf ops (snd (peer_binding now ip s))"
  by (auto simp: peer_binding_def intro: default_binding_wf(3) split: option.splits)

lemma traffic_guarded:
  assumes laws: "ipnet_laws ops" and wf: "server_wf ops s"
    and rely: "keeps_wf ops (ci_after_peek io)" "keeps_wf ops (ci_after_dns io)"
    and run: "handle_tcp ops sip pools io peer port s = (r, tr, s')" "TcpConnect src dst \<in> set tr"
  shows "\<exists>data host. peek_sni_or_host (ci_peek io) port = Some (Inr (data, Some host))
    \<and> domain_policy_allows (at_domain_check io peer s) host
    \<and> egress_policy_allows ops (at_egress_check io peer s) (sa_ip dst)"
proof -
  have wf1: "server_wf ops (at_domain_check io peer s)"
    using rely(1) peer_binding_wf [OF wf] by (simp add: at_domain_check_def keeps_wf_def)
  then have wf2: "server_wf ops (at_egress_check io peer s)"
    using rely(2) by (simp add: at_egress_check_def keeps_wf_def)
  have live1: "live_domain (at_domain_check io peer s)" using wf1 by (simp add: server_wf_def)
  have live2: "live_egress ops (at_egress_check io peer s)" using wf2 by (simp add: server_wf_def)
  obtain data host addrs where h:
    "peek_sni_or_host (ci_peek io) port = Some (Inr (data, Some host))"
    "host_allowed (ap_domain_filter (at_domain_check io peer s)) host"
    "first_permitted ops (ap_egress_filter (at_egress_check io peer s)) addrs = Some dst"
    using handle_tcp_connect [OF run] by metis
  have "domain_policy_allows (at_domain_check io peer s) host"
    using live_domain_allows [OF live1 peek_host_length [OF h(1)]] h(2) by blast
  moreover have "egress_policy_allows ops (at_egress_check io peer s) (sa_ip dst)"
    using live_egress_allows [OF laws live2] first_permittedD [OF h(3)] by blast
  ultimately show ?thesis using h(1) by blast
qed

lemma startup_pools_wf:
  assumes "startup ops c io cfg s0 = (Some (Inr (l, s)), es)"
  shows "parse_pools (ma_v6_pools (cf_machine cfg)) = Inr (lo_pools l) \<and> list_all pool_wf (lo_pools l)"
proof -
  from startup_loaded [OF assms] show ?thesis using validate_config_Inr parse_pools_wf by blast
qed

lemma startup_wf:
  assumes "ipnet_laws ops" "startup ops c io cfg (boot now fs) = (Some (Inr (l, s)), es)"
  shows "server_wf ops s"
proof -
  obtain l' where "validate_config ops cfg = Some (Inr l')" "init_state ops c io (lo_config l') (boot now fs) = Some (Inr s)"
    using assms(2) by (auto simp: startup_def split: option.splits sum.splits prod.splits)
  moreover from this have "lo_config l' = cfg" using validate_config_Inr by blast
  ultimately show ?thesis
    using init_state_cases [OF assms(1), of c io cfg now fs] by (auto simp: initialised_def)
qed

section \<open>A run from the example configuration\<close>

definition example_boot_fs :: fs where
  "example_boot_fs = \<lparr>fs_live = Map.empty, fs_disk = Map.empty, fs_dirs = {}\<rparr>"

definition all_ok :: startup_io where
  "all_ok = example_startup_io\<lparr>su_bind_udp := (\<lambda>b. True)\<rparr>"

lemma example_started:
  "\<exists>l s es. startup plain_ops plain_codec all_ok example_config (boot 0 example_boot_fs) = (Some (Inr (l, s)), es)
     \<and> lo_pools l = example_pools \<and> initialised plain_ops plain_codec all_ok example_config example_boot_fs s"
proof -
  let ?path = "path_of (pa_state (cf_paths example_config))"
  obtain l where l: "validate_config plain_ops example_config = Some (Inr l)"
    using validate_config_total [OF plain_laws, of example_config] example_config_valid by blast
  note lo = validate_config_Inr [OF l]
  have pools: "lo_pools l = example_pools"
    using lo example_entries(1) by (simp add: parse_pools_def example_config_def example_pools_def)
  obtain i where i: "init_state plain_ops plain_codec all_ok example_config (boot 0 example_boot_fs) = Some i"
    "(\<exists>s. i = Inr s) \<longleftrightarrow> fst (state_dirs all_ok example_config example_boot_fs)
       \<and> (\<exists>p. load_policies plain_codec (su_now all_ok) (su_read all_ok) ?path example_boot_fs = Inr p)"
    "\<forall>s. i = Inr s \<longrightarrow> initialised plain_ops plain_codec all_ok example_config example_boot_fs s"
    using init_state_cases [OF plain_laws] by metis
  have "load_policies plain_codec (su_now all_ok) (su_read all_ok) ?path example_boot_fs = Inr (policies_default 0)"
    by (simp add: load_policies_def fs_read_def example_boot_fs_def all_ok_def example_startup_io_def)
  moreover have "fst (state_dirs all_ok example_config example_boot_fs)"
    unfolding state_dirs_def by (rule create_dir_all_ok) (simp add: all_ok_def example_startup_io_def)
  ultimately obtain s where s: "i = Inr s" using i(2) by blast
  have b: "bind_all (\<lambda>b. True) ev bs = (None, map ev bs)" for ev :: "string \<Rightarrow> startup_event" and bs
    by (induction bs) simp_all
  have "\<exists>es. start_listeners all_ok l = (Inr (), es)"
    by (simp add: start_listeners_def all_ok_def example_startup_io_def b Let_def)
  then show ?thesis using l lo i(1,3) s pools by (auto simp: startup_def)
qed

definition example_argon :: argon where
  "example_argon = \<lparr>pw_hash_ok = (\<lambda>h. False), pw_verify = (\<lambda>p h. VerifyError)\<rparr>"

definition example_dst :: socket_addr where
  "example_dst = \<lparr>sa_ip = IpV6 (0x2600 * 2 ^ 112 + 1), sa_port = 80\<rparr>"

lemma example_policy:
  assumes "initialised plain_ops plain_codec all_ok example_config example_boot_fs s"
  shows "domain_policy_allows s ''a.b''" "egress_policy_allows plain_ops s (sa_ip example_dst)"
proof -
  have p: "pr_policies s = policies_default 0"
    using assms by (simp add: initialised_def load_policies_def fs_read_def example_boot_fs_def
        all_ok_def example_startup_io_def)
  have canonical: "canonicalize_rule ''ads.com'' = Inr ''domain:ads.com''" by code_simp
  have base: "domain_base s = ([], [''domain:ads.com''])" "egress_base s = ([], [])"
    using assms canonical
    by (simp_all add: initialised_def example_config_def egress_config_default_def List.map_filter_def)
  have e: "effective_allow acl_delta_default b = b" "effective_deny acl_delta_default b = b"
    if "b = [] \<or> b = [''domain:ads.com'']" for b
    using that by (auto simp: effective_allow_def effective_deny_def acl_delta_default_def merge_acl_def)
  have "parsed_rules [''domain:ads.com''] = {Domain_zone ''ads.com''}"
  proof -
    have "parse_rule ''domain:ads.com'' = Inr (Domain_zone ''ads.com'')" by code_simp
    then show ?thesis by (auto simp: parsed_rules_def)
  qed
  moreover have "normalize_name ''a.b'' = ''a.b''" by code_simp
  ultimately show "domain_policy_allows s ''a.b''"
    by (simp add: domain_policy_allows_def p base e model_b_def parsed_rules_def policies_default_def suffix_def)
  have "\<not> net_contains plain_ops q (sa_ip example_dst)" if q: "q \<in> parsed_nets plain_ops builtin_texts" for q
  proof -
    obtain t where t: "t \<in> set builtin_texts" "parse_net plain_ops t = Inr q"
      using q by (auto simp: parsed_nets_def)
    then obtain a n where row: "(t, a, n) \<in> set builtin_table" by (force simp: builtin_texts_table)
    then have "net_contains plain_ops q (sa_ip example_dst) = in_cidr6 a n (sa_ip example_dst)"
      using builtin_parsed [OF plain_laws row] t(2) by (auto simp: net_denotes_def)
    moreover have "\<forall>(t, a, n) \<in> set builtin_table. \<not> in_cidr6 a n (sa_ip example_dst)"
      by (simp add: builtin_table_def in_cidr6_def example_dst_def)
    ultimately show ?thesis using row by auto
  qed
  then show "egress_policy_allows plain_ops s (sa_ip example_dst)"
    by (simp add: egress_policy_allows_def p base e model_b_def policies_default_def parsed_nets_def [of _ "[]"])
qed

section \<open>The QUIC listener beside the admin API\<close>

text \<open>A step of the process: the listener or another task of the data plane, which publish nothing, or a
  request to the admin API, which works on the statics alone.\<close>

inductive proxy_step ::
  "'net api \<Rightarrow> argon \<Rightarrow> 'net tokens \<Rightarrow> 'net quic_world
     \<Rightarrow> ('net, 'a) listener_scheme \<Rightarrow> ('net, 'a) listener_scheme \<Rightarrow> bool"
  for api argon tokens w where
  net: "quic_step w s s' \<Longrightarrow> published s' = published s \<Longrightarrow> proxy_step api argon tokens w s s'"
| request: "serve api argon tokens env rq (app.truncate s) = (r, app.truncate s') \<Longrightarrow> app.more s' = app.more s
     \<Longrightarrow> proxy_step api argon tokens w s s'"

abbreviation proxy_steps ::
  "'net api \<Rightarrow> argon \<Rightarrow> 'net tokens \<Rightarrow> 'net quic_world
     \<Rightarrow> ('net, 'a) listener_scheme \<Rightarrow> ('net, 'a) listener_scheme \<Rightarrow> bool" where
  "proxy_steps api argon tokens w \<equiv> (proxy_step api argon tokens w)\<^sup>*\<^sup>*"

lemma proxy_step_quic: "proxy_step api argon tokens w s s' \<Longrightarrow> quic_step w s s'"
proof (induction rule: proxy_step.induct)
  case (request env rq s r s')
  have "listener_part s' = listener_part s"
    using request(2) by (cases s; cases s'; simp add: listener_part_def)
  then show ?case by (rule quic_step.admin)
qed

lemma proxy_steps_quic: "proxy_steps api argon tokens w s s' \<Longrightarrow> quic_steps w s s'"
  by (induction rule: rtranclp_induct) (auto intro: rtranclp.rtrancl_into_rtrancl proxy_step_quic)

lemma server_wf_published: "published s' = published s \<Longrightarrow> server_wf ops s' = server_wf ops s"
  by (simp add: published_def server_wf_def live_domain_def live_egress_def)

lemma server_wf_truncate: "server_wf ops (app.truncate s) = server_wf ops s"
  by (simp add: server_wf_def live_domain_def live_egress_def app.defs)

lemma proxy_steps_wf:
  assumes "ipnet_laws (api_nets api)"
  shows "proxy_steps api argon tokens w s s' \<Longrightarrow> server_wf (api_nets api) s \<Longrightarrow> server_wf (api_nets api) s'"
proof (induction rule: rtranclp_induct)
  case (step s1 s2)
  from step.hyps(2) show ?case
  proof (cases rule: proxy_step.cases)
    case net
    then show ?thesis using step.IH step.prems server_wf_published by blast
  next
    case (request env rq r)
    then show ?thesis
      using serve_wf [OF assms] step.IH step.prems server_wf_truncate by metis
  qed
qed simp

text \<open>What was admitted in a run was allowed by the policy of the moment.\<close>

lemma sni_length:
  "crypto_laws c \<Longrightarrow> extract_quic_sni c data = Some (Some sni) \<Longrightarrow> length sni \<le> 65535"
  using extract_quic_sni_total [of c data] by (simp add: returns_def)

lemma sessions_guarded:
  assumes laws: "ipnet_laws (api_nets api)" "crypto_laws (qw_crypto w)" "qw_nets w = api_nets api"
    and s0: "fresh_listener s0" "server_wf (api_nets api) s0"
    and run: "proxy_steps api argon tokens w s0 s" "Forwarding peer sni n src dst \<in> set (ls_trace s)"
  shows "\<exists>s1 s2. proxy_steps api argon tokens w s0 s1 \<and> proxy_steps api argon tokens w s1 s2
    \<and> proxy_steps api argon tokens w s2 s
    \<and> domain_policy_allows s1 sni \<and> egress_policy_allows (api_nets api) s2 (sa_ip dst)"
proof -
  have "guarded_in_run (proxy_step api argon tokens w) w s0 s sni dst"
    using run_guarded [OF run(1) s0(1), of w] proxy_step_quic run(2) by blast
  then obtain s1 s2 data where g: "proxy_steps api argon tokens w s0 s1" "proxy_steps api argon tokens w s1 s2"
    "proxy_steps api argon tokens w s2 s" "extract_quic_sni (qw_crypto w) data = Some (Some sni)"
    "host_allowed (ap_domain_filter s1) sni" "egress_allowed (api_nets api) (ap_egress_filter s2) (sa_ip dst)"
    unfolding guarded_in_run_def laws(3) by blast
  have wf: "server_wf (api_nets api) s1" using proxy_steps_wf [OF laws(1) g(1) s0(2)] .
  then have "server_wf (api_nets api) s2" using proxy_steps_wf [OF laws(1) g(2)] by blast
  then have live: "live_domain s1" "live_egress (api_nets api) s2" using wf by (simp_all add: server_wf_def)
  have "domain_policy_allows s1 sni"
    using live_domain_allows [OF live(1) sni_length [OF laws(2) g(4)]] g(5) by blast
  moreover have "egress_policy_allows (api_nets api) s2 (sa_ip dst)"
    using live_egress_allows [OF laws(1) live(2)] g(6) by blast
  ultimately show ?thesis using g(1-3) by blast
qed

text \<open>The example: the listener beside the server that the example configuration starts.\<close>

definition listening :: "'net app \<Rightarrow> 'net listener" where
  "listening a = app.extend a
     \<lparr>ls_clock = 0, ls_sessions = (\<lambda>k. None), ls_sockets = [], ls_tasks = [], ls_trace = []\<rparr>"

lemma listening_simps [simp]:
  "app.truncate (listening a) = a" "fresh_listener (listening a)"
  "ap_domain_filter (listening a) = ap_domain_filter a" "ap_egress_filter (listening a) = ap_egress_filter a"
  "ls_sessions (listening a) k = None" "ls_tasks (listening a) = []" "ls_trace (listening a) = []"
  "ls_sockets (listening a) = []"
  by (simp_all add: listening_def app.defs fresh_listener_def)

definition open_world :: "v6_pool list \<Rightarrow> (ip_addr \<times> u8) quic_world" where
  "open_world pools =
     \<lparr>qw_nets = plain_ops, qw_crypto = plain_crypto, qw_sip = example_sip, qw_pools = pools,
      qw_dns = (\<lambda>t a. t = lookup_text ''a.b'' 443 \<and> a = Some [example_dst\<lparr>sa_port := 443\<rparr>])\<rparr>"

lemma published_frames:
  "published (snd (peer_binding now ip s)) = published s" "published (emit es s) = published s"
  "published (put_task t s) = published s" "published (drop_task i s) = published s"
  "published (s\<lparr>ls_sockets := x\<rparr>) = published s"
  for s :: "('net, 'a) listener_scheme"
  by (auto simp: published_def peer_binding_def default_binding_def default_hash_policy_def
      default_binding_seed_def emit_def put_task_def drop_task_def split: option.splits)

lemma example_quic_session:
  assumes "host_allowed (ap_domain_filter a) ''a.b''" "egress_allowed plain_ops (ap_egress_filter a) (sa_ip example_dst)"
    and "pools \<noteq> []"
  shows "\<exists>s src. proxy_steps api argon tokens (open_world pools) (listening a) s
    \<and> Forwarding quic_peer ''a.b'' 0 src (example_dst\<lparr>sa_port := 443\<rparr>) \<in> set (ls_trace s)"
proof -
  let ?s0 = "listening a" and ?w = "open_world pools" and ?dst = "example_dst\<lparr>sa_port := 443\<rparr>"
  let ?b = "fst (peer_binding 0 (IpV4 1) ?s0)" and ?p = "snd (peer_binding 0 (IpV4 1) ?s0)"
  let ?task = "Resolving quic_peer example_datagram ?b ''a.b''"
  let ?s1 = "put_task (Some ?task) (emit [QuicLookup (lookup_text ''a.b'' 443)] ?p)"
  have "quic_arrive (qw_crypto ?w) 0 True quic_peer example_datagram ?s0
      = (Some (Inr (Some ?task)), emit [QuicLookup (lookup_text ''a.b'' 443)] ?p)"
    using assms(1) by (simp add: quic_arrive_def open_world_def example_datagram_sni admit_host_def
        peer_binding_filters prod.case_eq_if Let_def)
  from quic_step.arrive [OF this] have one: "proxy_step api argon tokens ?w ?s0 ?s1"
    by (intro proxy_step.net) (simp_all add: task_of_def published_frames)
  obtain src where src: "pick_outgoing example_sip pools ?b (IpV4 1) (sa_ip ?dst) 5000 443 = Some (Some src)"
    using pick_outgoing_cases [OF assms(3)] by metis
  have tasks: "ls_tasks ?s1 = [?task]" by (simp add: put_task_def emit_def app_frames)
  let ?d = "drop_task 0 ?s1" and ?n = "length (ls_sockets (drop_task 0 ?s1))"
  let ?s2 = "emit [Forwarding quic_peer ''a.b'' ?n src ?dst, ToUpstream quic_peer ?n ?dst example_datagram]
      (emit [UdpBound ?n src] (?d\<lparr>ls_sockets := ls_sockets ?d @ [src]\<rparr>))"
  have filter: "ap_egress_filter ?d = ap_egress_filter a"
    using peer_binding_filters(2) [of 0 "IpV4 1" ?s0] by (simp add: put_task_def emit_def)
  have first: "first_permitted plain_ops (ap_egress_filter ?d) [?dst] = Some ?dst"
    using assms(2) unfolding filter by (simp add: first_permitted_def is_ipv6_def example_dst_def)
  have "udp_ok good_udp" by (simp add: udp_ok_def good_udp_def)
  then have "quic_resolved (qw_nets ?w) (qw_sip ?w) (qw_pools ?w) (Some [?dst]) good_udp quic_peer example_datagram
      ?b ''a.b'' ?d = (Some (Inr (Some (Sending quic_peer ?n src ?dst))), ?s2)"
    using first src by (simp add: quic_resolved_def resolve_dst_eq create_v6_udp_socket_cases(1) open_world_def)
  from quic_step.resolved [OF _ _ _ this] tasks
  have "quic_step ?w ?s1 (put_task (Some (Sending quic_peer ?n src ?dst)) ?s2)"
    by (simp add: task_of_def open_world_def)
  then have two: "proxy_step api argon tokens ?w ?s1 (put_task (Some (Sending quic_peer ?n src ?dst)) ?s2)"
    by (intro proxy_step.net) (simp_all only: published_frames)
  have "?n = 0" by (simp add: drop_task_def put_task_def emit_def app_frames)
  then have "Forwarding quic_peer ''a.b'' 0 src ?dst \<in> set (ls_trace (put_task (Some (Sending quic_peer ?n src ?dst)) ?s2))"
    by (simp add: put_task_def emit_def)
  then show ?thesis using one two by (meson converse_rtranclp_into_rtranclp rtranclp.rtrancl_refl)
qed

lemma pool_text:
  assumes "startup ops c io cfg s0 = (Some (Inr (l, s)), es)" "p \<in> set (lo_pools l)"
  shows "\<exists>t. t \<in> set (ma_v6_pools (cf_machine cfg)) \<and> v6_pool_parse t = Inr p"
  using startup_pools_wf [OF assms(1)] assms(2) collect_results_set unfolding parse_pools_def by fastforce

end
