(* ===== verification/TcpTasks.thy ===== *)
theory TcpTasks
  imports Forward
begin

text \<open>
  A TCP connection as a task of its own (\<open>src/dataplane/tcp.rs\<close>): the handler cut at the two points
  where it waits and afterwards still reads what other tasks may have changed, the peek of the first
  bytes and the lookup of the name. After the lookup it reads the egress filter once and then nothing
  shared, so the rest is one step. The handler is the composition of its parts.
\<close>

section \<open>The parts of the handler\<close>

datatype tcp_task =
  TcpPeeking binding socket_addr u16
| TcpResolving binding socket_addr u16 string

definition tcp_peeked ::
  "peek_outcome \<Rightarrow> binding \<Rightarrow> socket_addr \<Rightarrow> u16 \<Rightarrow> ('net, 'a) app_scheme
     \<Rightarrow> (dp_error + tcp_task option) run \<times> event list \<times> ('net, 'a) app_scheme" where
  "tcp_peeked outcome b peer local_port s =
     (case peek_sni_or_host outcome local_port of
        None \<Rightarrow> (panic, [], s)
      | Some (Inl e) \<Rightarrow> (ret (Inl (PeekError e)), [], s)
      | Some (Inr (peeked, None)) \<Rightarrow> (ret (Inr None), [], s)
      | Some (Inr (peeked, Some dst_host)) \<Rightarrow>
          (let (admitted, s1) = admit_host dst_host s in
           if \<not> admitted then (ret (Inr None), [], s1)
           else (ret (Inr (Some (TcpResolving b peer local_port dst_host))),
                 [Lookup (lookup_text dst_host local_port)], s1)))"

definition tcp_resolved ::
  "'net ipnet_ops \<Rightarrow> hasher \<Rightarrow> v6_pool list \<Rightarrow> socket_addr list option \<Rightarrow> 's conn_io
     \<Rightarrow> binding \<Rightarrow> socket_addr \<Rightarrow> u16 \<Rightarrow> string \<Rightarrow> ('net, 'a) app_scheme
     \<Rightarrow> (dp_error + unit) run \<times> event list \<times> ('net, 'a) app_scheme" where
  "tcp_resolved ops sip pools addrs io b peer dst_port dst_host s =
     (let (dst, s1) = resolve_dst ops addrs dst_host s
      in case dst of
           Inl e \<Rightarrow> (ret (Inl e), [], s1)
         | Inr dst_addr \<Rightarrow>
             (case pick_outgoing sip pools b (sa_ip peer) (sa_ip dst_addr) (sa_port peer) dst_port of
                None \<Rightarrow> (panic, [], s1)
              | Some None \<Rightarrow> (ret (Inr ()), [], s1)
              | Some (Some src_v6) \<Rightarrow>
                  (let (upstream, tr) = bind_and_connect io src_v6 dst_addr in
                   case upstream of
                     Inl e \<Rightarrow> (ret (Inl e), tr, s1)
                   | Inr u \<Rightarrow>
                       (let (copied, tr') = copy_bidirectional io in
                        (ret (case copied of Inl e \<Rightarrow> Inl e | Inr n \<Rightarrow> Inr ()), tr @ tr', s1)))))"

section \<open>What the parts do\<close>

lemma tcp_peeked_total: "fst (tcp_peeked outcome b peer port s) \<noteq> None"
  using peek_total [of outcome port]
  by (auto simp: tcp_peeked_def case_prod_beta Let_def split: option.splits sum.splits prod.splits)

lemma tcp_peeked_goes_on:
  assumes "tcp_peeked outcome b peer port s = (Some (Inr (Some t)), tr, s')"
  obtains data host where "peek_sni_or_host outcome port = Some (Inr (data, Some host))"
    "host_allowed (ap_domain_filter s) host" "t = TcpResolving b peer port host"
  using assms
  by (auto simp: tcp_peeked_def admit_host_def Let_def split: option.splits sum.splits prod.splits if_splits)

lemma tcp_peeked_events: "TcpConnect src dst \<notin> set (fst (snd (tcp_peeked outcome b peer port s)))"
  by (auto simp: tcp_peeked_def Let_def split: option.splits sum.splits prod.splits)

lemma tcp_resolved_total: "fst (tcp_resolved ops sip pools addrs io b peer port host s) \<noteq> None"
  by (auto simp: tcp_resolved_def pick_outgoing_total case_prod_beta Let_def split: option.splits sum.splits prod.splits)

lemma tcp_resolved_connects:
  assumes "tcp_resolved ops sip pools addrs io b peer port host s = (r, tr, s')" "TcpConnect src dst \<in> set tr"
  shows "is_ipv6 dst \<and> (\<exists>as. addrs = Some as \<and> dst \<in> set as) \<and> egress_allowed ops (ap_egress_filter s) (sa_ip dst)
    \<and> pick_outgoing sip pools b (sa_ip peer) (sa_ip dst) (sa_port peer) port = Some (Some src)"
proof -
  obtain dst' s1 where dst: "resolve_dst ops addrs host s = (Inr dst', s1)"
    using assms by (cases "resolve_dst ops addrs host s"; cases "fst (resolve_dst ops addrs host s)")
      (auto simp: tcp_resolved_def)
  then have ok: "is_ipv6 dst'" "\<exists>as. addrs = Some as \<and> dst' \<in> set as" "egress_allowed ops (ap_egress_filter s) (sa_ip dst')"
    by (auto simp: resolve_dst_eq split: option.splits if_splits dest: first_permittedD)
  obtain src' where src: "pick_outgoing sip pools b (sa_ip peer) (sa_ip dst') (sa_port peer) port = Some (Some src')"
    using assms dst by (auto simp: tcp_resolved_def split: option.splits)
  have "TcpConnect src dst \<in> set (snd (bind_and_connect io src' dst')) \<union> set (snd (copy_bidirectional io))"
    using assms dst src by (auto simp: tcp_resolved_def Let_def split: prod.splits sum.splits)
  then have "src = src'" "dst = dst'"
    using bind_and_connect_events copy_events by blast+
  then show ?thesis using ok src by simp
qed

text \<open>The handler is its parts run one after the other, with what other tasks do at the two waiting points.\<close>

lemma handle_tcp_parts:
  "handle_tcp ops sip pools io peer port s =
     (case peer_binding (ci_now io) (sa_ip peer) s of
        (b, s1) \<Rightarrow>
          (case tcp_peeked (ci_peek io) b peer port (ci_after_peek io s1) of
             (Some (Inr (Some (TcpResolving b peer port host))), tr, s2) \<Rightarrow>
               (case tcp_resolved ops sip pools (ci_dns io (lookup_text host port)) io b peer port host
                       (ci_after_dns io s2) of
                  (r, tr', s3) \<Rightarrow> (r, tr @ tr', s3))
           | (r, tr, s2) \<Rightarrow> (map_option (map_sum id (\<lambda>t. ())) r, tr, s2)))"
proof -
  obtain b s1 where b: "peer_binding (ci_now io) (sa_ip peer) s = (b, s1)" by fastforce
  obtain r where r: "peek_sni_or_host (ci_peek io) port = Some r" using peek_total by blast
  show ?thesis
  proof (cases r)
    case (Inl e)
    then show ?thesis by (simp add: handle_tcp_def tcp_peeked_def b r)
  next
    case (Inr x)
    then obtain data host where x: "r = Inr (data, host)" by (cases x) simp
    show ?thesis
    proof (cases host)
      case None
      then show ?thesis by (simp add: handle_tcp_def tcp_peeked_def b r x)
    next
      case (Some h)
      obtain ok s2 where ok: "admit_host h (ci_after_peek io s1) = (ok, s2)" by fastforce
      obtain dst s3 where dst: "resolve_dst ops (ci_dns io (lookup_text h port)) h (ci_after_dns io s2) = (dst, s3)"
        by fastforce
      show ?thesis
        by (cases ok; cases dst)
           (simp_all add: handle_tcp_def tcp_peeked_def tcp_resolved_def b r x Some ok dst Let_def
             split: option.splits prod.splits sum.splits)
    qed
  qed
qed

end
