(* ===== verification/Process.thy ===== *)
theory Process
  imports Proxy TcpTasks
begin

text \<open>
  The whole process: the statics, the tasks of the admin API, the tasks of the TCP connections and the
  QUIC listener with its tasks, all interleaved at their waiting points. A step is the arrival of a
  request or of a connection, one step of one task (of the admin API: one that need not wait for the
  write lock), or a step of the listener. Every step is a step of
  the listener's relation, so what holds of its runs holds here, and the tasks of the admin API run as
  in \<open>ApiRuns\<close>.
\<close>

section \<open>The process\<close>

record 'net process = "'net listener" +
  pc_api :: "'net task list"
  pc_tcp :: "tcp_task list"
  pc_log :: "(tcp_task \<times> event) list"

record 'net process_world =
  pw_api :: "'net api_world"
  pw_quic :: "'net quic_world"

abbreviation (input) pw_nets :: "'net process_world \<Rightarrow> 'net ipnet_ops" where
  "pw_nets w \<equiv> api_nets (aw_api (pw_api w))"

text \<open>A TCP task comes to a result: it waits again, or it has ended. What it asked of the network is
  logged with the task that asked.\<close>

definition tcp_done ::
  "nat \<Rightarrow> tcp_task option \<Rightarrow> event list \<Rightarrow> ('net, 'a) process_scheme \<Rightarrow> ('net, 'a) process_scheme" where
  "tcp_done i t tr s =
     s\<lparr>pc_tcp := take i (pc_tcp s) @ drop (Suc i) (pc_tcp s) @ (case t of None \<Rightarrow> [] | Some t \<Rightarrow> [t]),
       pc_log := pc_log s @ map (Pair (pc_tcp s ! i)) tr\<rparr>"

definition next_of :: "(dp_error + tcp_task option) run \<Rightarrow> tcp_task option" where
  "next_of r = (case r of Some (Inr t) \<Rightarrow> t | _ \<Rightarrow> None)"

definition tasks_part :: "('net, 'a) process_scheme \<Rightarrow> 'net task list \<times> tcp_task list \<times> (tcp_task \<times> event) list" where
  "tasks_part s = (pc_api s, pc_tcp s, pc_log s)"

inductive process_step ::
  "'net process_world \<Rightarrow> ('net, 'a) process_scheme \<Rightarrow> ('net, 'a) process_scheme \<Rightarrow> bool"
  for w where
  request: "process_step w s (s\<lparr>pc_api := pc_api s @ [Arrived rq]\<rparr>)"
| api: "i < length (pc_api s) \<Longrightarrow> env_ok env \<Longrightarrow> lock_free (pc_api s ! i) (pc_api s)
     \<Longrightarrow> task_step (aw_api (pw_api w)) (aw_argon (pw_api w)) (aw_tokens (pw_api w)) env (pc_api s ! i) s = (t, s')
     \<Longrightarrow> process_step w s (s'\<lparr>pc_api := (pc_api s)[i := t]\<rparr>)"
| connection: "peer_binding now (sa_ip peer) s = (b, s')
     \<Longrightarrow> process_step w s (s'\<lparr>pc_tcp := pc_tcp s @ [TcpPeeking b peer port]\<rparr>)"
| peeked: "i < length (pc_tcp s) \<Longrightarrow> pc_tcp s ! i = TcpPeeking b peer port
     \<Longrightarrow> tcp_peeked outcome b peer port s = (r, tr, s')
     \<Longrightarrow> process_step w s (tcp_done i (next_of r) tr s')"
| resolved: "i < length (pc_tcp s) \<Longrightarrow> pc_tcp s ! i = TcpResolving b peer port host
     \<Longrightarrow> qw_dns (pw_quic w) (lookup_text host port) addrs
     \<Longrightarrow> tcp_resolved (pw_nets w) (qw_sip (pw_quic w)) (qw_pools (pw_quic w)) addrs (io :: unit conn_io) b peer port host s = (r, tr, s')
     \<Longrightarrow> process_step w s (tcp_done i None tr s')"
| quic: "quic_step (pw_quic w) s s' \<Longrightarrow> published s' = published s \<Longrightarrow> pr_fs s' = pr_fs s
     \<Longrightarrow> tasks_part s' = tasks_part s \<Longrightarrow> process_step w s s'"

abbreviation process_steps ::
  "'net process_world \<Rightarrow> ('net, 'a) process_scheme \<Rightarrow> ('net, 'a) process_scheme \<Rightarrow> bool" where
  "process_steps w \<equiv> (process_step w)\<^sup>*\<^sup>*"

definition fresh_process :: "('net, 'a) process_scheme \<Rightarrow> bool" where
  "fresh_process s \<longleftrightarrow> fresh_listener s \<and> pc_api s = [] \<and> pc_tcp s = [] \<and> pc_log s = []"

section \<open>Frames\<close>

lemma peer_binding_stored: "stored (snd (peer_binding now ip s)) = stored s"
  by (simp add: peer_binding_def default_stored split: option.splits)

lemma data_plane_stored:
  "published (snd (admit_host host s)) = published s" "pr_fs (snd (admit_host host s)) = pr_fs s"
  "app.more (snd (admit_host host s)) = app.more s"
  "published (snd (resolve_dst ops addrs host s)) = published s" "pr_fs (snd (resolve_dst ops addrs host s)) = pr_fs s"
  "app.more (snd (resolve_dst ops addrs host s)) = app.more s"
  by (auto simp: admit_host_def note_domain_blocked_def note_egress_blocked_def
      resolve_dst_def Let_def published_def split: option.splits)

lemma tcp_frames:
  "published (snd (snd (tcp_peeked outcome b peer port s))) = published s"
  "pr_fs (snd (snd (tcp_peeked outcome b peer port s))) = pr_fs s"
  "app.more (snd (snd (tcp_peeked outcome b peer port s))) = app.more s"
  "published (snd (snd (tcp_resolved ops sip pools addrs io b peer port host s))) = published s"
  "pr_fs (snd (snd (tcp_resolved ops sip pools addrs io b peer port host s))) = pr_fs s"
  "app.more (snd (snd (tcp_resolved ops sip pools addrs io b peer port host s))) = app.more s"
  by (simp_all add: tcp_peeked_def tcp_resolved_def data_plane_stored case_prod_beta Let_def
      split: option.splits sum.splits)

lemma more_parts:
  fixes s :: "('net, 'a) process_scheme"
  assumes "app.more s' = app.more s"
  shows "listener_part s' = listener_part s" "tasks_part s' = tasks_part s"
  using assms by (cases s; cases s'; simp add: listener_part_def tasks_part_def)+

text \<open>The steps of the tasks in the form in which the relation has them.\<close>

lemma step_frames:
  fixes s :: "('net, 'a) process_scheme"
  shows "task_step api argon tokens env t0 s = (t, s') \<Longrightarrow>
      listener_part s' = listener_part s \<and> tasks_part s' = tasks_part s"
    and "peer_binding now ip s = (b, s') \<Longrightarrow>
      listener_part s' = listener_part s \<and> tasks_part s' = tasks_part s \<and> published s' = published s \<and> pr_fs s' = pr_fs s"
    and "tcp_peeked outcome b peer port s = (r, tr, s') \<Longrightarrow>
      listener_part s' = listener_part s \<and> tasks_part s' = tasks_part s \<and> published s' = published s \<and> pr_fs s' = pr_fs s"
    and "tcp_resolved ops sip pools addrs io b peer port host s = (u, tr, s') \<Longrightarrow>
      listener_part s' = listener_part s \<and> tasks_part s' = tasks_part s \<and> published s' = published s \<and> pr_fs s' = pr_fs s"
proof -
  assume run: "task_step api argon tokens env t0 s = (t, s')"
  have "app.more s' = app.more s" using task_step_more [of api argon tokens env t0 s, unfolded run snd_conv] .
  then show "listener_part s' = listener_part s \<and> tasks_part s' = tasks_part s" using more_parts [of s' s] by blast
next
  assume run: "peer_binding now ip s = (b, s')"
  have "stored s' = stored s" using peer_binding_stored [of now ip s, unfolded run snd_conv] .
  then show "listener_part s' = listener_part s \<and> tasks_part s' = tasks_part s \<and> published s' = published s \<and> pr_fs s' = pr_fs s"
    using more_parts [of s' s] unfolding stored_def by blast
next
  assume run: "tcp_peeked outcome b peer port s = (r, tr, s')"
  show "listener_part s' = listener_part s \<and> tasks_part s' = tasks_part s \<and> published s' = published s \<and> pr_fs s' = pr_fs s"
    using tcp_frames(1-3) [of outcome b peer port s, unfolded run snd_conv] more_parts [of s' s] by blast
next
  assume run: "tcp_resolved ops sip pools addrs io b peer port host s = (u, tr, s')"
  show "listener_part s' = listener_part s \<and> tasks_part s' = tasks_part s \<and> published s' = published s \<and> pr_fs s' = pr_fs s"
    using tcp_frames(4-6) [of ops sip pools addrs io b peer port host s, unfolded run snd_conv] more_parts [of s' s] by blast
qed

lemma tcp_done_frames [simp]:
  "published (tcp_done i t tr s) = published s" "pr_fs (tcp_done i t tr s) = pr_fs s"
  "listener_part (tcp_done i t tr s) = listener_part s" "pc_api (tcp_done i t tr s) = pc_api s"
  "pc_log (tcp_done i t tr s) = pc_log s @ map (Pair (pc_tcp s ! i)) tr"
  by (simp_all add: tcp_done_def published_def listener_part_def)

lemma tcp_done_tasks: "u \<in> set (pc_tcp (tcp_done i t tr s)) \<Longrightarrow> u \<in> set (pc_tcp s) \<or> t = Some u"
  by (auto simp: tcp_done_def dest: in_set_takeD in_set_dropD split: option.splits)

text \<open>The update of a list of tasks is none of the statics.\<close>

lemma task_lists [simp]:
  "published (s\<lparr>pc_api := x\<rparr>) = published s" "listener_part (s\<lparr>pc_api := x\<rparr>) = listener_part s"
  "published (s\<lparr>pc_tcp := y\<rparr>) = published s" "listener_part (s\<lparr>pc_tcp := y\<rparr>) = listener_part s"
  by (simp_all add: published_def listener_part_def)

section \<open>Every step is a step of its parts\<close>

lemma process_step_quic:
  assumes "process_step w s s'"
  shows "quic_step (pw_quic w) s s'"
  using assms
proof cases
  case quic
  then show ?thesis by blast
qed (intro quic_step.admin, auto dest: step_frames)+

lemma process_step_moves:
  assumes "process_step w s s'"
  shows "idle_move s (pc_api s) s' (pc_api s') \<or> task_move (pw_api w) s (pc_api s) s' (pc_api s')"
  using assms
proof cases
  case (request rq)
  have "idle_move s (pc_api s) (s\<lparr>pc_api := pc_api s @ [Arrived rq]\<rparr>) (pc_api s @ [Arrived rq])"
    unfolding idle_move_def by (intro conjI exI [of _ "[rq]"]) simp_all
  then show ?thesis unfolding request by simp
next
  case (api i env t s1)
  have "task_move (pw_api w) s (pc_api s) (s1\<lparr>pc_api := (pc_api s)[i := t]\<rparr>) ((pc_api s)[i := t])"
    unfolding task_move_def using api by (intro exI [of _ i] exI [of _ env] exI [of _ t] exI [of _ s1]) simp
  then show ?thesis unfolding api(1) by simp
next
  case (connection now peer b s1 port)
  from step_frames(2) [OF connection(2)] show ?thesis
    unfolding connection(1) by (auto simp: idle_move_def tasks_part_def)
next
  case (peeked i b peer port outcome r tr s1)
  from step_frames(3) [OF peeked(4)] show ?thesis
    unfolding peeked(1) by (auto simp: idle_move_def tasks_part_def)
next
  case (resolved i b peer port host addrs io r tr s1)
  from step_frames(4) [OF resolved(5)] show ?thesis
    unfolding resolved(1) by (auto simp: idle_move_def tasks_part_def)
qed (auto simp: idle_move_def tasks_part_def)

interpretation whole: api_run "process_step w" "\<lambda>s. s" pc_api "pw_api w" for w
  by unfold_locales (rule process_step_moves)

section \<open>What a TCP task has passed\<close>

text \<open>A waiting task: the binding is the one that its peer had, the name is one that the filter allowed.\<close>

definition tcp_task_ok ::
  "'net process_world \<Rightarrow> ('net, 'a) process_scheme \<Rightarrow> ('net, 'a) process_scheme \<Rightarrow> tcp_task \<Rightarrow> bool" where
  "tcp_task_ok w s0 s t =
     (case t of
        TcpPeeking b peer port \<Rightarrow>
          once (process_step w) s0 s (\<lambda>x. \<exists>now. fst (peer_binding now (sa_ip peer) x) = b)
      | TcpResolving b peer port host \<Rightarrow>
          once (process_step w) s0 s (\<lambda>x. \<exists>now. fst (peer_binding now (sa_ip peer) x) = b)
          \<and> length host \<le> 65535
          \<and> once (process_step w) s0 s (\<lambda>x. host_allowed (ap_domain_filter x) host))"

text \<open>A connection that was made: its task was in order, and the address is one that the filter allowed.\<close>

definition tcp_connect_ok ::
  "'net process_world \<Rightarrow> ('net, 'a) process_scheme \<Rightarrow> ('net, 'a) process_scheme \<Rightarrow> tcp_task \<times> event \<Rightarrow> bool" where
  "tcp_connect_ok w s0 s e =
     (case e of
        (TcpResolving b peer port host, TcpConnect src dst) \<Rightarrow>
          tcp_task_ok w s0 s (TcpResolving b peer port host)
          \<and> is_ipv6 dst \<and> sa_port dst = port
          \<and> pick_outgoing (qw_sip (pw_quic w)) (qw_pools (pw_quic w)) b (sa_ip peer) (sa_ip dst) (sa_port peer) port
              = Some (Some src)
          \<and> once (process_step w) s0 s (\<lambda>x. egress_allowed (pw_nets w) (ap_egress_filter x) (sa_ip dst))
      | (TcpPeeking b peer port, TcpConnect src dst) \<Rightarrow> False
      | _ \<Rightarrow> True)"

definition tcp_ok :: "'net process_world \<Rightarrow> ('net, 'a) process_scheme \<Rightarrow> ('net, 'a) process_scheme \<Rightarrow> bool" where
  "tcp_ok w s0 s \<longleftrightarrow>
     (\<forall>t \<in> set (pc_tcp s). tcp_task_ok w s0 s t) \<and> (\<forall>e \<in> set (pc_log s). tcp_connect_ok w s0 s e)"

lemma tcp_ok_later:
  assumes "process_step w s s'"
  shows "tcp_task_ok w s0 s t \<Longrightarrow> tcp_task_ok w s0 s' t"
    and "tcp_connect_ok w s0 s e \<Longrightarrow> tcp_connect_ok w s0 s' e"
proof -
  have later: "once (process_step w) s0 s P \<Longrightarrow> once (process_step w) s0 s' P" for P
    using once_later assms by (metis r_into_rtranclp)
  show task: "tcp_task_ok w s0 s t \<Longrightarrow> tcp_task_ok w s0 s' t" for t
    using later by (auto simp: tcp_task_ok_def split: tcp_task.splits)
  show "tcp_connect_ok w s0 s e \<Longrightarrow> tcp_connect_ok w s0 s' e"
    using later task by (auto simp: tcp_connect_ok_def split: prod.splits tcp_task.splits event.splits)
qed

lemma tcp_ok_same:
  assumes "process_step w s s'" "tcp_ok w s0 s" "pc_log s' = pc_log s"
    and "\<And>t. t \<in> set (pc_tcp s') \<Longrightarrow> t \<in> set (pc_tcp s) \<or> tcp_task_ok w s0 s' t"
  shows "tcp_ok w s0 s'"
  using assms tcp_ok_later [OF assms(1), of s0] unfolding tcp_ok_def by metis

lemma tcp_ok_step:
  assumes world: "world_ok (pw_quic w)" and run: "process_steps w s0 s" and ok: "tcp_ok w s0 s"
    and step: "process_step w s s'"
  shows "tcp_ok w s0 s'"
  using step
proof cases
  case (request rq)
  then show ?thesis using tcp_ok_same [OF step ok] by simp
next
  case (api i env t s1)
  from step_frames(1) [OF api(5)] show ?thesis
    using tcp_ok_same [OF step ok] api(1) by (simp add: tasks_part_def)
next
  case (connection now peer b s1 port)
  have past: "once (process_step w) s0 s' P" if "P s" for P
    using that run step unfolding once_def by (meson r_into_rtranclp)
  have new: "tcp_task_ok w s0 s' (TcpPeeking b peer port)"
    unfolding tcp_task_ok_def tcp_task.case by (rule past) (use connection(2) in \<open>metis fst_conv\<close>)
  have "pc_log s1 = pc_log s" using step_frames(2) [OF connection(2)] by (simp add: tasks_part_def)
  then have log: "pc_log s' = pc_log s" and tasks: "pc_tcp s' = pc_tcp s @ [TcpPeeking b peer port]"
    by (simp_all add: connection(1))
  show ?thesis
    by (rule tcp_ok_same [OF step ok log]) (use new in \<open>auto simp: tasks\<close>)
next
  case (peeked i b peer port outcome r tr s1)
  have past: "once (process_step w) s0 s' P" if "P s" for P
    using that run step unfolding once_def by (meson r_into_rtranclp)
  have same: "pc_tcp s1 = pc_tcp s" "pc_log s1 = pc_log s"
    using step_frames(3) [OF peeked(4)] by (simp_all add: tasks_part_def)
  have "tcp_task_ok w s0 s (TcpPeeking b peer port)" using ok peeked(2,3) by (metis nth_mem tcp_ok_def)
  then have old: "tcp_task_ok w s0 s' (TcpPeeking b peer port)" by (rule tcp_ok_later(1) [OF step])
  have new: "tcp_task_ok w s0 s' t" if t: "next_of r = Some t" for t
  proof -
    have "tcp_peeked outcome b peer port s = (Some (Inr (Some t)), tr, s1)"
      using peeked(4) t by (auto simp: next_of_def split: option.splits sum.splits)
    then obtain data host where h: "peek_sni_or_host outcome port = Some (Inr (data, Some host))"
      "host_allowed (ap_domain_filter s) host" "t = TcpResolving b peer port host"
      by (rule tcp_peeked_goes_on)
    then show ?thesis using old past [of "\<lambda>x. host_allowed (ap_domain_filter x) host"] peek_host_length [OF h(1)]
      by (simp add: tcp_task_ok_def)
  qed
  have "TcpConnect src dst \<notin> set tr" for src dst
    using tcp_peeked_events [of src dst outcome b peer port s] peeked(4) by simp
  then have "tcp_connect_ok w s0 s' e" if "e \<in> set (map (Pair (pc_tcp s1 ! i)) tr)" for e
    using that by (auto simp: tcp_connect_ok_def split: tcp_task.splits event.splits)
  then show ?thesis
    using ok new tcp_ok_later [OF step, of s0] same tcp_done_tasks [of _ i "next_of r" tr s1]
    unfolding peeked(1) tcp_ok_def by fastforce
next
  case (resolved i b peer port host addrs io r tr s1)
  have past: "once (process_step w) s0 s' P" if "P s" for P
    using that run step unfolding once_def by (meson r_into_rtranclp)
  have same: "pc_tcp s1 = pc_tcp s" "pc_log s1 = pc_log s"
    using step_frames(4) [OF resolved(5)] by (simp_all add: tasks_part_def)
  have "tcp_task_ok w s0 s (TcpResolving b peer port host)" using ok resolved(2,3) by (metis nth_mem tcp_ok_def)
  then have old: "tcp_task_ok w s0 s' (TcpResolving b peer port host)" by (rule tcp_ok_later(1) [OF step])
  have new: "tcp_connect_ok w s0 s' (TcpResolving b peer port host, e)" if e: "e \<in> set tr" for e
  proof (cases e)
    case (TcpConnect src dst)
    note c = tcp_resolved_connects [OF resolved(5) e [unfolded TcpConnect]]
    have "sa_port dst = port" using c resolved(4) world by (auto simp: world_ok_def dns_ports_def)
    then show ?thesis
      using old c past [of "\<lambda>x. egress_allowed (pw_nets w) (ap_egress_filter x) (sa_ip dst)"]
      by (simp add: tcp_connect_ok_def TcpConnect)
  qed (simp_all add: tcp_connect_ok_def)
  then show ?thesis
    using ok tcp_ok_later [OF step, of s0] same resolved(3) tcp_done_tasks [of _ i None tr s1]
    unfolding resolved(1) tcp_ok_def by fastforce
next
  case quic
  then show ?thesis using tcp_ok_same [OF step ok] by (simp add: tasks_part_def)
qed

lemma process_steps_tcp:
  assumes "process_steps w s0 s" "world_ok (pw_quic w)" "fresh_process s0"
  shows "tcp_ok w s0 s"
  using assms(1)
proof (induction rule: rtranclp_induct)
  case base
  then show ?case using assms(3) by (simp add: tcp_ok_def fresh_process_def)
next
  case (step s1 s2)
  then show ?case using tcp_ok_step [OF assms(2)] by blast
qed

lemma process_steps_quic: "process_steps w s s' \<Longrightarrow> quic_steps (pw_quic w) s s'"
  by (induction rule: rtranclp_induct) (auto intro: rtranclp.rtrancl_into_rtrancl process_step_quic)

section \<open>From the network back to the policy\<close>

text \<open>A destination that the process used: a TCP connection, or a session for QUIC.\<close>

definition used :: "('net, 'a) process_scheme \<Rightarrow> string \<Rightarrow> u16 \<Rightarrow> u128 \<Rightarrow> socket_addr \<Rightarrow> bool" where
  "used s host port src dst \<longleftrightarrow>
     (\<exists>b peer. (TcpResolving b peer port host, TcpConnect src dst) \<in> set (pc_log s))
     \<or> port = 443 \<and> (\<exists>peer n. Forwarding peer host n src dst \<in> set (ls_trace s))"

text \<open>The filters that were asked allowed it, each at some moment of the run.\<close>

lemma used_filters:
  assumes world: "world_ok (pw_quic w)" "crypto_laws (qw_crypto (pw_quic w))" "qw_nets (pw_quic w) = pw_nets w"
    and s0: "fresh_process s0" and run: "process_steps w s0 s" and used: "used s host port src dst"
  shows "length host \<le> 65535 \<and> once (process_step w) s0 s (\<lambda>x. host_allowed (ap_domain_filter x) host)
    \<and> once (process_step w) s0 s (\<lambda>x. egress_allowed (pw_nets w) (ap_egress_filter x) (sa_ip dst))
    \<and> is_ipv6 dst \<and> sa_port dst = port \<and> (\<exists>p \<in> set (qw_pools (pw_quic w)). leaves_from p src)"
proof (cases "\<exists>b peer. (TcpResolving b peer port host, TcpConnect src dst) \<in> set (pc_log s)")
  case True
  then obtain b peer where "tcp_connect_ok w s0 s (TcpResolving b peer port host, TcpConnect src dst)"
    using process_steps_tcp [OF run world(1) s0] by (auto simp: tcp_ok_def)
  then have c: "tcp_task_ok w s0 s (TcpResolving b peer port host)" "is_ipv6 dst" "sa_port dst = port"
    "pick_outgoing (qw_sip (pw_quic w)) (qw_pools (pw_quic w)) b (sa_ip peer) (sa_ip dst) (sa_port peer) port
       = Some (Some src)"
    "once (process_step w) s0 s (\<lambda>x. egress_allowed (pw_nets w) (ap_egress_filter x) (sa_ip dst))"
    by (simp_all add: tcp_connect_ok_def)
  have "qw_pools (pw_quic w) \<noteq> []" using c(4) by (auto simp: pick_outgoing_def)
  then obtain p k where "p \<in> set (qw_pools (pw_quic w))" "src = host_at p k"
    using c(4) pick_outgoing_cases by (metis option.inject)
  then have "\<exists>p \<in> set (qw_pools (pw_quic w)). leaves_from p src"
    using world(1) host_at_leaves_from unfolding world_ok_def by blast
  then show ?thesis using c by (simp add: tcp_task_ok_def)
next
  case False
  then obtain peer n where port: "port = 443" and f: "Forwarding peer host n src dst \<in> set (ls_trace s)"
    using used by (auto simp: used_def)
  have fresh: "fresh_listener s0" using s0 by (simp add: fresh_process_def)
  have "guarded_in_run (process_step w) (pw_quic w) s0 s host dst"
    using run_guarded [OF run fresh, of "pw_quic w"] process_step_quic f by blast
  then obtain s1 s2 data where g: "process_steps w s0 s1" "process_steps w s1 s2" "process_steps w s2 s"
    "extract_quic_sni (qw_crypto (pw_quic w)) data = Some (Some host)"
    "host_allowed (ap_domain_filter s1) host" "egress_allowed (pw_nets w) (ap_egress_filter s2) (sa_ip dst)"
    unfolding guarded_in_run_def world(3) by blast
  have "listener_ok (qw_pools (pw_quic w)) s"
    using quic_steps_ok [OF process_steps_quic [OF run] world(1) fresh] .
  then have "is_ipv6 dst" "sa_port dst = 443" "\<exists>p \<in> set (qw_pools (pw_quic w)). leaves_from p src"
    using f unfolding listener_ok_def forwarding_ok_def by blast+
  then show ?thesis
    using g sni_length [OF world(2) g(4)] port unfolding once_def by (metis rtranclp_trans)
qed

lemma once_once: "once R s0 s P \<Longrightarrow> (\<And>x. R\<^sup>*\<^sup>* s0 x \<Longrightarrow> P x \<Longrightarrow> once R s0 x Q) \<Longrightarrow> once R s0 s Q"
  unfolding once_def by (meson rtranclp_trans)

text \<open>And so some policy of the run allowed it.\<close>

lemma used_policy:
  assumes world: "world_ok (pw_quic w)" "crypto_laws (qw_crypto (pw_quic w))" "qw_nets (pw_quic w) = pw_nets w"
    and laws: "ipnet_laws (pw_nets w)" and s0: "fresh_process s0" "server_wf (pw_nets w) s0"
    and run: "process_steps w s0 s" and used: "used s host port src dst"
  shows "once (process_step w) s0 s (\<lambda>x. domain_policy_allows x host)
    \<and> once (process_step w) s0 s (\<lambda>x. egress_policy_allows (pw_nets w) x (sa_ip dst))"
proof -
  have empty: "list_all (\<lambda>t. \<exists>rq. t = Arrived rq) (pc_api s0)" using s0(1) by (simp add: fresh_process_def)
  note allowed = whole.published_allows [OF laws _ s0(2) empty]
  show ?thesis
    using used_filters [OF world s0(1) run used] once_once [of "process_step w" s0 s] allowed by blast
qed

section \<open>An example run\<close>

definition running :: "'net app \<Rightarrow> 'net process" where
  "running a = app.extend a
     \<lparr>ls_clock = 0, ls_sessions = (\<lambda>k. None), ls_sockets = [], ls_tasks = [], ls_trace = [],
      pc_api = [], pc_tcp = [], pc_log = []\<rparr>"

lemma running_simps [simp]:
  "app.truncate (running a) = a" "fresh_process (running a)"
  "ap_domain_filter (running a) = ap_domain_filter a" "ap_egress_filter (running a) = ap_egress_filter a"
  "pc_tcp (running a) = []" "pc_log (running a) = []"
  by (simp_all add: running_def app.defs fresh_process_def fresh_listener_def)

definition web_world :: "v6_pool list \<Rightarrow> (ip_addr \<times> u8) tokens \<Rightarrow> (ip_addr \<times> u8) process_world" where
  "web_world pools tokens =
     \<lparr>pw_api = \<lparr>aw_api = example_api, aw_argon = example_argon, aw_tokens = tokens\<rparr>,
      pw_quic = (open_world pools)\<lparr>qw_dns := (\<lambda>t a. t = lookup_text ''a.b'' 80 \<and> a = Some [example_dst])\<rparr>\<rparr>"

definition web_io :: "unit conn_io" where
  "web_io =
     \<lparr>ci_now = 0, ci_peek = Peeked example_http, ci_after_peek = id, ci_dns = (\<lambda>t. None), ci_after_dns = id,
      ci_socket = True, ci_freebind = True, ci_bind = True, ci_connect = True, ci_copy = Some (10, 20)\<rparr>"

abbreviation (input) web_peer :: socket_addr where
  "web_peer \<equiv> \<lparr>sa_ip = IpV4 1, sa_port = 5\<rparr>"

text \<open>A connection to a web site, from the accept to the copy.\<close>

lemma example_tcp_run:
  assumes "host_allowed (ap_domain_filter a) ''a.b''" "egress_allowed plain_ops (ap_egress_filter a) (sa_ip example_dst)"
    and "pools \<noteq> []"
  shows "\<exists>s src. process_steps (web_world pools tokens) (running a) s \<and> used s ''a.b'' 80 src example_dst"
proof -
  let ?w = "web_world pools tokens" and ?s0 = "running a"
  obtain b s1 where b: "peer_binding 0 (IpV4 1) ?s0 = (b, s1)" by fastforce
  let ?peeking = "TcpPeeking b web_peer 80" and ?resolving = "TcpResolving b web_peer 80 ''a.b''"
  define p1 where "p1 = s1\<lparr>pc_tcp := [?peeking]\<rparr>"
  note frames = step_frames(2) [OF b]
  have filters: "ap_domain_filter p1 = ap_domain_filter a" "ap_egress_filter p1 = ap_egress_filter a" "pc_log p1 = []"
    using frames by (simp_all add: p1_def published_def tasks_part_def)
  have "process_step ?w ?s0 p1"
    using process_step.connection [of 0 web_peer ?s0 b s1 ?w 80] b by (simp add: p1_def)
  moreover have "tcp_peeked (Peeked example_http) b web_peer 80 p1
      = (Some (Inr (Some ?resolving)), [Lookup (lookup_text ''a.b'' 80)], p1)"
    using example_peek assms(1) filters(1) by (simp add: tcp_peeked_def admit_host_def example_io_def)
  then have "process_step ?w p1 (tcp_done 0 (Some ?resolving) [Lookup (lookup_text ''a.b'' 80)] p1)"
    using process_step.peeked [of 0 p1 b web_peer 80] by (force simp: p1_def next_of_def)
  moreover define p2 where "p2 = tcp_done 0 (Some ?resolving) [Lookup (lookup_text ''a.b'' 80)] p1"
  have p2: "pc_tcp p2 = [?resolving]" "ap_egress_filter p2 = ap_egress_filter a"
    using filters(2) by (simp_all add: p2_def tcp_done_def p1_def)
  obtain src where src: "pick_outgoing example_sip pools b (IpV4 1) (sa_ip example_dst) 5 80 = Some (Some src)"
    using pick_outgoing_cases [OF assms(3)] by metis
  have "first_permitted plain_ops (ap_egress_filter a) [example_dst] = Some example_dst"
    using assms(2) by (simp add: first_permitted_def is_ipv6_def example_dst_def)
  then have "tcp_resolved plain_ops example_sip pools (Some [example_dst]) web_io b web_peer 80 ''a.b'' p2
      = (Some (Inr ()), [TcpBind src, TcpConnect src example_dst, TcpCopy 10 20], p2)"
    using src by (simp add: tcp_resolved_def resolve_dst_eq p2(2) bind_and_connect_def copy_bidirectional_def
        web_io_def example_dst_def)
  then have "process_step ?w p2 (tcp_done 0 None [TcpBind src, TcpConnect src example_dst, TcpCopy 10 20] p2)"
    using process_step.resolved [of 0 p2 b web_peer 80 "''a.b''" ?w "Some [example_dst]" web_io] p2(1)
    by (simp add: web_world_def open_world_def)
  moreover have "used (tcp_done 0 None [TcpBind src, TcpConnect src example_dst, TcpCopy 10 20] p2) ''a.b'' 80 src example_dst"
    by (auto simp: used_def p2(1))
  ultimately show ?thesis
    unfolding p2_def [symmetric] by (meson converse_rtranclp_into_rtranclp rtranclp.rtrancl_refl)
qed

end
