(* ===== verification/Cli.thy ===== *)
theory Cli
  imports Startup
begin

text \<open>
  The program as a whole (\<open>main\<close> of \<open>src/main.rs\<close>): what the command line selects, the settings of the
  log, and the runs of \<open>init\<close>, of the check mode and of the server up to the point where it waits for
  its end. The starter configuration that \<open>init\<close> writes is the document of
  \<open>deploy/examples/config.toml\<close>; the parser that reads the text is a parameter.
\<close>

section \<open>The command line\<close>

datatype command = Init bool

record cli =
  cl_config :: string
  cl_check_config :: bool
  cl_log_format :: "log_format option"
  cl_command :: "command option"

text \<open>Filter and format of the log: the environment wins over the configured level, the command line over
  the configured format.\<close>

definition init_logging :: "string option \<Rightarrow> log_format option \<Rightarrow> log_config \<Rightarrow> string \<times> log_format" where
  "init_logging env_filter cli_format log =
     (case env_filter of None \<Rightarrow> lc_level log | Some f \<Rightarrow> f,
      case cli_format of None \<Rightarrow> lc_format log | Some f \<Rightarrow> f)"

section \<open>The run of the program\<close>

datatype main_error =
  InitFailed init_error
| LoadFailed config_error
| StartupFailed startup_error

text \<open>How the process ends once it serves: the task of the admin API ends, or the operator stops it.\<close>

datatype main_end = AdminExited | Interrupted

datatype ('net, 's) main_done = ConfigInitialized | ConfigOk | Served "'net loaded_config" 's main_end

record main_io =
  mi_env_filter :: "string option"
  mi_mkdir :: "string \<Rightarrow> bool"
  mi_write :: bool
  mi_part :: "string option"
  mi_read :: bool
  mi_startup :: startup_io
  mi_end :: main_end

text \<open>One run of the process over the file system it finds: the result, the log settings, the events of
  the startup, and the file system it leaves to the run.\<close>

definition main_run ::
  "'net ipnet_ops \<Rightarrow> codec \<Rightarrow> (string \<Rightarrow> (string \<times> toml) list option) \<Rightarrow> string \<Rightarrow> main_io \<Rightarrow> cli
     \<Rightarrow> timestamp \<Rightarrow> fs
     \<Rightarrow> (main_error + ('net, 'net app) main_done) run \<times> (string \<times> log_format) option
        \<times> startup_event list \<times> fs" where
  "main_run ops c parse default_config io cli now fs =
     (let path = path_of (cl_config cli) in
      case cl_command cli of
        Some (Init force) \<Rightarrow>
          (let log = init_logging (mi_env_filter io) (cl_log_format cli) log_config_default;
               (r, fs') = init_config default_config (mi_mkdir io) (mi_write io) (mi_part io) path force fs
           in (ret (case r of Inl e \<Rightarrow> Inl (InitFailed e) | Inr u \<Rightarrow> Inr ConfigInitialized), Some log, [], fs'))
      | None \<Rightarrow>
          (case config_load parse (mi_read io) path fs of
             Inl e \<Rightarrow> (ret (Inl (LoadFailed e)), None, [], fs)
           | Inr cfg \<Rightarrow>
               (let log = init_logging (mi_env_filter io) (cl_log_format cli) (cf_log cfg) in
                if cl_check_config cli
                then (map_option (\<lambda>r. case r of Inl e \<Rightarrow> Inl (StartupFailed e) | Inr u \<Rightarrow> Inr ConfigOk)
                        (check_config ops cfg), Some log, [], fs)
                else (case startup ops c (mi_startup io) cfg (boot now fs) of
                        (None, es) \<Rightarrow> (panic, Some log, es, startup_fs ops (mi_startup io) cfg fs)
                      | (Some (Inl e), es) \<Rightarrow>
                          (ret (Inl (StartupFailed e)), Some log, es, startup_fs ops (mi_startup io) cfg fs)
                      | (Some (Inr (loaded, s)), es) \<Rightarrow>
                          (ret (Inr (Served loaded s (mi_end io))), Some log, es, pr_fs s)))))"

section \<open>The starter configuration\<close>

text \<open>The document of \<open>deploy/examples/config.toml\<close>.\<close>

definition starter_document :: "(string \<times> toml) list" where
  "starter_document =
     [(''admin'', TTable
        [(''bind'', TStr ''127.0.0.1:8787''),
         (''token_hash'', TStr ''$argon2id$v=19$m=19456,t=2,p=1$c29tZXNhbHQ$placeholder''),
         (''allowlist'', TArr [TStr ''127.0.0.1''])]),
      (''data'', TTable
        [(''tcp_binds'', TArr [TStr ''0.0.0.0:80'', TStr ''0.0.0.0:443'', TStr ''[::]:80'', TStr ''[::]:443'']),
         (''udp_binds'', TArr [TStr ''0.0.0.0:443'', TStr ''[::]:443''])]),
      (''paths'', TTable [(''state'', TStr ''/var/lib/v6proxy/policies.json'')]),
      (''log'', TTable [(''level'', TStr ''info''), (''format'', TStr ''text'')]),
      (''policy'', TTable [(''default'', TStr ''src_ip''), (''default_seed'', TInt 0)]),
      (''machine'', TTable [(''v6_pools'', TArr [TStr ''2001:db8:a::/64'', TStr ''2001:db8:b::/48''])]),
      (''egress'', TTable [(''deny'', TArr []), (''allow'', TArr [])]),
      (''domain'', TTable [(''allow'', TArr []), (''deny'', TArr [])])]"

definition starter_config :: config where
  "starter_config =
     \<lparr>cf_admin = \<lparr>ad_bind = ''127.0.0.1:8787'',
        ad_token_hash = ''$argon2id$v=19$m=19456,t=2,p=1$c29tZXNhbHQ$placeholder'', ad_allowlist = [''127.0.0.1'']\<rparr>,
      cf_data = \<lparr>da_tcp_binds = [''0.0.0.0:80'', ''0.0.0.0:443'', ''[::]:80'', ''[::]:443''],
        da_udp_binds = [''0.0.0.0:443'', ''[::]:443'']\<rparr>,
      cf_paths = \<lparr>pa_state = ''/var/lib/v6proxy/policies.json''\<rparr>,
      cf_machine = \<lparr>ma_v6_pools = [''2001:db8:a::/64'', ''2001:db8:b::/48'']\<rparr>,
      cf_policy = \<lparr>pc_default = SrcIp, pc_default_seed = 0\<rparr>,
      cf_egress = \<lparr>ec_allow = [], ec_deny = []\<rparr>, cf_domain = \<lparr>dc_allow = [], dc_deny = []\<rparr>,
      cf_log = \<lparr>lc_level = ''info'', lc_format = LogText\<rparr>\<rparr>"

lemma starter_decodes: "config_of_toml starter_document = Some starter_config"
  by (simp add: config_of_toml_def starter_document_def starter_config_def json_required_def json_defaulted_def
      admin_of_toml_def data_of_toml_def paths_of_toml_def machine_of_toml_def policy_of_toml_def
      egress_of_toml_def domain_of_toml_def log_of_toml_def hash_policy_from_str_def)

lemma starter_entries:
  "\<exists>p. v6_pool_parse ''2001:db8:a::/64'' = Inr p" "\<exists>p. v6_pool_parse ''2001:db8:b::/48'' = Inr p"
  "\<exists>n. parse_net ops ''127.0.0.1'' = Inr n"
  "parse_socket_addr ''127.0.0.1:8787'' \<noteq> None"
  "parse_socket_addr ''0.0.0.0:80'' \<noteq> None" "parse_socket_addr ''0.0.0.0:443'' \<noteq> None"
  "parse_socket_addr ''[::]:80'' \<noteq> None" "parse_socket_addr ''[::]:443'' \<noteq> None"
proof -
  show "\<exists>p. v6_pool_parse ''2001:db8:a::/64'' = Inr p" using example_entries(1) by blast
  show "\<exists>p. v6_pool_parse ''2001:db8:b::/48'' = Inr p"
    by (simp add: v6_pool_parse_def parse_uint_def ip_eval)
  have "parse_ip_addr ''127.0.0.1'' = Some (IpV4 0x7f000001)" by (simp add: ip_eval)
  then show "\<exists>n. parse_net ops ''127.0.0.1'' = Inr n" by (simp add: parse_net_def contains_char_def)
  show "parse_socket_addr ''127.0.0.1:8787'' \<noteq> None" by (simp add: ip_eval)
  show "parse_socket_addr ''0.0.0.0:80'' \<noteq> None" by (simp add: ip_eval)
  show "parse_socket_addr ''0.0.0.0:443'' \<noteq> None" by (simp add: ip_eval)
  show "parse_socket_addr ''[::]:80'' \<noteq> None" using example_entries(5) by simp
  show "parse_socket_addr ''[::]:443'' \<noteq> None" using example_entries(6) by simp
qed

lemma starter_valid: "config_valid ops starter_config"
  using starter_entries(1-3) starter_entries(4-8)
  by (simp add: config_valid_def starter_config_def)

section \<open>What a run does\<close>

text \<open>A valid configuration with a readable state file starts when every bind succeeds.\<close>

lemma startup_succeeds:
  assumes laws: "ipnet_laws ops" and valid: "config_valid ops cfg"
    and dir: "fst (state_dirs io cfg fs)"
    and policies: "load_policies c (su_now io) (su_read io) (path_of (pa_state (cf_paths cfg))) fs = Inr p"
    and binds: "su_bind_admin io" "\<forall>b. su_bind_tcp io b" "\<forall>b. su_bind_udp io b"
  shows "\<exists>l s es. startup ops c io cfg (boot now fs) = (Some (Inr (l, s)), es) \<and> pr_policies s = p"
proof -
  obtain l where l: "validate_config ops cfg = Some (Inr l)"
    using validate_config_total [OF laws, of cfg] valid by blast
  then have lo: "lo_config l = cfg" using validate_config_Inr by blast
  obtain i where i: "init_state ops c io cfg (boot now fs) = Some i" "\<exists>s. i = Inr s"
    "\<forall>s. i = Inr s \<longrightarrow> initialised ops c io cfg fs s"
    using init_state_cases [OF laws, of c io cfg now fs] dir policies by auto
  then obtain s where s: "i = Inr s" "initialised ops c io cfg fs s" by blast
  have b: "(\<forall>b. ok b) \<Longrightarrow> bind_all ok ev bs = (None, map ev bs)" for ok ev and bs :: "string list"
    by (induction bs) simp_all
  have "\<exists>es. start_listeners io l = (Inr (), es)"
    using binds by (simp add: start_listeners_def b Let_def)
  then show ?thesis
    using l lo i(1) s policies by (auto simp: startup_def initialised_def)
qed

text \<open>The three modes.\<close>

lemma init_run:
  assumes run: "main_run ops c parse text io cli now fs = (r, log, es, fs')" and cmd: "cl_command cli = Some (Init force)"
  defines "path \<equiv> path_of (cl_config cli)"
  shows "r \<noteq> None \<and> es = [] \<and> (\<forall>q. q \<noteq> path \<longrightarrow> fs_read fs' q = fs_read fs q)
    \<and> (fs_read fs path \<noteq> None \<and> \<not> force \<longrightarrow> r = Some (Inl (InitFailed (ConfigExists path))) \<and> fs' = fs)
    \<and> (r = Some (Inr ConfigInitialized) \<longrightarrow> fs_read fs' path = Some text)
    \<and> (\<forall>l s e. r \<noteq> Some (Inr (Served l s e)))"
proof -
  obtain u fs1 where u: "init_config text (mi_mkdir io) (mi_write io) (mi_part io) path force fs = (u, fs1)" by fastforce
  then have "r = Some (case u of Inl e \<Rightarrow> Inl (InitFailed e) | Inr x \<Rightarrow> Inr ConfigInitialized)" "es = []" "fs' = fs1"
    using run by (simp_all add: main_run_def cmd path_def Let_def)
  then show ?thesis using init_config_effect [OF u] by (cases u) auto
qed

lemma check_run:
  assumes "ipnet_laws ops" and run: "main_run ops c parse text io cli now fs = (r, log, es, fs')"
    and mode: "cl_command cli = None" "cl_check_config cli"
  shows "r \<noteq> None \<and> es = [] \<and> fs' = fs \<and> (\<forall>l s e. r \<noteq> Some (Inr (Served l s e)))
    \<and> (r = Some (Inr ConfigOk) \<longleftrightarrow>
        (\<exists>cfg. config_load parse (mi_read io) (path_of (cl_config cli)) fs = Inr cfg \<and> config_valid ops cfg))"
proof (cases "config_load parse (mi_read io) (path_of (cl_config cli)) fs")
  case (Inl e)
  then show ?thesis using run mode by (auto simp: main_run_def)
next
  case (Inr cfg)
  obtain v where v: "validate_config ops cfg = Some v" "(\<exists>l. v = Inr l) \<longleftrightarrow> config_valid ops cfg"
    using validate_config_total [OF assms(1), of cfg] by blast
  then show ?thesis using run mode Inr by (cases v) (auto simp: main_run_def check_config_def)
qed

lemma server_run:
  assumes laws: "ipnet_laws ops" and run: "main_run ops c parse text io cli now fs = (r, log, es, fs')"
    and mode: "cl_command cli = None" "\<not> cl_check_config cli"
  shows "r \<noteq> None \<and> ((\<exists>ev \<in> set es. serving ev) \<longrightarrow> (\<exists>l s. r = Some (Inr (Served l s (mi_end io)))))
    \<and> (\<forall>l s e. r = Some (Inr (Served l s e)) \<longrightarrow>
          config_load parse (mi_read io) (path_of (cl_config cli)) fs = Inr (lo_config l)
          \<and> config_valid ops (lo_config l) \<and> initialised ops c (mi_startup io) (lo_config l) fs s)
    \<and> (fs' = fs \<or> (\<exists>cfg. config_load parse (mi_read io) (path_of (cl_config cli)) fs = Inr cfg
          \<and> fs' = startup_fs ops (mi_startup io) cfg fs))"
proof (cases "config_load parse (mi_read io) (path_of (cl_config cli)) fs")
  case (Inl e)
  then show ?thesis using run mode by (auto simp: main_run_def)
next
  case (Inr cfg)
  obtain x xs where st: "startup ops c (mi_startup io) cfg (boot now fs) = (Some x, xs)"
    "\<forall>e. x = Inl e \<longrightarrow> (\<forall>ev \<in> set xs. \<not> serving ev)"
    "\<forall>l s. x = Inr (l, s) \<longrightarrow> config_valid ops cfg \<and> initialised ops c (mi_startup io) cfg fs s"
    using startup_outcome [OF laws, of c "mi_startup io" cfg now fs] by blast
  show ?thesis
  proof (cases x)
    case (Inl e)
    then show ?thesis using run mode Inr st by (auto simp: main_run_def)
  next
    case up: (Inr y)
    obtain l s where y: "y = (l, s)" by fastforce
    have l: "validate_config ops cfg = Some (Inr l)" using startup_loaded st(1) unfolding up y by blast
    then have "lo_config l = cfg" using validate_config_Inr by blast
    moreover from this have "pr_fs s = startup_fs ops (mi_startup io) cfg fs"
      using st(3) up y l by (simp add: initialised_def startup_fs_def)
    ultimately show ?thesis using run mode Inr st up y by (auto simp: main_run_def)
  qed
qed

text \<open>A run of the server from the starter configuration, when its directory, state file and binds are available.\<close>

lemma starter_starts:
  assumes laws: "ipnet_laws ops" and mode: "cl_command cli = None" "\<not> cl_check_config cli"
    and load: "config_load parse (mi_read io) (path_of (cl_config cli)) fs = Inr starter_config"
    and dirs: "\<forall>d. su_mkdir (mi_startup io) d"
    and policies: "load_policies c (su_now (mi_startup io)) (su_read (mi_startup io))
      \<lparr>fp_dir = ''/var/lib/v6proxy'', fp_name = ''policies.json''\<rparr> fs = Inr p"
    and binds: "su_bind_admin (mi_startup io)" "\<forall>b. su_bind_tcp (mi_startup io) b" "\<forall>b. su_bind_udp (mi_startup io) b"
  shows "\<exists>l s log es fs'. main_run ops c parse text io cli now fs = (Some (Inr (Served l s (mi_end io))), log, es, fs')
    \<and> pr_policies s = p"
proof -
  have path: "path_of (pa_state (cf_paths starter_config)) = \<lparr>fp_dir = ''/var/lib/v6proxy'', fp_name = ''policies.json''\<rparr>"
    by (simp add: starter_config_def) code_simp
  have made: "fst (state_dirs (mi_startup io) starter_config fs)"
    unfolding state_dirs_def by (rule create_dir_all_ok) (use dirs in blast)
  obtain l s xs where s: "startup ops c (mi_startup io) starter_config (boot now fs) = (Some (Inr (l, s)), xs)" "pr_policies s = p"
    using startup_succeeds [OF laws starter_valid made _ binds, of c p now] policies unfolding path by auto
  show ?thesis using s(2) by (simp add: main_run_def mode load s(1))
qed

definition example_cli :: cli where
  "example_cli =
     \<lparr>cl_config = ''/etc/v6proxy/config.toml'', cl_check_config = False, cl_log_format = Some LogJson,
      cl_command = None\<rparr>"

definition example_main_io :: main_io where
  "example_main_io =
     \<lparr>mi_env_filter = None, mi_mkdir = (\<lambda>d. True), mi_write = True, mi_part = None, mi_read = True,
      mi_startup = example_startup_io\<lparr>su_bind_udp := (\<lambda>b. True)\<rparr>, mi_end = AdminExited\<rparr>"

definition empty_fs :: fs where
  "empty_fs = \<lparr>fs_live = Map.empty, fs_disk = Map.empty, fs_dirs = {}\<rparr>"

lemma starter_serves:
  "\<exists>l s log es fs'. main_run plain_ops plain_codec (\<lambda>t. Some starter_document) ''x'' example_main_io example_cli 0
     (fs_write (path_of ''/etc/v6proxy/config.toml'') ''x'' empty_fs) = (Some (Inr (Served l s AdminExited)), log, es, fs')"
proof -
  let ?path = "path_of ''/etc/v6proxy/config.toml''" and ?io = "mi_startup example_main_io"
  have path: "?path = \<lparr>fp_dir = ''/etc/v6proxy'', fp_name = ''config.toml''\<rparr>" by code_simp
  have "load_policies plain_codec (su_now ?io) (su_read ?io) \<lparr>fp_dir = ''/var/lib/v6proxy'', fp_name = ''policies.json''\<rparr>
      (fs_write ?path ''x'' empty_fs) = Inr (policies_default 0)"
    unfolding path by (simp add: load_policies_def fs_read_def fs_write_def empty_fs_def example_main_io_def example_startup_io_def)
  moreover have "config_load (\<lambda>t. Some starter_document) (mi_read example_main_io) (path_of (cl_config example_cli))
      (fs_write ?path ''x'' empty_fs) = Inr starter_config"
    by (simp add: config_load_def example_main_io_def example_cli_def fs_read_def fs_write_def starter_decodes)
  moreover have "cl_command example_cli = None" "\<not> cl_check_config example_cli" "\<forall>d. su_mkdir ?io d" "su_bind_admin ?io"
    "\<forall>b. su_bind_tcp ?io b" "\<forall>b. su_bind_udp ?io b" "mi_end example_main_io = AdminExited"
    by (simp_all add: example_cli_def example_main_io_def example_startup_io_def)
  ultimately show ?thesis using starter_starts [OF plain_laws] by metis
qed

section \<open>Properties\<close>

text \<open>C35: the program as a whole, up to the point where it serves, never panics, and its three modes do what
  they promise. The check mode touches nothing, binds nothing, and accepts exactly the files that load
  to a valid configuration. The server serves only when the configuration was loaded from the file, is valid,
  and the state was initialised from it; a run of it up to that point changes no file, and all it may make are the
  directories above the state file. \<open>init\<close> binds nothing, changes no file but the configuration, not
  even that one when it exists and \<open>--force\<close> is not given, and on success leaves the starter text.\<close>

theorem main_outcomes:
  assumes "ipnet_laws ops" "main_run ops c parse text io cli now fs = (r, log, es, fs')"
  shows "r \<noteq> None
    \<and> ((\<exists>ev \<in> set es. serving ev) \<longrightarrow> (\<exists>l s. r = Some (Inr (Served l s (mi_end io)))))
    \<and> (\<forall>l s e. r = Some (Inr (Served l s e)) \<longrightarrow>
          cl_command cli = None \<and> \<not> cl_check_config cli
          \<and> config_load parse (mi_read io) (path_of (cl_config cli)) fs = Inr (lo_config l)
          \<and> config_valid ops (lo_config l) \<and> initialised ops c (mi_startup io) (lo_config l) fs s)
    \<and> (cl_command cli = None \<and> cl_check_config cli \<longrightarrow> es = [] \<and> fs' = fs
        \<and> (r = Some (Inr ConfigOk) \<longleftrightarrow>
            (\<exists>cfg. config_load parse (mi_read io) (path_of (cl_config cli)) fs = Inr cfg \<and> config_valid ops cfg)))
    \<and> (cl_command cli = None \<longrightarrow> fs_live fs' = fs_live fs \<and> fs_disk fs' = fs_disk fs \<and> fs_dirs fs \<subseteq> fs_dirs fs'
        \<and> (\<forall>d \<in> fs_dirs fs' - fs_dirs fs. \<exists>cfg. config_load parse (mi_read io) (path_of (cl_config cli)) fs = Inr cfg
              \<and> d \<in> set (dir_chain (fp_dir (path_of (pa_state (cf_paths cfg)))))))
    \<and> (\<forall>force. cl_command cli = Some (Init force) \<longrightarrow> es = []
        \<and> (\<forall>q. q \<noteq> path_of (cl_config cli) \<longrightarrow> fs_read fs' q = fs_read fs q)
        \<and> (fs_read fs (path_of (cl_config cli)) \<noteq> None \<and> \<not> force \<longrightarrow>
             r = Some (Inl (InitFailed (ConfigExists (path_of (cl_config cli))))) \<and> fs' = fs)
        \<and> (r = Some (Inr ConfigInitialized) \<longrightarrow> fs_read fs' (path_of (cl_config cli)) = Some text))"
proof (cases "cl_command cli")
  case (Some cmd)
  then obtain force where cmd: "cl_command cli = Some (Init force)" by (cases cmd) simp
  show ?thesis using init_run [OF assms(2) cmd] cmd by auto
next
  case none: None
  show ?thesis
  proof (cases "cl_check_config cli")
    case True
    show ?thesis using check_run [OF assms none True] none True by simp
  next
    case False
    note run = server_run [OF assms none False]
    have "fs_live fs' = fs_live fs \<and> fs_disk fs' = fs_disk fs \<and> fs_dirs fs \<subseteq> fs_dirs fs'
        \<and> (\<forall>d \<in> fs_dirs fs' - fs_dirs fs. \<exists>cfg. config_load parse (mi_read io) (path_of (cl_config cli)) fs = Inr cfg
              \<and> d \<in> set (dir_chain (fp_dir (path_of (pa_state (cf_paths cfg))))))"
      using run startup_fs_frame [where ops = ops and io = "mi_startup io" and fs = fs] by blast
    then show ?thesis using run none False by simp
  qed
qed

theorem main_outcomes_witness:
  "\<exists>r log es fs'. main_run plain_ops plain_codec (\<lambda>t. Some starter_document) ''x'' example_main_io example_cli 0
       (fs_write (path_of ''/etc/v6proxy/config.toml'') ''x'' empty_fs) = (r, log, es, fs')
     \<and> (\<exists>l s. r = Some (Inr (Served l s AdminExited)) \<and> lo_config l = starter_config
          \<and> initialised plain_ops plain_codec (mi_startup example_main_io) starter_config
              (fs_write (path_of ''/etc/v6proxy/config.toml'') ''x'' empty_fs) s)
     \<and> fs_live fs' (path_of ''/var/lib/v6proxy/policies.json'') = None"
proof -
  let ?fs = "fs_write (path_of ''/etc/v6proxy/config.toml'') ''x'' empty_fs"
  obtain l s log es fs' where run: "main_run plain_ops plain_codec (\<lambda>t. Some starter_document) ''x'' example_main_io example_cli 0
      ?fs = (Some (Inr (Served l s AdminExited)), log, es, fs')"
    using starter_serves by blast
  have load: "config_load (\<lambda>t. Some starter_document) (mi_read example_main_io) (path_of (cl_config example_cli)) ?fs
      = Inr starter_config"
    by (simp add: config_load_def example_main_io_def example_cli_def fs_read_def fs_write_def starter_decodes)
  have paths: "path_of ''/etc/v6proxy/config.toml'' \<noteq> path_of ''/var/lib/v6proxy/policies.json''" by code_simp
  from main_outcomes [OF plain_laws run] load
  have "lo_config l = starter_config" "initialised plain_ops plain_codec (mi_startup example_main_io) (lo_config l) ?fs s"
    "fs_live fs' = fs_live ?fs"
    by (auto simp: example_cli_def)
  with run paths show ?thesis by (auto simp: fs_write_def empty_fs_def)
qed

text \<open>The starter configuration works: when the parser reads the shipped text as its document, then after
  a successful \<open>init\<close> the check mode accepts the file, and the program starts from it and serves the
  policies of the state file, provided that the directories, the state file and the binds are available.\<close>

theorem init_then_serve:
  assumes laws: "ipnet_laws ops" and parser: "parse text = Some starter_document"
    and init: "main_run ops c parse text io (cli\<lparr>cl_command := Some (Init force)\<rparr>) now fs
      = (Some (Inr ConfigInitialized), log, es, fs1)"
    and read: "mi_read io'"
  shows "main_run ops c parse text io' (cli\<lparr>cl_command := None, cl_check_config := True\<rparr>) now' fs1
      = (Some (Inr ConfigOk), Some (init_logging (mi_env_filter io') (cl_log_format cli) log_config_default), [], fs1)
    \<and> (\<forall>p. (\<forall>d. su_mkdir (mi_startup io') d) \<longrightarrow>
          load_policies c (su_now (mi_startup io')) (su_read (mi_startup io'))
            \<lparr>fp_dir = ''/var/lib/v6proxy'', fp_name = ''policies.json''\<rparr> fs1 = Inr p \<longrightarrow>
          su_bind_admin (mi_startup io') \<longrightarrow> (\<forall>b. su_bind_tcp (mi_startup io') b) \<longrightarrow>
          (\<forall>b. su_bind_udp (mi_startup io') b) \<longrightarrow>
            (\<exists>l s log' es' fs2. main_run ops c parse text io' (cli\<lparr>cl_command := None, cl_check_config := False\<rparr>) now' fs1
               = (Some (Inr (Served l s (mi_end io'))), log', es', fs2) \<and> pr_policies s = p))"
proof -
  have "fs_read fs1 (path_of (cl_config cli)) = Some text" using init_run [OF init, of force] by simp
  then have load: "config_load parse (mi_read io') (path_of (cl_config cli)) fs1 = Inr starter_config"
    using read parser starter_decodes by (simp add: config_load_def)
  obtain l where "validate_config ops starter_config = Some (Inr l)"
    using validate_config_total [OF laws, of starter_config] starter_valid by blast
  then have check: "check_config ops starter_config = Some (Inr ())" by (simp add: check_config_def)
  have log: "cf_log starter_config = log_config_default"
    by (simp add: starter_config_def log_config_default_def default_log_level_def)
  have "main_run ops c parse text io' (cli\<lparr>cl_command := None, cl_check_config := True\<rparr>) now' fs1
    = (Some (Inr ConfigOk), Some (init_logging (mi_env_filter io') (cl_log_format cli) log_config_default), [], fs1)"
    by (simp add: main_run_def load check log)
  then show ?thesis
    using starter_starts [OF laws, of "cli\<lparr>cl_command := None, cl_check_config := False\<rparr>" parse io' fs1] load by simp
qed

theorem init_then_serve_witness:
  "\<exists>l s log es fs fs'. main_run plain_ops plain_codec (\<lambda>t. Some starter_document) ''x'' example_main_io
      (example_cli\<lparr>cl_command := None, cl_check_config := False\<rparr>) 0 fs = (Some (Inr (Served l s AdminExited)), log, es, fs')"
proof -
  obtain log es fs1 where init: "main_run plain_ops plain_codec (\<lambda>t. Some starter_document) ''x'' example_main_io
      (example_cli\<lparr>cl_command := Some (Init False)\<rparr>) 0 empty_fs = (Some (Inr ConfigInitialized), log, es, fs1)"
    using create_dir_all_ok [of "fp_dir (path_of ''/etc/v6proxy/config.toml'')" "\<lambda>d. True" empty_fs]
    by (simp add: main_run_def example_main_io_def example_cli_def init_config_def empty_fs_def fs_read_def
        Let_def prod.case_eq_if)
  have "path_of ''/var/lib/v6proxy/policies.json'' = \<lparr>fp_dir = ''/var/lib/v6proxy'', fp_name = ''policies.json''\<rparr>"
    "path_of ''/var/lib/v6proxy/policies.json'' \<noteq> path_of (cl_config example_cli)"
    unfolding example_cli_def by code_simp+
  then have "fs_read fs1 \<lparr>fp_dir = ''/var/lib/v6proxy'', fp_name = ''policies.json''\<rparr> = None"
    using init_run [OF init, of False] by (simp add: fs_read_def empty_fs_def)
  then have load: "load_policies plain_codec (su_now (mi_startup example_main_io)) (su_read (mi_startup example_main_io))
      \<lparr>fp_dir = ''/var/lib/v6proxy'', fp_name = ''policies.json''\<rparr> fs1 = Inr (policies_default 0)"
    by (simp add: load_policies_def example_main_io_def example_startup_io_def)
  have io: "mi_read example_main_io" "\<forall>d. su_mkdir (mi_startup example_main_io) d"
    "su_bind_admin (mi_startup example_main_io)" "\<forall>b. su_bind_tcp (mi_startup example_main_io) b"
    "\<forall>b. su_bind_udp (mi_startup example_main_io) b" "mi_end example_main_io = AdminExited"
    by (simp_all add: example_main_io_def example_startup_io_def)
  show ?thesis
    using conjunct2 [OF init_then_serve [OF plain_laws refl init io(1), where now' = 0]] load io(2-6) by metis
qed

end
