(* ===== verification/ApiSpec.thy ===== *)
theory ApiSpec
  imports ApiServer
begin

text \<open>
  What the admin API promises, without files, versions and time stamps: a small database of policies
  with the effect of every endpoint on it, and the proof that the handlers implement it.
\<close>

section \<open>The database\<close>

record policy_db =
  db_bindings :: "ip_addr \<Rightarrow> (hash_policy \<times> u64) option"
  db_default :: "hash_policy \<times> u64"
  db_domains :: "acl_list \<Rightarrow> string set"
  db_egress :: "acl_list \<Rightarrow> string set"

text \<open>What the process state stands for: the bindings, the defaults, and the two effective lists.\<close>

definition domain_lists :: "('net, 'a) app_scheme \<Rightarrow> acl_list \<Rightarrow> string set" where
  "domain_lists s list = set (side_effective list (pol_domain_acl (pr_policies s)) (domain_base s))"

definition egress_lists :: "('net, 'a) app_scheme \<Rightarrow> acl_list \<Rightarrow> string set" where
  "egress_lists s list = set (side_effective list (pol_egress_acl (pr_policies s)) (egress_base s))"

definition binding_table :: "('net, 'a) app_scheme \<Rightarrow> ip_addr \<Rightarrow> (hash_policy \<times> u64) option" where
  "binding_table s ip = map_option (\<lambda>b. (bd_policy b, bd_seed b)) (pol_bindings (pr_policies s) ip)"

definition defaults :: "('net, 'a) app_scheme \<Rightarrow> hash_policy \<times> u64" where
  "defaults s =
     (case pr_default_policy s of None \<Rightarrow> SrcIp | Some p \<Rightarrow> p,
      case pr_default_seed s of None \<Rightarrow> 0 | Some n \<Rightarrow> n)"

definition abs_db :: "('net, 'a) app_scheme \<Rightarrow> policy_db" where
  "abs_db s =
     \<lparr>db_bindings = binding_table s, db_default = defaults s, db_domains = domain_lists s,
      db_egress = egress_lists s\<rparr>"

definition db_lookup :: "policy_db \<Rightarrow> ip_addr \<Rightarrow> hash_policy \<times> u64" where
  "db_lookup db ip = (case db_bindings db ip of None \<Rightarrow> db_default db | Some v \<Rightarrow> v)"

section \<open>The requests\<close>

definition db_put :: "ip_addr \<Rightarrow> put_request \<Rightarrow> policy_db \<Rightarrow> nat + policy_db" where
  "db_put ip body db =
     (case (case pb_policy body of None \<Rightarrow> Some (fst (db_lookup db ip)) | Some t \<Rightarrow> res_ok (hash_policy_from_str t)) of
        None \<Rightarrow> Inl 400
      | Some hp \<Rightarrow>
          (case (case pb_seed body of None \<Rightarrow> Some (snd (db_lookup db ip)) | Some t \<Rightarrow> parse_seed t) of
             None \<Rightarrow> Inl 400
           | Some n \<Rightarrow> Inr (db\<lparr>db_bindings := (db_bindings db)(ip \<mapsto> (hp, n))\<rparr>)))"

definition db_change ::
  "ip_addr \<Rightarrow> (hash_policy \<times> u64 \<Rightarrow> (hash_policy \<times> u64) option) \<Rightarrow> policy_db \<Rightarrow> nat + policy_db" where
  "db_change ip f db =
     (case db_bindings db ip of
        None \<Rightarrow> Inl 404
      | Some v \<Rightarrow> Inr (db\<lparr>db_bindings := (db_bindings db)(ip := f v)\<rparr>))"

definition change_list ::
  "acl_list \<Rightarrow> acl_op \<Rightarrow> (string \<Rightarrow> 'e + string) \<Rightarrow> string list \<Rightarrow> (acl_list \<Rightarrow> string set)
     \<Rightarrow> nat + (acl_list \<Rightarrow> string set)" where
  "change_list list op canonicalize rules sides =
     (if \<exists>r \<in> set rules. res_ok (canonicalize r) = None then Inl 400
      else
        let canon = List.map_filter (\<lambda>r. res_ok (canonicalize r)) rules
        in Inr (sides(list := expected_set op canon (sides list))))"

definition with_ip :: "string \<Rightarrow> (ip_addr \<Rightarrow> nat + 'b) \<Rightarrow> nat + 'b" where
  "with_ip srcip f = (case parse_ip_addr srcip of None \<Rightarrow> Inl 400 | Some ip \<Rightarrow> f ip)"

text \<open>The effect of an endpoint, or the status code of a refusal.\<close>

definition db_request :: "'net ipnet_ops \<Rightarrow> endpoint \<Rightarrow> policy_db \<Rightarrow> nat + policy_db" where
  "db_request ops e db =
     (case e of
        GetBinding srcip \<Rightarrow> with_ip srcip (\<lambda>ip. Inr db)
      | PutBinding srcip body \<Rightarrow> with_ip srcip (\<lambda>ip. db_put ip body db)
      | DeleteBinding srcip \<Rightarrow> with_ip srcip (\<lambda>ip. db_change ip (\<lambda>v. None) db)
      | PatchHashPolicy srcip policy \<Rightarrow>
          with_ip srcip (\<lambda>ip.
            case hash_policy_from_str policy of
              Inl e \<Rightarrow> Inl 400
            | Inr hp \<Rightarrow> db_change ip (\<lambda>v. Some (hp, snd v)) db)
      | Reseed srcip n \<Rightarrow> with_ip srcip (\<lambda>ip. db_change ip (\<lambda>v. Some (fst v, n)) db)
      | MutateDomains list op rules \<Rightarrow>
          map_sum id (\<lambda>l. db\<lparr>db_domains := l\<rparr>) (change_list list op canonicalize_rule rules (db_domains db))
      | MutateEgress list op rules \<Rightarrow>
          map_sum id (\<lambda>l. db\<lparr>db_egress := l\<rparr>) (change_list list op (canonicalize_net ops) rules (db_egress db))
      | _ \<Rightarrow> Inr db)"

text \<open>What a handler owes the database: the refusal with its code and no effect, or the effect, or, for
  an endpoint that has one, the failure to save and no effect.\<close>

definition implements ::
  "bool \<Rightarrow> nat + policy_db \<Rightarrow> ('net, 'a) app_scheme \<Rightarrow> response run \<times> ('net, 'a) app_scheme \<Rightarrow> bool" where
  "implements saves expected s result \<longleftrightarrow>
     (case result of
        (None, s') \<Rightarrow> False
      | (Some rsp, s') \<Rightarrow>
          (case expected of
             Inl status \<Rightarrow> rs_status rsp = status \<and> abs_db s' = abs_db s
           | Inr db \<Rightarrow>
               rs_status rsp = 200 \<and> abs_db s' = db
               \<or> saves \<and> rs_status rsp = 500 \<and> abs_db s' = abs_db s))"

section \<open>The handlers implement it\<close>

lemmas abs_db_parts = abs_db_def binding_table_def defaults_def domain_lists_def egress_lists_def
  domain_base_def egress_base_def

lemma default_abs:
  "abs_db (snd (default_hash_policy s)) = abs_db s" "fst (default_hash_policy s) = fst (db_default (abs_db s))"
  "abs_db (snd (default_binding_seed s)) = abs_db s" "fst (default_binding_seed s) = snd (db_default (abs_db s))"
  "abs_db (snd (default_binding now s)) = abs_db s"
  "bd_policy (fst (default_binding now s)) = fst (db_default (abs_db s))"
  "bd_seed (fst (default_binding now s)) = snd (db_default (abs_db s))"
  by (auto simp: default_binding_def default_hash_policy_def default_binding_seed_def abs_db_parts fun_eq_iff
      split: option.splits)

text \<open>A save of new bindings.\<close>

lemma save_implements:
  assumes path: "pr_state_path s \<noteq> None"
    and acl: "pol_domain_acl (g (pr_policies s)) = pol_domain_acl (pr_policies s)"
      "pol_egress_acl (g (pr_policies s)) = pol_egress_acl (pr_policies s)"
    and k: "\<And>p. pol_bindings p = pol_bindings (g (pr_policies s)) \<Longrightarrow> \<exists>r. k p = Some r \<and> rs_status r = 200"
    and db: "db = (abs_db s)\<lparr>db_bindings := (\<lambda>ip. map_option (\<lambda>b. (bd_policy b, bd_seed b))
      (pol_bindings (g (pr_policies s)) ip))\<rparr>"
  shows "implements (\<not> writable env) (Inr db) s (save_response k (apply_and_save c env (\<lambda>p. Some (g p)) s))"
proof (cases rule: apply_and_save_cases [of c env "\<lambda>p. Some (g p)" s])
  case panic
  then show ?thesis using path by simp
next
  case (fails e tr np q)
  then show ?thesis
    using save_writable [OF fails(3)] by (simp add: save_response_def implements_def abs_db_parts fun_eq_iff)
next
  case (ok tr np p q)
  then have p: "pol_bindings p = pol_bindings (g (pr_policies s))" "pol_domain_acl p = pol_domain_acl (pr_policies s)"
    "pol_egress_acl p = pol_egress_acl (pr_policies s)" using acl by auto
  obtain r where "k p = Some r" "rs_status r = 200" using k [OF p(1)] by blast
  then show ?thesis
    using ok(5) p db by (simp add: save_response_def implements_def abs_db_parts fun_eq_iff)
qed


lemma canon_batch_spec:
  "(case canon_batch (\<lambda>r. map_err E (canonicalize r)) rules of
      Inl x \<Rightarrow> \<exists>r \<in> set rules. res_ok (canonicalize r) = None
    | Inr canon \<Rightarrow> (\<forall>r \<in> set rules. res_ok (canonicalize r) \<noteq> None)
        \<and> canon = List.map_filter (\<lambda>r. res_ok (canonicalize r)) rules)"
proof (induction rules)
  case Nil
  then show ?case by (simp add: canon_batch_def)
next
  case (Cons r rules)
  then show ?case
    by (cases "canonicalize r")
       (auto simp: canon_batch_def res_ok_def map_err_def split: sum.splits)
qed

text \<open>What a mutation of one list owes the database: the other half of it stays.\<close>

interpretation domain_spec: acl_service_rest domain_kind pol_domain_acl live_domain
  "\<lambda>s. ap_domain_base s \<noteq> None" "\<lambda>s. egress_lists s = l \<and> defaults s = d \<and> domain_base s = b" for l d b
  by unfold_locales
     (auto simp: egress_lists_def defaults_def base_frames select_domain_def rebuild_domain_filter_def Let_def
       case_prod_beta egress_base_def domain_base_def split: option.splits)

interpretation egress_spec: acl_service_rest "egress_kind api" pol_egress_acl
  "live_egress (api_nets api)" "\<lambda>s. ipnet_laws (api_nets api) \<and> ap_egress_base s \<noteq> None"
  "\<lambda>s. domain_lists s = l \<and> defaults s = d \<and> egress_base s = b" for api l d b
  by unfold_locales
     (auto simp: domain_lists_def defaults_def base_frames select_egress_def rebuild_egress_filter_def Let_def
       case_prod_beta egress_base_def domain_base_def split: option.splits bind_splits)

lemma mutate_writable:
  "mutate_acl c env list op rules kind s = (r, s') \<Longrightarrow> r = Some failed_to_save \<Longrightarrow> \<not> writable env"
  by (auto simp: mutate_acl_def acl_apply_def acl_update_def dest!: apply_writable split: sum.splits option.splits prod.splits)

lemma promised_change:
  fixes kind :: "('net, 'a) app_scheme acl_kind"
  assumes promise: "promised kind overlay live list op rules s r s'"
    and canonicalize: "k_canonicalize kind = (\<lambda>r. map_err E (canonicalize r))"
    and sides: "sides = (\<lambda>p l. set (side_effective l (overlay p) (k_base kind s)))"
    and failed: "r = Some failed_to_save \<Longrightarrow> \<not> writable env"
  obtains (refused) rsp where "change_list list op canonicalize rules (sides (pr_policies s)) = Inl 400"
      "r = Some rsp" "rs_status rsp = 400" "s' = s"
  | (unsaved) l rsp where "change_list list op canonicalize rules (sides (pr_policies s)) = Inr l"
      "r = Some rsp" "rs_status rsp = 500" "\<not> writable env" "pr_policies s' = pr_policies s"
  | (saved) rsp where "change_list list op canonicalize rules (sides (pr_policies s)) = Inr (sides (pr_policies s'))"
      "r = Some rsp" "rs_status rsp = 200" "pol_bindings (pr_policies s') = pol_bindings (pr_policies s)"
proof (cases "canon_batch (\<lambda>r. map_err E (canonicalize r)) rules")
  case (Inl x)
  then have "change_list list op canonicalize rules (sides (pr_policies s)) = Inl 400"
    using canon_batch_spec [where E = E and canonicalize = canonicalize and rules = rules] by (simp add: change_list_def)
  then show ?thesis
    using refused promise Inl by (cases x) (simp add: promised_def canonicalize)
next
  case (Inr canon)
  then have change: "change_list list op canonicalize rules f = Inr (f(list := expected_set op canon (f list)))" for f
    using canon_batch_spec [where E = E and canonicalize = canonicalize and rules = rules] by (simp add: change_list_def Let_def)
  consider "r = Some failed_to_save" "pr_policies s' = pr_policies s"
    | "r = Some (respond 200 (AclBody (k_view kind s')))"
      "sides (pr_policies s') list = expected_set op canon (sides (pr_policies s) list)"
      "sides (pr_policies s') (other_list list) = sides (pr_policies s) (other_list list)"
      "pol_bindings (pr_policies s') = pol_bindings (pr_policies s)"
    using promise by (auto simp: promised_def canonicalize Inr sides)
  then show ?thesis
  proof cases
    case 1
    then show ?thesis using unsaved change failed by simp
  next
    case 2
    have "sides (pr_policies s') l = ((sides (pr_policies s))(list := expected_set op canon (sides (pr_policies s) list))) l" for l
      using 2(2,3) by (cases l; cases list; simp)
    then have "change_list list op canonicalize rules (sides (pr_policies s)) = Inr (sides (pr_policies s'))"
      unfolding change by (metis ext)
    then show ?thesis using saved 2(1,4) by simp
  qed
qed

lemma mutate_domains_implements:
  assumes ready: "pr_state_path s \<noteq> None" "ap_domain_base s \<noteq> None"
  shows "implements (\<not> writable env) (map_sum id (\<lambda>l. (abs_db s)\<lparr>db_domains := l\<rparr>)
      (change_list list op canonicalize_rule rules (db_domains (abs_db s)))) s
    (mutate_acl c env list op rules domain_kind s)"
proof -
  obtain r s' where run: "mutate_acl c env list op rules domain_kind s = (r, s')" by fastforce
  define sides where "sides = (\<lambda>(p :: policies) l. set (side_effective l (pol_domain_acl p) (k_base domain_kind s)))"
  have rest: "egress_lists s' = egress_lists s" "defaults s' = defaults s" "domain_base s' = domain_base s"
    using domain_spec.mutate_rest [OF _ run, of "egress_lists s" "defaults s" "domain_base s"] by simp_all
  have sides: "db_domains (abs_db s) = sides (pr_policies s)" "domain_lists s' = sides (pr_policies s')"
    by (simp_all add: abs_db_def domain_lists_def sides_def fun_eq_iff rest)
  have abs: "abs_db s' = abs_db s" if "pr_policies s' = pr_policies s"
    using that rest by (simp add: abs_db_def domain_lists_def binding_table_def fun_eq_iff)
  have new: "abs_db s' = (abs_db s)\<lparr>db_domains := sides (pr_policies s')\<rparr>"
    if "pol_bindings (pr_policies s') = pol_bindings (pr_policies s)"
    using that rest sides(2) by (simp add: abs_db_def binding_table_def fun_eq_iff)
  from domain_service.mutate_promised [OF ready run] domain_kind_simps(1) sides_def mutate_writable [OF run] show ?thesis
    unfolding run sides(1) by (rule promised_change) (use abs new in \<open>simp_all add: implements_def\<close>)
qed

lemma mutate_egress_implements:
  assumes ready: "pr_state_path s \<noteq> None" "ipnet_laws (api_nets api) \<and> ap_egress_base s \<noteq> None"
  shows "implements (\<not> writable env) (map_sum id (\<lambda>l. (abs_db s)\<lparr>db_egress := l\<rparr>)
      (change_list list op (canonicalize_net (api_nets api)) rules (db_egress (abs_db s)))) s
    (mutate_acl c env list op rules (egress_kind api) s)"
proof -
  obtain r s' where run: "mutate_acl c env list op rules (egress_kind api) s = (r, s')" by fastforce
  define sides where "sides = (\<lambda>(p :: policies) l. set (side_effective l (pol_egress_acl p) (k_base (egress_kind api) s)))"
  have rest: "domain_lists s' = domain_lists s" "defaults s' = defaults s" "egress_base s' = egress_base s"
    using egress_spec.mutate_rest [OF _ run, of "domain_lists s" "defaults s" "egress_base s"] by simp_all
  have sides: "db_egress (abs_db s) = sides (pr_policies s)" "egress_lists s' = sides (pr_policies s')"
    by (simp_all add: abs_db_def egress_lists_def sides_def fun_eq_iff rest)
  have abs: "abs_db s' = abs_db s" if "pr_policies s' = pr_policies s"
    using that rest by (simp add: abs_db_def egress_lists_def binding_table_def fun_eq_iff)
  have new: "abs_db s' = (abs_db s)\<lparr>db_egress := sides (pr_policies s')\<rparr>"
    if "pol_bindings (pr_policies s') = pol_bindings (pr_policies s)"
    using that rest sides(2) by (simp add: abs_db_def binding_table_def fun_eq_iff)
  from egress_service.mutate_promised [OF ready run] egress_kind_simps(1) sides_def mutate_writable [OF run] show ?thesis
    unfolding run sides(1) by (rule promised_change) (use abs new in \<open>simp_all add: implements_def\<close>)
qed

lemma db_bindings_abs:
  "db_bindings (abs_db s) ip = map_option (\<lambda>b. (bd_policy b, bd_seed b)) (pol_bindings (pr_policies s) ip)"
  by (simp add: abs_db_def binding_table_def)

lemma implements_from:
  "abs_db s = abs_db s0 \<Longrightarrow> implements saves expected s result = implements saves expected s0 result"
  by (auto simp: implements_def split: prod.splits option.splits sum.splits)

lemma put_values_abs:
  "put_policy body (pol_bindings (pr_policies s) ip) s = (p, s1) \<Longrightarrow> abs_db s1 = abs_db s
    \<and> p = (case pb_policy body of None \<Rightarrow> Some (fst (db_lookup (abs_db s) ip)) | Some t \<Rightarrow> res_ok (hash_policy_from_str t))"
  "put_seed body (pol_bindings (pr_policies s) ip) s1 = (n, s2) \<Longrightarrow> abs_db s1 = abs_db s \<Longrightarrow> abs_db s2 = abs_db s
    \<and> n = (case pb_seed body of None \<Rightarrow> Some (snd (db_lookup (abs_db s) ip)) | Some t \<Rightarrow> parse_seed t)"
  using default_abs(1,2) [of s] default_abs(3,4) [of s1]
  by (auto simp: put_policy_def put_seed_def db_lookup_def db_bindings_abs case_prod_beta Let_def split: option.splits)

lemma put_values_path:
  "put_policy body ex s = (p, s1) \<Longrightarrow> pr_state_path s1 = pr_state_path s"
  "put_seed body ex s = (n, s1) \<Longrightarrow> pr_state_path s1 = pr_state_path s"
  by (auto simp: put_policy_def put_seed_def default_hash_policy_def default_binding_seed_def split: option.splits)

lemma put_implements:
  assumes path: "pr_state_path s \<noteq> None"
  shows "implements (\<not> writable env) (with_ip srcip (\<lambda>ip. db_put ip body (abs_db s))) s (put_binding api env srcip body s)"
proof (cases "parse_ip_addr srcip")
  case None
  then show ?thesis by (simp add: with_ip_def put_binding_def put_check_def implements_def)
next
  case (Some ip)
  obtain p s1 where p: "put_policy body (pol_bindings (pr_policies s) ip) s = (p, s1)" by fastforce
  obtain n s2 where n: "put_seed body (pol_bindings (pr_policies s) ip) s1 = (n, s2)" by fastforce
  note vp = put_values_abs(1) [OF p]
  note vn = put_values_abs(2) [OF n conjunct1 [OF vp]]
  show ?thesis
  proof (cases "p = None \<or> n = None")
    case True
    then show ?thesis
      using vp vn p n by (auto simp: with_ip_def Some put_binding_def put_check_def db_put_def implements_def Let_def
          split: option.splits)
  next
    case False
    then obtain hp sd where v: "p = Some hp" "n = Some sd" by auto
    let ?b = "\<lparr>bd_policy = hp, bd_seed = sd, bd_updated_at = env_now env\<rparr>"
    have "pr_state_path s2 \<noteq> None"
      using path put_values_path p n by metis
    then have "implements (\<not> writable env) (Inr ((abs_db s2)\<lparr>db_bindings := (db_bindings (abs_db s2))(ip \<mapsto> (hp, sd))\<rparr>)) s2
        (put_apply api env ip ?b s2)"
      unfolding put_apply_def put_update_def put_answer_def
      by (intro save_implements) (auto simp: abs_db_def binding_table_def fun_eq_iff)
    moreover have "db_put ip body (abs_db s) = Inr ((abs_db s)\<lparr>db_bindings := (db_bindings (abs_db s))(ip \<mapsto> (hp, sd))\<rparr>)"
      by (simp add: db_put_def conjunct2 [OF vp, unfolded v, symmetric] conjunct2 [OF vn, unfolded v, symmetric])
    moreover have "put_binding api env srcip body s = put_apply api env ip ?b s2"
      using p n v by (simp add: put_binding_def put_check_def Some Let_def)
    ultimately show ?thesis
      using vn by (simp add: with_ip_def Some implements_from [of s2 s])
  qed
qed

text \<open>The handlers that need an existing binding.\<close>

lemma change_implements_if:
  assumes each: "\<And>ip. pol_bindings (pr_policies s) ip \<noteq> None \<Longrightarrow>
      implements (\<not> writable env) (db_change ip f (abs_db s)) s (apply_it ip)"
  shows "implements (\<not> writable env) (with_ip srcip (\<lambda>ip. db_change ip f (abs_db s))) s
    (case check_binding srcip s of Inl r \<Rightarrow> (Some r, s) | Inr ip \<Rightarrow> apply_it ip)"
proof (cases "parse_ip_addr srcip")
  case None
  then show ?thesis by (simp add: with_ip_def check_binding_def implements_def)
next
  case (Some ip)
  note ip = Some
  show ?thesis
  proof (cases "pol_bindings (pr_policies s) ip")
    case None
    then show ?thesis by (simp add: ip with_ip_def check_binding_def implements_def db_change_def db_bindings_abs)
  next
    case (Some b)
    then show ?thesis using each [of ip] by (simp add: ip with_ip_def check_binding_def)
  qed
qed

lemma db_change_Inr:
  "pol_bindings (pr_policies s) ip = Some b \<Longrightarrow>
     db_change ip f (abs_db s) = Inr ((abs_db s)\<lparr>db_bindings := (db_bindings (abs_db s))(ip := f (bd_policy b, bd_seed b))\<rparr>)"
  by (simp add: db_change_def db_bindings_abs)

lemma apply_implements:
  assumes path: "pr_state_path s \<noteq> None" and found: "pol_bindings (pr_policies s) ip \<noteq> None"
  shows "implements (\<not> writable env) (db_change ip (\<lambda>v. None) (abs_db s)) s (delete_apply api env ip s)"
    "implements (\<not> writable env) (db_change ip (\<lambda>v. Some (fst v, n)) (abs_db s)) s (reseed_apply api env n ip s)"
    "implements (\<not> writable env) (db_change ip (\<lambda>v. Some (hp, snd v)) (abs_db s)) s (patch_apply api env hp ip s)"
proof -
  obtain b where b: "pol_bindings (pr_policies s) ip = Some b" using found by blast
  show "implements (\<not> writable env) (db_change ip (\<lambda>v. None) (abs_db s)) s (delete_apply api env ip s)"
    unfolding delete_apply_def delete_update_def delete_answer_def db_change_Inr [OF b] using path
    by (intro save_implements) (auto simp: abs_db_def binding_table_def fun_eq_iff)
  show "implements (\<not> writable env) (db_change ip (\<lambda>v. Some (fst v, n)) (abs_db s)) s (reseed_apply api env n ip s)"
    unfolding reseed_apply_def reseed_update_def db_change_Inr [OF b] using path b
    by (intro save_implements)
       (auto simp: abs_db_def binding_table_def fun_eq_iff update_binding_simps binding_of_new_def)
  show "implements (\<not> writable env) (db_change ip (\<lambda>v. Some (hp, snd v)) (abs_db s)) s (patch_apply api env hp ip s)"
    unfolding patch_apply_def patch_update_def db_change_Inr [OF b] using path b
    by (intro save_implements)
       (auto simp: abs_db_def binding_table_def fun_eq_iff update_binding_simps binding_of_new_def)
qed

lemma patch_implements:
  assumes path: "pr_state_path s \<noteq> None"
  shows "implements (\<not> writable env) (db_request ops (PatchHashPolicy srcip policy) (abs_db s)) s (patch_hash_policy api env srcip policy s)"
proof (cases "hash_policy_from_str policy")
  case (Inl e)
  then show ?thesis
    by (cases "parse_ip_addr srcip")
       (simp_all add: db_request_def with_ip_def patch_hash_policy_def patch_check_def implements_def)
next
  case (Inr hp)
  have "patch_hash_policy api env srcip policy s
      = (case check_binding srcip s of Inl r \<Rightarrow> (Some r, s) | Inr ip \<Rightarrow> patch_apply api env hp ip s)"
    by (cases "parse_ip_addr srcip"; cases "pol_bindings (pr_policies s) (the (parse_ip_addr srcip))")
       (simp_all add: patch_hash_policy_def patch_check_def Inr check_binding_def)
  then show ?thesis
    using change_implements_if [of s env "\<lambda>v. Some (hp, snd v)"] apply_implements(3) [OF path]
    by (simp add: db_request_def Inr)
qed

lemma endpoint_implements:
  assumes laws: "ipnet_laws (api_nets api)" and wf: "server_wf (api_nets api) s"
  shows "implements (mutating e \<and> \<not> writable env) (db_request (api_nets api) e (abs_db s)) s (run_endpoint api env e s)"
proof -
  have path: "pr_state_path s \<noteq> None" and bases: "ap_domain_base s \<noteq> None" "ap_egress_base s \<noteq> None"
    using wf server_wf_bases [OF wf] by (simp_all add: server_wf_def)
  show ?thesis
  proof (cases e)
    case (GetBinding srcip)
    then show ?thesis
      by (auto simp: run_endpoint_def get_binding_def db_request_def with_ip_def implements_def default_abs
          case_prod_beta Let_def split: option.splits)
  next
    case (PutBinding srcip body)
    then show ?thesis using put_implements [OF path] by (simp add: run_endpoint_def db_request_def)
  next
    case (DeleteBinding srcip)
    then show ?thesis
      using change_implements_if [of s env "\<lambda>v. None"] apply_implements(1) [OF path]
      by (simp add: run_endpoint_def db_request_def delete_binding_def)
  next
    case (PatchHashPolicy srcip policy)
    then show ?thesis using patch_implements [OF path] by (simp add: run_endpoint_def)
  next
    case (Reseed srcip n)
    then show ?thesis
      using change_implements_if [of s env "\<lambda>v. Some (fst v, n)"] apply_implements(2) [OF path]
      by (simp add: run_endpoint_def db_request_def reseed_def)
  next
    case (MutateDomains list op rules)
    then show ?thesis
      using mutate_domains_implements [OF path bases(1)] by (simp add: run_endpoint_def db_request_def acl_routes)
  next
    case (MutateEgress list op rules)
    then show ?thesis
      using mutate_egress_implements [OF path] laws bases(2) by (simp add: run_endpoint_def db_request_def acl_routes)
  qed (simp_all add: run_endpoint_def db_request_def implements_def healthz_def metrics_handler_def list_bindings_def
      get_domains_def get_egress_def Let_def)
qed

section \<open>What an answer shows\<close>

definition shows_binding :: "policy_db \<Rightarrow> string \<Rightarrow> body \<Rightarrow> bool" where
  "shows_binding db srcip answer \<longleftrightarrow>
     (\<exists>ip b. parse_ip_addr srcip = Some ip \<and> answer = BindingBody b \<and> br_srcip b = show_ip ip
        \<and> br_policy b = fst (db_lookup db ip) \<and> br_seed b = format_0x016 (snd (db_lookup db ip))
        \<and> br_exists b = (db_bindings db ip \<noteq> None))"

definition shows_lists :: "(acl_list \<Rightarrow> string set) \<Rightarrow> body \<Rightarrow> bool" where
  "shows_lists sides answer \<longleftrightarrow>
     (\<exists>v. answer = AclBody v \<and> set (lv_effective (av_allow v)) = sides Allow
        \<and> set (lv_effective (av_deny v)) = sides Deny)"

text \<open>A good answer shows the database as it is after the request.\<close>

fun db_shows :: "policy_db \<Rightarrow> endpoint \<Rightarrow> body \<Rightarrow> bool" where
  "db_shows db (GetBinding srcip) answer = shows_binding db srcip answer"
| "db_shows db (PutBinding srcip request) answer = shows_binding db srcip answer"
| "db_shows db (PatchHashPolicy srcip policy) answer = shows_binding db srcip answer"
| "db_shows db (Reseed srcip n) answer = shows_binding db srcip answer"
| "db_shows db GetDomains answer = shows_lists (db_domains db) answer"
| "db_shows db (MutateDomains list op rules) answer = shows_lists (db_domains db) answer"
| "db_shows db GetEgress answer = shows_lists (db_egress db) answer"
| "db_shows db (MutateEgress list op rules) answer = shows_lists (db_egress db) answer"
| "db_shows db _ answer = True"

lemma from_binding_shows:
  "parse_ip_addr srcip = Some ip \<Longrightarrow> pol_bindings (pr_policies s) ip = Some b \<Longrightarrow>
     shows_binding (abs_db s) srcip (BindingBody (from_binding api ip b True))"
  by (simp add: shows_binding_def from_binding_def db_lookup_def db_bindings_abs)

lemma views_show:
  "shows_lists (db_domains (abs_db s)) (AclBody (domain_view s))"
  "shows_lists (db_egress (abs_db s)) (AclBody (egress_view s))"
  by (auto simp: shows_lists_def domain_view_def egress_view_def acl_view_of_def abs_db_def domain_lists_def
      egress_lists_def side_effective_def case_prod_beta Let_def)

lemma binding_of_new_shows:
  assumes "save_response (binding_of_new api ip) (apply_and_save c env f s) = (Some rsp, s')" "rs_status rsp = 200"
    and "parse_ip_addr srcip = Some ip"
  shows "shows_binding (abs_db s') srcip (rs_body rsp)"
  using assms
  by (cases rule: apply_and_save_cases [of c env f s])
     (auto simp: save_response_def binding_of_new_def intro!: from_binding_shows split: option.splits)

lemma mutate_shows:
  assumes "mutate_acl c env list op rules kind s = (Some rsp, s')" "rs_status rsp = 200"
  shows "rs_body rsp = AclBody (k_view kind s')"
  using assms by (auto simp: mutate_acl_def split: sum.splits prod.splits option.splits)

lemma endpoint_shows:
  assumes run: "run_endpoint api env e s = (Some rsp, s')" and ok: "rs_status rsp = 200"
  shows "db_shows (abs_db s') e (rs_body rsp)"
proof (cases e)
  case (GetBinding srcip)
  show ?thesis
  proof (cases "parse_ip_addr srcip")
    case None
    then show ?thesis using run ok by (auto simp: GetBinding run_endpoint_def get_binding_def)
  next
    case (Some ip)
    note ip = Some
    show ?thesis
    proof (cases "pol_bindings (pr_policies s) ip")
      case None
      let ?d = "default_binding (env_now env) s"
      have "s' = snd ?d" "rs_body rsp = BindingBody (from_binding api ip (fst ?d) False)"
        using run by (auto simp: GetBinding run_endpoint_def get_binding_def ip None case_prod_beta Let_def)
      moreover have "abs_db (snd ?d) = abs_db s" "bd_policy (fst ?d) = fst (db_default (abs_db s))"
        "bd_seed (fst ?d) = snd (db_default (abs_db s))" by (simp_all add: default_abs)
      ultimately show ?thesis
        by (simp add: GetBinding shows_binding_def ip from_binding_def db_lookup_def db_bindings_abs None)
    next
      case (Some b)
      then have "s' = s" "rs_body rsp = BindingBody (from_binding api ip b True)"
        using run by (auto simp: GetBinding run_endpoint_def get_binding_def ip)
      then show ?thesis using from_binding_shows [OF ip Some] by (simp add: GetBinding)
    qed
  qed
next
  case (PutBinding srcip body)
  obtain ip b s1 where c: "put_check env srcip body s = (Inr (ip, b), s1)" "put_apply api env ip b s1 = (Some rsp, s')"
    using run ok by (auto simp: PutBinding run_endpoint_def put_binding_def put_check_def Let_def
        split: prod.splits sum.splits option.splits)
  have "parse_ip_addr srcip = Some ip"
    using c(1) by (auto simp: put_check_def Let_def split: option.splits prod.splits)
  then show ?thesis
    using put_apply_200 [OF c(2) ok] from_binding_shows [of srcip ip s' b] by (simp add: PutBinding)
next
  case (PatchHashPolicy srcip policy)
  then show ?thesis
    using run ok
    by (auto simp: run_endpoint_def patch_hash_policy_def patch_apply_def patch_update_def patch_check_def check_binding_def
        intro: binding_of_new_shows split: sum.splits option.splits)
next
  case (Reseed srcip n)
  then show ?thesis
    using run ok
    by (auto simp: run_endpoint_def reseed_def reseed_apply_def reseed_update_def check_binding_def
        intro: binding_of_new_shows split: option.splits)
next
  case (MutateDomains list op rules)
  then show ?thesis
    using run views_show(1) [of s'] by (auto simp: run_endpoint_def acl_routes dest: mutate_shows [OF _ ok])
next
  case (MutateEgress list op rules)
  then show ?thesis
    using run views_show(2) [of s'] by (auto simp: run_endpoint_def acl_routes dest: mutate_shows [OF _ ok])
qed (use run in \<open>auto simp: run_endpoint_def get_domains_def get_egress_def views_show\<close>)

section \<open>Properties\<close>

text \<open>C4: the admin API implements a database of policies: on a well-formed server every endpoint is
  refused with the status code that the database gives and has no effect, or has the effect that the
  database gives and answers 200 with what the database then shows, or, when one of the four file operations of
  a save fails, answers 500 and has no effect. Defaults that are initialised on the way, files, versions and time stamps
  are invisible.\<close>

theorem api_refines_database:
  assumes "ipnet_laws (api_nets api)" "server_wf (api_nets api) s"
    and "run_endpoint api env e s = (r, s')"
  shows "\<exists>rsp. r = Some rsp
    \<and> (case db_request (api_nets api) e (abs_db s) of
         Inl status \<Rightarrow> rs_status rsp = status \<and> abs_db s' = abs_db s
       | Inr db \<Rightarrow>
           rs_status rsp = 200 \<and> abs_db s' = db \<and> db_shows db e (rs_body rsp)
           \<or> mutating e \<and> \<not> writable env \<and> rs_status rsp = 500 \<and> abs_db s' = abs_db s)"
proof -
  obtain rsp where r: "r = Some rsp" using run_endpoint_wf [OF assms] by blast
  show ?thesis
    using endpoint_implements [OF assms(1,2), of e env] endpoint_shows [of api env e s rsp s'] assms(3)
    by (auto simp: r implements_def split: sum.splits)
qed

lemma example_writable: "writable example_env"
  by (simp add: writable_def example_env_def)

theorem api_refines_database_witness:
  "\<exists>rsp s'. run_endpoint example_api example_env (PutBinding ''::1'' \<lparr>pb_policy = Some ''five_tuple'', pb_seed = Some ''0x2a''\<rparr>)
       example_server = (Some rsp, s')
     \<and> rs_status rsp = 200 \<and> db_bindings (abs_db s') (IpV6 1) = Some (FiveTuple, 42)"
proof -
  let ?e = "PutBinding ''::1'' \<lparr>pb_policy = Some ''five_tuple'', pb_seed = Some ''0x2a''\<rparr>"
  have ip: "parse_ip_addr ''::1'' = Some (IpV6 1)" by (simp add: ip_eval)
  have seed: "parse_seed ''0x2a'' = Some 42"
    by (simp add: parse_seed_def strip_prefix_def parse_uint_def to_digit_def code_def)
  obtain r s' where run: "run_endpoint example_api example_env ?e example_server = (r, s')" by fastforce
  have "db_request plain_ops ?e (abs_db example_server)
      = Inr ((abs_db example_server)\<lparr>db_bindings := (db_bindings (abs_db example_server))(IpV6 1 \<mapsto> (FiveTuple, 42))\<rparr>)"
    by (simp add: db_request_def with_ip_def ip db_put_def seed hash_policy_from_str_def)
  then show ?thesis
    using api_refines_database [OF _ _ run] plain_laws example_server_wf example_writable run by auto
qed

end
