(* ===== verification/AclTests.thy ===== *)
theory AclTests
  imports AclRuntime
begin

text \<open>
  The unit tests of \<open>src/acl.rs\<close> and \<open>src/state.rs\<close> on the definitions that model the tested functions:
  one definition for each test function, its assertions in their order, true when all hold. An
  \<open>unwrap\<close> of an error fails the test. A model that passes the tests of the program agrees with it at
  least on the cases that its authors wrote down.
\<close>

abbreviation (input) is_err :: "'e + 'a \<Rightarrow> bool" where
  "is_err x \<equiv> res_ok x = None"

section \<open>The decision\<close>

definition no_match_default_allows_when_allow_empty :: bool where
  "no_match_default_allows_when_allow_empty = decide (None :: u8 option) None True"

definition no_match_blocks_in_whitelist_mode :: bool where
  "no_match_blocks_in_whitelist_mode = (\<not> decide (None :: u8 option) None False)"

definition allow_only_permits :: bool where
  "allow_only_permits = decide (Some (10 :: u8)) None False"

definition deny_only_blocks :: bool where
  "deny_only_blocks = (\<not> decide None (Some (10 :: u8)) True)"

definition more_specific_allow_wins :: bool where
  "more_specific_allow_wins = decide (Some (32 :: u8)) (Some 7) False"

definition more_specific_deny_wins :: bool where
  "more_specific_deny_wins = (\<not> decide (Some (2 :: u8)) (Some 128) False)"

definition tie_goes_to_deny :: bool where
  "tie_goes_to_deny = (\<not> decide (Some (64 :: u8)) (Some 64) False)"

definition decide_tests :: bool where
  "decide_tests =
     (no_match_default_allows_when_allow_empty \<and> no_match_blocks_in_whitelist_mode \<and> allow_only_permits
      \<and> deny_only_blocks \<and> more_specific_allow_wins \<and> more_specific_deny_wins \<and> tie_goes_to_deny)"

section \<open>Domain rules\<close>

definition parse_bare_is_domain_normalized :: bool where
  "parse_bare_is_domain_normalized = (parse_rule ''Example.COM.'' = Inr (Domain_zone ''example.com''))"

definition parse_known_prefixes :: bool where
  "parse_known_prefixes =
     (parse_rule ''full:a.com'' = Inr (Full ''a.com'')
      \<and> parse_rule ''domain:a.com'' = Inr (Domain_zone ''a.com'')
      \<and> parse_rule ''keyword:Ads'' = Inr (Keyword ''ads''))"

definition parse_rejects_empty_and_unsupported :: bool where
  "parse_rejects_empty_and_unsupported =
     (is_err (parse_rule ''domain:'') \<and> is_err (parse_rule [])
      \<and> is_err (parse_rule (''regexp:.+'' @ [CHR 0x5C] @ ''.cn$'')))"

text \<open>A filter built from two lists, and what it says of some hosts.\<close>

definition filter_says :: "string list \<Rightarrow> string list \<Rightarrow> (string \<times> bool) list \<Rightarrow> bool" where
  "filter_says allow deny verdicts =
     (case domain_filter_build allow deny of
        Inl e \<Rightarrow> False
      | Inr f \<Rightarrow> list_all (\<lambda>(host, verdict). host_allowed f host = verdict) verdicts)"

definition full_matches_exact_only :: bool where
  "full_matches_exact_only =
     filter_says [] [''full:example.com''] [(''example.com'', False), (''www.example.com'', True)]"

definition domain_matches_subdomains :: bool where
  "domain_matches_subdomains =
     filter_says [] [''domain:example.com'']
       [(''example.com'', False), (''www.example.com'', False), (''a.b.example.com'', False),
        (''notexample.com'', True), (''example.com.evil.com'', True)]"

definition keyword_matches_substring_case_insensitive :: bool where
  "keyword_matches_substring_case_insensitive =
     filter_says [] [''keyword:ads'']
       [(''ads.example.com'', False), (''x.ADS-server.net'', False), (''example.com'', True)]"

definition host_normalization_uppercase_and_trailing_dot :: bool where
  "host_normalization_uppercase_and_trailing_dot =
     filter_says [] [''domain:example.com''] [(''WWW.Example.COM.'', False)]"

definition block_zone_but_allow_one_host :: bool where
  "block_zone_but_allow_one_host =
     filter_says [''full:safe.example.com''] [''domain:example.com'']
       [(''safe.example.com'', True), (''evil.example.com'', False), (''example.com'', False)]"

definition allow_zone_but_block_one_host :: bool where
  "allow_zone_but_block_one_host =
     filter_says [''domain:example.com''] [''full:ads.example.com'']
       [(''ads.example.com'', False), (''www.example.com'', True), (''other.org'', False)]"

definition pure_blacklist_allows_unrelated :: bool where
  "pure_blacklist_allows_unrelated =
     filter_says [] [''domain:bad.com''] [(''good.com'', True), (''bad.com'', False)]"

definition longer_zone_is_more_specific :: bool where
  "longer_zone_is_more_specific =
     filter_says [''domain:example.com''] [''domain:ads.example.com'']
       [(''x.ads.example.com'', False), (''x.example.com'', True)]"

definition canonicalize_renders_normalized_prefixed_form :: bool where
  "canonicalize_renders_normalized_prefixed_form =
     (canonicalize_rule ''Example.COM.'' = Inr ''domain:example.com''
      \<and> canonicalize_rule ''full:A.com'' = Inr ''full:a.com''
      \<and> canonicalize_rule ''keyword:Ads'' = Inr ''keyword:ads''
      \<and> is_err (canonicalize_rule ''regexp:x''))"

definition domain_tests :: bool where
  "domain_tests =
     (parse_bare_is_domain_normalized \<and> parse_known_prefixes \<and> parse_rejects_empty_and_unsupported
      \<and> full_matches_exact_only \<and> domain_matches_subdomains \<and> keyword_matches_substring_case_insensitive
      \<and> host_normalization_uppercase_and_trailing_dot \<and> block_zone_but_allow_one_host
      \<and> allow_zone_but_block_one_host \<and> pure_blacklist_allows_unrelated \<and> longer_zone_is_more_specific
      \<and> canonicalize_renders_normalized_prefixed_form)"

section \<open>Filters of base and overlay\<close>

definition build_applies_base_and_overlay :: bool where
  "build_applies_base_and_overlay =
     (let base_deny = [''domain:example.com''];
          delta = add_allow [] ''full:safe.example.com'' acl_delta_default;
          (f, bad) = build_domain_filter [] base_deny delta
      in bad = [] \<and> \<not> host_allowed f ''evil.example.com'' \<and> host_allowed f ''safe.example.com'')"

definition build_drops_invalid_overlay_rule :: bool where
  "build_drops_invalid_overlay_rule =
     (let delta = acl_delta_default\<lparr>deny_add := [''regexp:bad'', ''domain:bad.com'']\<rparr>;
          (f, bad) = build_domain_filter [] [] delta
      in length bad = 1 \<and> \<not> host_allowed f ''bad.com'' \<and> host_allowed f ''ok.com'')"

definition filter_tests :: bool where
  "filter_tests = (build_applies_base_and_overlay \<and> build_drops_invalid_overlay_rule)"

section \<open>The overlay\<close>

definition effective_is_base_union_add_minus_del :: bool where
  "effective_is_base_union_add_minus_del =
     (let d = acl_delta_default\<lparr>allow_add := [''b''], allow_del := [''x'']\<rparr>
      in effective_allow d [''a'', ''x''] = [''a'', ''b''])"

definition add_is_idempotent :: bool where
  "add_is_idempotent =
     (let base = [''a'']; d = add_allow base ''b'' (add_allow base ''b'' acl_delta_default)
      in allow_add d = [''b''] \<and> effective_allow d base = [''a'', ''b''])"

definition add_existing_base_rule_is_noop :: bool where
  "add_existing_base_rule_is_noop =
     (let base = [''a'']; d = add_allow base ''a'' acl_delta_default
      in allow_add d = [] \<and> effective_allow d base = [''a''])"

definition del_dynamic_add_just_removes_it :: bool where
  "del_dynamic_add_just_removes_it =
     (let base = []; d = del_allow base ''b'' (add_allow base ''b'' acl_delta_default)
      in allow_add d = [] \<and> allow_del d = [] \<and> effective_allow d base = [])"

definition del_base_rule_suppresses_it :: bool where
  "del_base_rule_suppresses_it =
     (let base = [''a'']; d = del_allow base ''a'' acl_delta_default
      in allow_del d = [''a''] \<and> effective_allow d base = [])"

definition add_cancels_prior_del_of_base_rule :: bool where
  "add_cancels_prior_del_of_base_rule =
     (let base = [''a'']; d = add_allow base ''a'' (del_allow base ''a'' acl_delta_default)
      in allow_del d = [] \<and> allow_add d = [] \<and> effective_allow d base = [''a''])"

definition deny_side_mirrors_allow_side :: bool where
  "deny_side_mirrors_allow_side =
     (let base = [''d1'']; d = del_deny base ''d1'' (add_deny base ''d2'' acl_delta_default)
      in effective_deny d base = [''d2''])"

text \<open>The state file of an older version, as the JSON value of its text; \<open>c\<close> decodes the time stamp.\<close>

definition policies_without_acl_fields_deserialize_to_defaults :: "codec \<Rightarrow> bool" where
  "policies_without_acl_fields_deserialize_to_defaults c =
     (case policies_from_json c
         (JObj [(''version'', JPos 1), (''updated_at'', JStr ''2020-01-01T00:00:00Z''), (''bindings'', JObj [])]) of
        None \<Rightarrow> False
      | Some p \<Rightarrow> allow_add (pol_domain_acl p) = [] \<and> deny_add (pol_egress_acl p) = [])"

definition acl_delta_tests :: "codec \<Rightarrow> bool" where
  "acl_delta_tests c =
     (effective_is_base_union_add_minus_del \<and> add_is_idempotent \<and> add_existing_base_rule_is_noop
      \<and> del_dynamic_add_just_removes_it \<and> del_base_rule_suppresses_it \<and> add_cancels_prior_del_of_base_rule
      \<and> deny_side_mirrors_allow_side \<and> policies_without_acl_fields_deserialize_to_defaults c)"

section \<open>They pass\<close>

lemmas decide_test_defs = no_match_default_allows_when_allow_empty_def no_match_blocks_in_whitelist_mode_def
  allow_only_permits_def deny_only_blocks_def more_specific_allow_wins_def more_specific_deny_wins_def
  tie_goes_to_deny_def

lemma decide_tests_pass: "decide_tests"
  by (simp add: decide_tests_def decide_test_defs)

lemma parse_tests_pass:
  "parse_bare_is_domain_normalized" "parse_known_prefixes" "parse_rejects_empty_and_unsupported"
  "canonicalize_renders_normalized_prefixed_form"
  by code_simp+

lemma full_matches_exact_only_passes: "full_matches_exact_only"
  by code_simp

lemma domain_matches_subdomains_passes: "domain_matches_subdomains"
  by code_simp

lemma keyword_matches_substring_case_insensitive_passes: "keyword_matches_substring_case_insensitive"
  by code_simp

lemma host_normalization_uppercase_and_trailing_dot_passes: "host_normalization_uppercase_and_trailing_dot"
  by code_simp

lemma block_zone_but_allow_one_host_passes: "block_zone_but_allow_one_host"
  by code_simp

lemma allow_zone_but_block_one_host_passes: "allow_zone_but_block_one_host"
  by code_simp

lemma pure_blacklist_allows_unrelated_passes: "pure_blacklist_allows_unrelated"
  by code_simp

lemma longer_zone_is_more_specific_passes: "longer_zone_is_more_specific"
  by code_simp

lemmas match_tests_pass = full_matches_exact_only_passes
  domain_matches_subdomains_passes
  keyword_matches_substring_case_insensitive_passes
  host_normalization_uppercase_and_trailing_dot_passes
  block_zone_but_allow_one_host_passes
  allow_zone_but_block_one_host_passes
  pure_blacklist_allows_unrelated_passes
  longer_zone_is_more_specific_passes

lemma domain_tests_pass: "domain_tests"
  by (simp add: domain_tests_def parse_tests_pass match_tests_pass)

lemma filter_tests_pass: "filter_tests"
  by code_simp

lemma overlay_tests_pass:
  "effective_is_base_union_add_minus_del" "add_is_idempotent" "add_existing_base_rule_is_noop"
  "del_dynamic_add_just_removes_it" "del_base_rule_suppresses_it" "add_cancels_prior_del_of_base_rule"
  "deny_side_mirrors_allow_side"
  by code_simp+

lemma old_state_file_passes:
  "time_parse c ''2020-01-01T00:00:00Z'' \<noteq> None \<Longrightarrow> policies_without_acl_fields_deserialize_to_defaults c"
  by (auto simp: policies_without_acl_fields_deserialize_to_defaults_def json_required_def json_defaulted_def
      json_time_def acl_delta_default_def)

lemma acl_delta_tests_pass: "time_parse c ''2020-01-01T00:00:00Z'' \<noteq> None \<Longrightarrow> acl_delta_tests c"
  by (simp add: acl_delta_tests_def overlay_tests_pass old_state_file_passes)

end
