(* ===== verification/NetTests.thy ===== *)
theory NetTests
  imports PoolHash Sni QuicPacket
begin

text \<open>
  The unit tests of \<open>src/dataplane\<close> on the model: the outgoing address (\<open>hash.rs\<close>), the names in the
  first bytes of a connection (\<open>sni.rs\<close>) and the variable-length integers of QUIC (\<open>quic.rs\<close>). The
  hash function is an argument, so what is tested holds for every one; the three tests of \<open>hash.rs\<close>
  that ask two values of the real one to differ are tests of that function too, and are shown to pass
  with a simple one that separates their inputs.
\<close>

section \<open>The outgoing address\<close>

definition test_binding :: "timestamp \<Rightarrow> hash_policy \<Rightarrow> u64 \<Rightarrow> binding" where
  "test_binding now policy seed = \<lparr>bd_policy = policy, bd_seed = seed, bd_updated_at = now\<rparr>"

definition test_same_src_same_output :: "hasher \<Rightarrow> timestamp \<Rightarrow> bool" where
  "test_same_src_same_output sip now =
     (case (v6_pool_parse ''2001:db8:a::/64'', parse_ip_addr ''203.0.113.10'', parse_ip_addr ''93.184.216.34'',
            parse_ip_addr ''1.2.3.4'') of
        (Inr pool, Some src, Some dst, Some other) \<Rightarrow>
          (let b = test_binding now SrcIp 0x1234567890abcdef;
               v6_1 = pick_outgoing sip [pool] b src dst 12345 443;
               v6_2 = pick_outgoing sip [pool] b src other 54321 80
           in v6_1 = v6_2 \<and> v6_1 \<noteq> None)
      | _ \<Rightarrow> False)"

definition test_output_in_pool :: "hasher \<Rightarrow> timestamp \<Rightarrow> bool" where
  "test_output_in_pool sip now =
     (case (v6_pool_parse ''2001:db8:a::/64'', parse_ip_addr ''10.0.0.1'', parse_ip_addr ''1.1.1.1'',
            parse_ipv6_addr ''2001:0db8:000a:0000::'') of
        (Inr pool, Some src, Some dst, Some network) \<Rightarrow>
          (case pick_outgoing sip [pool] (test_binding now SrcIp 0x1111111111111111) src dst 1 443 of
             Some (Some v6) \<Rightarrow> and v6 (push_bit 64 (- 1)) = and network (push_bit 64 (- 1))
           | _ \<Rightarrow> False)
      | _ \<Rightarrow> False)"

definition hash_tests :: "hasher \<Rightarrow> timestamp \<Rightarrow> bool" where
  "hash_tests sip now = (test_same_src_same_output sip now \<and> test_output_in_pool sip now)"

text \<open>Two calls that must choose different addresses, neither of them panicking.\<close>

definition picks_differ :: "u128 option run \<Rightarrow> u128 option run \<Rightarrow> bool" where
  "picks_differ a b \<longleftrightarrow> a \<noteq> None \<and> b \<noteq> None \<and> a \<noteq> b"

definition test_different_src_different_output :: "hasher \<Rightarrow> timestamp \<Rightarrow> bool" where
  "test_different_src_different_output sip now =
     (case (v6_pool_parse ''2001:db8:a::/64'', parse_ip_addr ''93.184.216.34'', parse_ip_addr ''203.0.113.10'',
            parse_ip_addr ''203.0.113.11'') of
        (Inr pool, Some dst, Some src1, Some src2) \<Rightarrow>
          (let b = test_binding now SrcIp 0x1234567890abcdef
           in picks_differ (pick_outgoing sip [pool] b src1 dst 1 443) (pick_outgoing sip [pool] b src2 dst 1 443))
      | _ \<Rightarrow> False)"

definition test_src_dst_policy :: "hasher \<Rightarrow> timestamp \<Rightarrow> bool" where
  "test_src_dst_policy sip now =
     (case (v6_pool_parse ''2001:db8:a::/64'', parse_ip_addr ''10.0.0.1'', parse_ip_addr ''1.1.1.1'',
            parse_ip_addr ''8.8.8.8'') of
        (Inr pool, Some src, Some dst1, Some dst2) \<Rightarrow>
          (let b = test_binding now SrcDst 0xdeadbeefcafebabe
           in picks_differ (pick_outgoing sip [pool] b src dst1 1 443) (pick_outgoing sip [pool] b src dst2 1 443))
      | _ \<Rightarrow> False)"

definition test_reseed_changes_output :: "hasher \<Rightarrow> timestamp \<Rightarrow> bool" where
  "test_reseed_changes_output sip now =
     (case (v6_pool_parse ''2001:db8:a::/64'', parse_ip_addr ''10.0.0.1'', parse_ip_addr ''1.1.1.1'') of
        (Inr pool, Some src, Some dst) \<Rightarrow>
          picks_differ (pick_outgoing sip [pool] (test_binding now SrcIp 0xaaaa) src dst 1 443)
            (pick_outgoing sip [pool] (test_binding now SrcIp 0xbbbb) src dst 1 443)
      | _ \<Rightarrow> False)"

definition hash_difference_tests :: "hasher \<Rightarrow> timestamp \<Rightarrow> bool" where
  "hash_difference_tests sip now =
     (test_different_src_different_output sip now \<and> test_src_dst_policy sip now \<and> test_reseed_changes_output sip now)"

text \<open>A hash function that adds up the key and its inputs.\<close>

fun input_value :: "hash_input \<Rightarrow> u64" where
  "input_value (HashIp (IpV4 a)) = ucast a"
| "input_value (HashIp (IpV6 a)) = ucast a"
| "input_value (HashPort p) = ucast p"

definition adding_hasher :: hasher where
  "adding_hasher k0 k1 xs = k0 + sum_list (map input_value xs)"

section \<open>Names in the first bytes\<close>

definition http_request :: "string \<Rightarrow> bytes" where
  "http_request host =
     bytes_of_str (concat (map crlf [''GET / HTTP/1.1'', ''Host: '' @ host, ''Connection: close'', '''']))"

definition test_extract_http_host :: bool where
  "test_extract_http_host = (extract_http_host (http_request ''example.com'') = Some ''example.com'')"

definition test_extract_http_host_with_port :: bool where
  "test_extract_http_host_with_port =
     (extract_http_host (http_request ''example.com:8080'') = Some ''example.com'')"

definition test_extract_http_host_ipv6_literal_with_port :: bool where
  "test_extract_http_host_ipv6_literal_with_port =
     (extract_http_host (http_request ''[2001:db8::1]:8080'') = Some ''2001:db8::1'')"

definition test_extract_http_host_ipv6_literal_no_port :: bool where
  "test_extract_http_host_ipv6_literal_no_port =
     (extract_http_host (http_request ''[2001:db8::1]'') = Some ''2001:db8::1'')"

definition test_extract_http_host_bare_ipv6_no_port_preserved :: bool where
  "test_extract_http_host_bare_ipv6_no_port_preserved =
     (extract_http_host (http_request ''2001:db8::1'') = Some ''2001:db8::1'')"

definition test_extract_tls_sni_no_data :: bool where
  "test_extract_tls_sni_no_data = (extract_tls_sni [] = Some None)"

definition test_extract_tls_sni_not_tls :: bool where
  "test_extract_tls_sni_not_tls = (extract_tls_sni (bytes_of_str ''GET / HTTP/1.1'') = Some None)"

definition sni_tests :: bool where
  "sni_tests =
     (test_extract_http_host \<and> test_extract_http_host_with_port \<and> test_extract_http_host_ipv6_literal_with_port
      \<and> test_extract_http_host_ipv6_literal_no_port \<and> test_extract_http_host_bare_ipv6_no_port_preserved
      \<and> test_extract_tls_sni_no_data \<and> test_extract_tls_sni_not_tls)"

section \<open>Variable-length integers\<close>

definition test_read_varint_1byte :: bool where
  "test_read_varint_1byte = (read_varint [0x25] = Some (Some (37, 1)))"

definition test_read_varint_2byte :: bool where
  "test_read_varint_2byte = (read_varint [0x7b, 0xbd] = Some (Some (15293, 2)))"

definition test_read_varint_empty :: bool where
  "test_read_varint_empty = (read_varint [] = Some None)"

definition varint_tests :: bool where
  "varint_tests = (test_read_varint_1byte \<and> test_read_varint_2byte \<and> test_read_varint_empty)"

section \<open>They pass\<close>

lemma varint_tests_pass: "varint_tests"
  by code_simp

lemma test_extract_http_host_passes: "test_extract_http_host"
  by code_simp

lemma test_extract_tls_passes: "test_extract_tls_sni_no_data \<and> test_extract_tls_sni_not_tls"
  by code_simp

lemma test_http_hosts_pass:
  "test_extract_http_host_with_port" "test_extract_http_host_ipv6_literal_with_port"
  "test_extract_http_host_ipv6_literal_no_port" "test_extract_http_host_bare_ipv6_no_port_preserved"
  by code_simp+

lemma sni_tests_pass: "sni_tests"
  by (simp add: sni_tests_def test_extract_http_host_passes test_http_hosts_pass test_extract_tls_passes)

definition test_pool :: v6_pool where
  "test_pool = \<lparr>pl_prefix = 0x20010db8000a * 2 ^ 80, pl_prefix_len = 64\<rparr>"

lemma test_texts:
  "v6_pool_parse ''2001:db8:a::/64'' = Inr test_pool"
  "parse_ipv6_addr ''2001:0db8:000a:0000::'' = Some (0x20010db8000a * 2 ^ 80)"
  "parse_ip_addr ''203.0.113.10'' = Some (IpV4 0xcb00710a)" "parse_ip_addr ''93.184.216.34'' = Some (IpV4 0x5db8d822)"
  "parse_ip_addr ''1.2.3.4'' = Some (IpV4 0x01020304)" "parse_ip_addr ''10.0.0.1'' = Some (IpV4 0x0a000001)"
  "parse_ip_addr ''1.1.1.1'' = Some (IpV4 0x01010101)" "parse_ip_addr ''8.8.8.8'' = Some (IpV4 0x08080808)"
  "parse_ip_addr ''203.0.113.11'' = Some (IpV4 0xcb00710b)"
  by (simp_all add: test_pool_def v6_pool_parse_def parse_uint_def ip_eval mask_eq_exp_minus_1)

lemma test_pool_host: "and (host_at test_pool h) (push_bit 64 (- 1)) = and (0x20010db8000a * 2 ^ 80) (push_bit 64 (- 1))"
proof -
  have wf: "pool_wf test_pool" using v6_pool_parse_wf test_texts(1) by blast
  have "in_pool test_pool (host_at test_pool h)"
    by (rule host_at_in_pool(1) [OF wf]) (simp add: test_pool_def)
  then have top: "drop_bit 64 (host_at test_pool h) = drop_bit 64 (0x20010db8000a * 2 ^ 80)"
    by (simp add: in_pool_def host_bits_def test_pool_def)
  have upper: "and x (push_bit 64 (- 1)) = push_bit 64 (drop_bit 64 x)" for x :: u128
    by (rule bit_eqI) (auto simp: bit_simps)
  show ?thesis unfolding upper top ..
qed

lemma hash_tests_pass: "hash_tests sip now"
proof -
  note in_pool = test_pool_host [simplified]
  have one: "pick_outgoing sip [test_pool] b src dst sp dp
      = Some (Some (host_at test_pool (sip (bd_seed b) (word_rotl 17 (bd_seed b)) (hashed_values (bd_policy b) src dst sp dp))))"
    for b src dst sp dp by (simp add: pick_outgoing_def idx_def Let_def)
  show ?thesis
    by (simp add: hash_tests_def test_same_src_same_output_def test_output_in_pool_def test_texts one test_binding_def
        in_pool Let_def)
qed

lemma hash_difference_tests_pass: "hash_difference_tests adding_hasher now"
  by (simp add: hash_difference_tests_def test_different_src_different_output_def test_src_dst_policy_def
      test_reseed_changes_output_def test_texts picks_differ_def pick_outgoing_def idx_def test_binding_def
      adding_hasher_def host_at_def test_pool_def Let_def)

end
