(* ===== verification/ConfigTests.thy ===== *)
theory ConfigTests
  imports ConfigFile Startup
begin

text \<open>
  The unit tests of \<open>src/config.rs\<close> on the model. A configuration text stands as the document that the
  parser of the crate \<open>toml\<close> gives for it; networks are those of the plain instance of the crate
  \<open>ipnet\<close>.
\<close>

section \<open>Configuration files\<close>

text \<open>\<open>minimal_config(extra)\<close>: the tables of the text, then those of \<open>extra\<close>.\<close>

definition minimal_config :: "(string \<times> toml) list \<Rightarrow> (string \<times> toml) list" where
  "minimal_config extra =
     [(''admin'', TTable
         [(''bind'', TStr ''127.0.0.1:8787''),
          (''token_hash'', TStr ''$argon2id$v=19$m=19456,t=2,p=1$c29tZXNhbHQ$placeholder''),
          (''allowlist'', TArr [TStr ''127.0.0.1''])]),
      (''data'', TTable
         [(''tcp_binds'', TArr [TStr ''127.0.0.1:8080'']), (''udp_binds'', TArr [TStr ''127.0.0.1:8443''])]),
      (''paths'', TTable [(''state'', TStr ''/tmp/v6proxy-policies.json'')]),
      (''machine'', TTable [(''v6_pools'', TArr [TStr ''2001:db8:a::/64''])])] @ extra"

text \<open>The configuration with some more tables has a property; a text that does not decode fails.\<close>

definition with_config :: "(string \<times> toml) list \<Rightarrow> (config \<Rightarrow> bool) \<Rightarrow> bool" where
  "with_config extra check =
     (case config_of_toml (minimal_config extra) of None \<Rightarrow> False | Some cfg \<Rightarrow> check cfg)"

definition default_policy_is_src_ip_when_omitted :: bool where
  "default_policy_is_src_ip_when_omitted = with_config [] (\<lambda>cfg. pc_default (cf_policy cfg) = SrcIp)"

definition default_policy_can_be_configured :: bool where
  "default_policy_can_be_configured =
     with_config [(''policy'', TTable [(''default'', TStr ''five_tuple'')])]
       (\<lambda>cfg. pc_default (cf_policy cfg) = FiveTuple)"

definition default_seed_is_zero_when_omitted :: bool where
  "default_seed_is_zero_when_omitted = with_config [] (\<lambda>cfg. pc_default_seed (cf_policy cfg) = 0)"

definition default_seed_can_be_configured_as_integer :: bool where
  "default_seed_can_be_configured_as_integer =
     with_config [(''policy'', TTable [(''default_seed'', TInt 42)])]
       (\<lambda>cfg. pc_default_seed (cf_policy cfg) = 42)"

definition default_seed_can_be_configured_as_hex_string :: bool where
  "default_seed_can_be_configured_as_hex_string =
     with_config [(''policy'', TTable [(''default_seed'', TStr ''0x2a'')])]
       (\<lambda>cfg. pc_default_seed (cf_policy cfg) = 42)"

definition domain_config_defaults_empty_when_omitted :: bool where
  "domain_config_defaults_empty_when_omitted =
     with_config [] (\<lambda>cfg. dc_allow (cf_domain cfg) = [] \<and> dc_deny (cf_domain cfg) = [])"

definition domain_config_parses_allow_and_deny :: bool where
  "domain_config_parses_allow_and_deny =
     with_config
       [(''domain'', TTable
           [(''allow'', TArr [TStr ''full:safe.example.com'']),
            (''deny'', TArr [TStr ''domain:example.com'', TStr ''keyword:ads''])])]
       (\<lambda>cfg. dc_allow (cf_domain cfg) = [''full:safe.example.com''] \<and> length (dc_deny (cf_domain cfg)) = 2
          \<and> res_ok (domain_validate (cf_domain cfg)) \<noteq> None)"

definition domain_config_validate_rejects_bad_rule :: bool where
  "domain_config_validate_rejects_bad_rule =
     with_config [(''domain'', TTable [(''deny'', TArr [TStr ''regexp:nope''])])]
       (\<lambda>cfg. res_ok (domain_validate (cf_domain cfg)) = None)"

definition config_tests :: bool where
  "config_tests =
     (default_policy_is_src_ip_when_omitted \<and> default_policy_can_be_configured \<and> default_seed_is_zero_when_omitted
      \<and> default_seed_can_be_configured_as_integer \<and> default_seed_can_be_configured_as_hex_string
      \<and> domain_config_defaults_empty_when_omitted \<and> domain_config_parses_allow_and_deny
      \<and> domain_config_validate_rejects_bad_rule)"

section \<open>Egress filters\<close>

text \<open>A filter built from a configuration, and what it says of some addresses.\<close>

definition egress_says :: "egress_config \<Rightarrow> (string \<times> bool) list \<Rightarrow> bool" where
  "egress_says cfg verdicts =
     (case egress_build plain_ops (ec_allow cfg) (ec_deny cfg) of
        Some (Inr f) \<Rightarrow>
          list_all (\<lambda>(text, verdict).
            case parse_ip_addr text of
              None \<Rightarrow> False
            | Some ip \<Rightarrow> egress_allowed plain_ops f ip = verdict) verdicts
      | _ \<Rightarrow> False)"

definition egress_blocks_internal_ranges_by_default :: bool where
  "egress_blocks_internal_ranges_by_default =
     egress_says egress_config_default
       [(''2606:4700:4700::1111'', True), (''::1'', False), (''fe80::1'', False), (''fd00::1'', False),
        (''ff02::1'', False), (''::ffff:127.0.0.1'', False), (''2002:7f00:1::1'', False),
        (''2002:a9fe:101::1'', False), (''::127.0.0.1'', False)]"

definition egress_deny_list_adds_ranges :: bool where
  "egress_deny_list_adds_ranges =
     egress_says \<lparr>ec_allow = [], ec_deny = [''2001:4860:4860::/48'']\<rparr>
       [(''2001:4860:4860::8888'', False), (''2606:4700:4700::1111'', True)]"

definition egress_allow_list_is_whitelist_and_overrides_deny :: bool where
  "egress_allow_list_is_whitelist_and_overrides_deny =
     egress_says \<lparr>ec_allow = [''fd12:3456::/32''], ec_deny = []\<rparr>
       [(''fd12:3456::1'', True), (''2606:4700:4700::1111'', False)]"

definition egress_allows_broad_range_but_blocks_specific_subrange :: bool where
  "egress_allows_broad_range_but_blocks_specific_subrange =
     egress_says \<lparr>ec_allow = [''2606:4700::/32''], ec_deny = [''2606:4700:dead::/48'']\<rparr>
       [(''2606:4700:dead::1'', False), (''2606:4700:beef::1'', True)]"

definition egress_tests :: bool where
  "egress_tests =
     (egress_blocks_internal_ranges_by_default \<and> egress_deny_list_adds_ranges
      \<and> egress_allow_list_is_whitelist_and_overrides_deny \<and> egress_allows_broad_range_but_blocks_specific_subrange)"

section \<open>They pass\<close>

lemmas decoding = with_config_def minimal_config_def config_of_toml_def admin_of_toml_def data_of_toml_def
  paths_of_toml_def machine_of_toml_def policy_of_toml_def egress_of_toml_def domain_of_toml_def
  json_required_def json_defaulted_def policy_config_default_def domain_config_default_def
  default_hash_policy_config_def hash_policy_from_str_def

lemma small_seed: "\<not> (42 :: 64 word) <s 0"
  by (simp add: word_sless_alt)

lemma policy_tests_pass:
  "default_policy_is_src_ip_when_omitted" "default_policy_can_be_configured" "default_seed_is_zero_when_omitted"
  "default_seed_can_be_configured_as_integer" "domain_config_defaults_empty_when_omitted"
  by (simp_all add: default_policy_is_src_ip_when_omitted_def default_policy_can_be_configured_def
      default_seed_is_zero_when_omitted_def default_seed_can_be_configured_as_integer_def
      domain_config_defaults_empty_when_omitted_def small_seed decoding)

lemma hex_seed_passes: "default_seed_can_be_configured_as_hex_string"
proof -
  have "parse_seed ''0x2a'' = Some 42"
    by (simp add: parse_seed_def strip_prefix_def parse_uint_def to_digit_def code_def)
  then show ?thesis by (simp add: default_seed_can_be_configured_as_hex_string_def decoding)
qed

lemma domain_config_tests_pass:
  "domain_config_parses_allow_and_deny" "domain_config_validate_rejects_bad_rule"
proof -
  have "res_ok (domain_validate \<lparr>dc_allow = [''full:safe.example.com''], dc_deny = [''domain:example.com'', ''keyword:ads'']\<rparr>) \<noteq> None"
    "res_ok (domain_validate \<lparr>dc_allow = [], dc_deny = [''regexp:nope'']\<rparr>) = None"
    by code_simp+
  then show "domain_config_parses_allow_and_deny" "domain_config_validate_rejects_bad_rule"
    by (simp_all add: domain_config_parses_allow_and_deny_def domain_config_validate_rejects_bad_rule_def decoding)
qed

lemma config_tests_pass: "config_tests"
  by (simp add: config_tests_def policy_tests_pass hex_seed_passes domain_config_tests_pass)

lemma test_ips:
  "parse_ip_addr ''2606:4700:4700::1111'' = Some (IpV6 0x26064700470000000000000000001111)"
  "parse_ip_addr ''::1'' = Some (IpV6 1)"
  "parse_ip_addr ''fe80::1'' = Some (IpV6 0xfe800000000000000000000000000001)"
  "parse_ip_addr ''fd00::1'' = Some (IpV6 0xfd000000000000000000000000000001)"
  "parse_ip_addr ''ff02::1'' = Some (IpV6 0xff020000000000000000000000000001)"
  "parse_ip_addr ''::ffff:127.0.0.1'' = Some (IpV6 0xffff7f000001)"
  "parse_ip_addr ''2002:7f00:1::1'' = Some (IpV6 0x20027f00000100000000000000000001)"
  "parse_ip_addr ''2002:a9fe:101::1'' = Some (IpV6 0x2002a9fe010100000000000000000001)"
  "parse_ip_addr ''::127.0.0.1'' = Some (IpV6 0x7f000001)"
  "parse_ip_addr ''2001:4860:4860::8888'' = Some (IpV6 0x20014860486000000000000000008888)"
  "parse_ip_addr ''fd12:3456::1'' = Some (IpV6 0xfd123456000000000000000000000001)"
  "parse_ip_addr ''2606:4700:dead::1'' = Some (IpV6 0x26064700dead00000000000000000001)"
  "parse_ip_addr ''2606:4700:beef::1'' = Some (IpV6 0x26064700beef00000000000000000001)"
  by (simp_all add: ip_eval)

lemma test_nets:
  "parse_net plain_ops ''2001:4860:4860::/48'' = Inr (IpV6 0x20014860486000000000000000000000, 48)"
  "parse_net plain_ops ''fd12:3456::/32'' = Inr (IpV6 0xfd123456000000000000000000000000, 32)"
  "parse_net plain_ops ''2606:4700::/32'' = Inr (IpV6 0x26064700000000000000000000000000, 32)"
  "parse_net plain_ops ''2606:4700:dead::/48'' = Inr (IpV6 0x26064700dead00000000000000000000, 48)"
  by (simp_all add: parse_net_def contains_char_def plain_ops_def plain_parse_def split_once_def
      parse_uint_def ip_eval)

text \<open>The filter of the plain instance, entry by entry.\<close>

definition plain_filter :: "(ip_addr \<times> u8) list \<Rightarrow> (ip_addr \<times> u8) list \<Rightarrow> (ip_addr \<times> u8) egress_filter" where
  "plain_filter allow deny =
     \<lparr>ef_allow = allow, ef_deny = deny @ map (\<lambda>(s, a, n). (IpV6 a, of_nat n)) builtin_table\<rparr>"

lemma plain_filter_built:
  "parse_net_list plain_ops allow = Inr as \<Longrightarrow> parse_net_list plain_ops deny = Inr ds \<Longrightarrow>
     egress_build plain_ops allow deny = Some (Inr (plain_filter as ds))"
  by (simp add: egress_build_Inr plain_builtin_blocked plain_filter_def)

lemma plain_contains_eq: "net_contains plain_ops = plain_contains"
  by (simp add: plain_ops_def)

lemmas egress_evaluation = egress_says_def parse_net_list_def test_nets test_ips plain_filter_def
  builtin_table_def egress_allowed_def best_net_def plain_contains_eq plain_prefix_len in_cidr6_def plain_len_def

lemma egress_defaults_pass: "egress_blocks_internal_ranges_by_default"
  using plain_filter_built [of "[]" "[]" "[]"]
  by (simp add: egress_blocks_internal_ranges_by_default_def egress_config_default_def egress_evaluation)

lemma egress_deny_passes: "egress_deny_list_adds_ranges"
  using plain_filter_built [of "[]" "[]" "[''2001:4860:4860::/48'']"]
  by (simp add: egress_deny_list_adds_ranges_def egress_evaluation)

lemma egress_allow_passes: "egress_allow_list_is_whitelist_and_overrides_deny"
  using plain_filter_built [of "[''fd12:3456::/32'']" _ "[]"]
  by (simp add: egress_allow_list_is_whitelist_and_overrides_deny_def egress_evaluation)

lemma egress_hole_passes: "egress_allows_broad_range_but_blocks_specific_subrange"
  using plain_filter_built [of "[''2606:4700::/32'']" _ "[''2606:4700:dead::/48'']"]
  by (simp add: egress_allows_broad_range_but_blocks_specific_subrange_def egress_evaluation)

lemma egress_tests_pass: "egress_tests"
  by (simp add: egress_tests_def egress_defaults_pass egress_deny_passes egress_allow_passes egress_hole_passes)

end
