(* ===== verification/ApiTests.thy ===== *)
theory ApiTests
  imports ApiServer ConfigTests
begin

text \<open>
  The unit tests of \<open>src/api/handlers.rs\<close> on the model. The statics start as those of a fresh process
  (the tests hold a lock and set the live policies themselves); the state file is in a directory that
  can be written; a field of the JSON answer is the field of the response record.
\<close>

section \<open>The tests\<close>

type_synonym test_app = "(ip_addr \<times> u8) app"

definition set_bindings :: "timestamp \<Rightarrow> (ip_addr \<Rightarrow> binding option) \<Rightarrow> test_app \<Rightarrow> test_app" where
  "set_bindings now bindings s =
     s\<lparr>pr_policies := (policies_default now)\<lparr>pol_version := 1, pol_bindings := bindings\<rparr>\<rparr>"

text \<open>The answer of \<open>get_binding\<close> has these fields.\<close>

definition answers_binding :: "response \<Rightarrow> string \<Rightarrow> string \<Rightarrow> string \<Rightarrow> bool \<Rightarrow> bool" where
  "answers_binding r srcip policy seed found =
     (rs_status r = 200
      \<and> (case rs_body r of
           BindingBody b \<Rightarrow> br_srcip b = srcip \<and> hash_policy_display (br_policy b) = policy \<and> br_seed b = seed
             \<and> br_exists b = found
         | _ \<Rightarrow> False))"

definition get_binding_returns_default_when_missing :: "env \<Rightarrow> test_app \<Rightarrow> bool" where
  "get_binding_returns_default_when_missing env s =
     (let s1 = set_bindings (env_now env) Map.empty s;
          (r, s2) = get_binding example_api env ''203.0.113.10'' s1
      in answers_binding r ''203.0.113.10'' ''src_ip'' ''0x0000000000000000'' False)"

text \<open>The binding dates from 2026-01-02 03:04:05 UTC, in seconds.\<close>

definition get_binding_marks_existing_binding :: "env \<Rightarrow> test_app \<Rightarrow> bool" where
  "get_binding_marks_existing_binding env s =
     (case parse_ip_addr ''203.0.113.20'' of
        None \<Rightarrow> False
      | Some ip \<Rightarrow>
          (let b = \<lparr>bd_policy = FiveTuple, bd_seed = 0x1234, bd_updated_at = 1767323045\<rparr>;
               s1 = set_bindings (env_now env) [ip \<mapsto> b] s;
               (r, s2) = get_binding example_api env ''203.0.113.20'' s1
           in answers_binding r ''203.0.113.20'' ''five_tuple'' ''0x0000000000001234'' True))"

definition ensure_acl_test_env :: "file_path \<Rightarrow> test_app \<Rightarrow> test_app run" where
  "ensure_acl_test_env p s = do {
     s1 \<leftarrow> init_state_path p s;
     s2 \<leftarrow> init_domain_filter [] [] s1;
     init_egress_filter plain_ops [] [] s2
   }"

text \<open>The first entries of the lists of an answer.\<close>

fun acl_body :: "body \<Rightarrow> acl_view option" where
  "acl_body (AclBody v) = Some v"
| "acl_body _ = None"

definition get_domains_reports_overlay :: "timestamp \<Rightarrow> test_app \<Rightarrow> bool" where
  "get_domains_reports_overlay now s =
     (let p = policies_default now;
          s1 = s\<lparr>pr_policies := p\<lparr>pol_domain_acl := (pol_domain_acl p)\<lparr>deny_add := [''domain:bad.com'']\<rparr>\<rparr>\<rparr>;
          r = get_domains s1
      in rs_status r = 200
         \<and> (case acl_body (rs_body r) of
              None \<Rightarrow> False
            | Some v \<Rightarrow> idx (lv_add (av_deny v)) 0 = Some ''domain:bad.com''
                \<and> idx (lv_effective (av_deny v)) 0 = Some ''domain:bad.com''))"

definition post_domains_rejects_invalid_rule :: "env \<Rightarrow> test_app \<Rightarrow> bool" where
  "post_domains_rejects_invalid_rule env s =
     (case post_domains_allow example_api env [''regexp:nope''] s of
        (None, s1) \<Rightarrow> False
      | (Some r, s1) \<Rightarrow> rs_status r = 400)"

definition post_domains_allow_adds_and_activates_whitelist ::
  "env \<Rightarrow> file_path \<Rightarrow> test_app \<Rightarrow> bool" where
  "post_domains_allow_adds_and_activates_whitelist env p s =
     (case ensure_acl_test_env p s of
        None \<Rightarrow> False
      | Some s1 \<Rightarrow>
          (case post_domains_allow example_api env [''Bad.COM''] (s1\<lparr>pr_policies := policies_default (env_now env)\<rparr>) of
             (None, s2) \<Rightarrow> False
           | (Some r, s2) \<Rightarrow>
               rs_status r = 200
               \<and> (case acl_body (rs_body r) of
                    None \<Rightarrow> False
                  | Some v \<Rightarrow> idx (lv_effective (av_allow v)) 0 = Some ''domain:bad.com'')
               \<and> host_allowed (ap_domain_filter s2) ''bad.com''
               \<and> \<not> host_allowed (ap_domain_filter s2) ''good.com''))"

definition post_egress_deny_adds_and_blocks_range ::
  "env \<Rightarrow> file_path \<Rightarrow> test_app \<Rightarrow> bool" where
  "post_egress_deny_adds_and_blocks_range env p s =
     (case ensure_acl_test_env p s of
        None \<Rightarrow> False
      | Some s1 \<Rightarrow>
          (case post_egress_deny example_api env [''2606:4700:4700::/48''] (s1\<lparr>pr_policies := policies_default (env_now env)\<rparr>) of
             (None, s2) \<Rightarrow> False
           | (Some r, s2) \<Rightarrow>
               rs_status r = 200
               \<and> (case acl_body (rs_body r) of
                    None \<Rightarrow> False
                  | Some v \<Rightarrow> idx (lv_effective (av_deny v)) 0 = Some ''2606:4700:4700::/48'')
               \<and> (case (parse_ip_addr ''2606:4700:4700::1111'', parse_ip_addr ''2001:4860:4860::8888'') of
                    (Some blocked, Some other) \<Rightarrow>
                      \<not> egress_allowed plain_ops (ap_egress_filter s2) blocked
                      \<and> egress_allowed plain_ops (ap_egress_filter s2) other
                  | _ \<Rightarrow> False)))"

definition handler_tests :: "env \<Rightarrow> file_path \<Rightarrow> test_app \<Rightarrow> bool" where
  "handler_tests env p s =
     (get_binding_returns_default_when_missing env s \<and> get_binding_marks_existing_binding env s
      \<and> get_domains_reports_overlay (env_now env) s \<and> post_domains_rejects_invalid_rule env s
      \<and> post_domains_allow_adds_and_activates_whitelist env p s \<and> post_egress_deny_adds_and_blocks_range env p s)"

section \<open>They pass\<close>

lemma digit_chars:
  "map digit_char [0, 1, 2, 3, 4, 5, 6, 7, 8, 9] = ''0123456789''"
  by code_simp

lemma digit_char_simps:
  "digit_char 0 = CHR ''0''" "digit_char 1 = CHR ''1''" "digit_char 2 = CHR ''2''" "digit_char 3 = CHR ''3''"
  "digit_char 4 = CHR ''4''" "digit_char 5 = CHR ''5''" "digit_char 6 = CHR ''6''" "digit_char 7 = CHR ''7''"
  "digit_char 8 = CHR ''8''" "digit_char 9 = CHR ''9''"  "digit_char (Suc 0) = CHR ''1''"
  using digit_chars by simp_all

lemma upts: "[0..<4] = [0, 1, 2, 3]" "[0..<8] = [0, 1, 2, 3, 4, 5, 6, 7]"
  by (simp_all add: upt_rec)

lemma test_shows:
  "show_ip (IpV4 0xcb00710a) = ''203.0.113.10''" "show_ip (IpV4 0xcb007114) = ''203.0.113.20''"
  "show_ip (IpV6 0x26064700470000000000000000000000) = ''2606:4700:4700::''"
  "show_digits 3 10 48 = ''48''"
  "format_0x016 0 = ''0x0000000000000000''" "format_0x016 0x1234 = ''0x0000000000001234''"
  by (simp_all add: show_v4_def v4_octets_def show_v6_def v6_segments_def fmt_subslice_def upts
      show_digits_def format_0x016_def fixed_digits_def digit_char_simps)

lemma test_addresses:
  "parse_ip_addr ''203.0.113.10'' = Some (IpV4 0xcb00710a)" "parse_ip_addr ''203.0.113.20'' = Some (IpV4 0xcb007114)"
  "parse_ip_addr ''2606:4700:4700::1111'' = Some (IpV6 0x26064700470000000000000000001111)"
  "parse_ip_addr ''2001:4860:4860::8888'' = Some (IpV6 0x20014860486000000000000000008888)"
  by (simp_all add: ip_eval)

lemma get_binding_tests_pass:
  "pr_default_policy s = None \<Longrightarrow> pr_default_seed s = None \<Longrightarrow> get_binding_returns_default_when_missing env s"
  "get_binding_marks_existing_binding env s"
  by (simp_all add: get_binding_returns_default_when_missing_def get_binding_marks_existing_binding_def
      set_bindings_def policies_default_def get_binding_def test_addresses default_binding_def
      default_hash_policy_def default_binding_seed_def answers_binding_def from_binding_def test_shows [simplified show_ip.simps])

lemma get_domains_test_passes: "ap_domain_base s = None \<Longrightarrow> get_domains_reports_overlay now s"
  by (simp add: get_domains_reports_overlay_def get_domains_def domain_view_def domain_base_def acl_view_of_def
      policies_default_def effective_deny_def merge_acl_def acl_delta_default_def idx_def)

lemma rule_batches:
  "canon_batch (\<lambda>r. map_err RuleError (canonicalize_rule r)) [''regexp:nope'']
     = Inl (''regexp:nope'', RuleError (InvalidDomain ''regexp:nope''))"
  "canon_batch (\<lambda>r. map_err RuleError (canonicalize_rule r)) [''Bad.COM''] = Inr [''domain:bad.com'']"
proof -
  have "canonicalize_rule ''regexp:nope'' = Inl (InvalidDomain ''regexp:nope'')"
    "canonicalize_rule ''Bad.COM'' = Inr ''domain:bad.com''" by code_simp+
  then show "canon_batch (\<lambda>r. map_err RuleError (canonicalize_rule r)) [''regexp:nope'']
      = Inl (''regexp:nope'', RuleError (InvalidDomain ''regexp:nope''))"
    "canon_batch (\<lambda>r. map_err RuleError (canonicalize_rule r)) [''Bad.COM''] = Inr [''domain:bad.com'']"
    by (simp_all add: canon_batch_def)
qed

lemma invalid_rule_passes: "post_domains_rejects_invalid_rule env s"
  by (simp add: post_domains_rejects_invalid_rule_def post_domains_allow_def mutate_acl_def rule_batches)

text \<open>A directory that can be written.\<close>

lemma writable_save:
  assumes "writable env"
  shows "\<exists>tr. save_policies c env path p fs = (Inr (), tr)"
  using assms by (simp add: save_policies_def writable_def Let_def)

lemma writable_apply:
  assumes io: "writable env" and path: "pr_state_path s = Some path"
  obtains x where "apply_and_save c env (\<lambda>p. Some (g p)) s = (Some (Inr ((g (pr_policies s))
      \<lparr>pol_version := pol_version (g (pr_policies s)) + 1, pol_updated_at := env_now env\<rparr>)),
    s\<lparr>pr_fs := x, pr_policies := (g (pr_policies s))
      \<lparr>pol_version := pol_version (g (pr_policies s)) + 1, pol_updated_at := env_now env\<rparr>\<rparr>)"
proof -
  obtain tr where "save_policies c env path ((g (pr_policies s))
      \<lparr>pol_version := pol_version (g (pr_policies s)) + 1, pol_updated_at := env_now env\<rparr>) (pr_fs s) = (Inr (), tr)"
    using writable_save [OF io] by blast
  then show ?thesis using that path by (simp add: apply_and_save_defs state_path_def Let_def)
qed

lemma test_env_ready:
  obtains s where "ensure_acl_test_env p (boot now fs) = Some s" "pr_state_path s = Some p"
    "ap_domain_base s = Some ([], [])" "ap_egress_base s = Some ([], [])"
proof -
  let ?s = "(boot now fs)\<lparr>pr_state_path := Some p, ap_domain_base := Some ([], []),
      ap_domain_filter := fst (build_domain_filter [] [] acl_delta_default), ap_egress_base := Some ([], [])\<rparr> :: test_app"
  have "ap_egress_base ?s = Some ([], [])" by simp
  then obtain f where f: "rebuild_egress_filter plain_ops ?s = Some (?s\<lparr>ap_egress_filter := f\<rparr>)"
    by (rule rebuild_egress_total [OF plain_laws])
  have "ensure_acl_test_env p (boot now fs) = Some (?s\<lparr>ap_egress_filter := f\<rparr>)"
    using f by (simp add: ensure_acl_test_env_def init_state_path_def init_domain_filter_def init_egress_filter_def
        boot_simps rebuild_domain_filter_def set_once_def policies_default_def List.map_filter_def case_prod_beta Let_def)
  then show ?thesis by (rule that) simp_all
qed

definition allow_bad :: acl_delta where
  "allow_bad = acl_delta_default\<lparr>allow_add := [''domain:bad.com'']\<rparr>"

lemma allow_bad_hosts:
  "host_allowed (fst (build_domain_filter [] [] allow_bad)) ''bad.com''"
  "\<not> host_allowed (fst (build_domain_filter [] [] allow_bad)) ''good.com''"
  by code_simp+

lemma whitelist_test_passes:
  assumes io: "writable env"
  shows "post_domains_allow_adds_and_activates_whitelist env p (boot now fs)"
proof -
  obtain s where s: "ensure_acl_test_env p (boot now fs) = Some s" "pr_state_path s = Some p"
    "ap_domain_base s = Some ([], [])"
    by (rule test_env_ready)
  let ?s = "s\<lparr>pr_policies := policies_default (env_now env)\<rparr>"
  have base: "domain_base ?s = ([], [])" using s(3) by (simp add: domain_base_def)
  have acl: "fold (acl_step Allow Add [] []) [''domain:bad.com''] acl_delta_default = allow_bad"
    by (simp add: acl_step_def add_allow_def apply_add_def acl_delta_default_def allow_bad_def)
  have path: "pr_state_path ?s = Some p" using s(2) by simp
  let ?g = "select_domain (fold (acl_step Allow Add [] []) [''domain:bad.com''])"
  let ?p = "(?g (pr_policies ?s))\<lparr>pol_version := pol_version (?g (pr_policies ?s)) + 1, pol_updated_at := env_now env\<rparr>"
  obtain x where x: "apply_and_save plain_codec env (\<lambda>p. Some (?g p)) ?s
      = (Some (Inr ?p), ?s\<lparr>pr_fs := x, pr_policies := ?p\<rparr>)"
    by (rule writable_apply [OF io path])
  have p: "pol_domain_acl ?p = allow_bad"
    using acl by (simp add: select_domain_def policies_default_def)
  define s2 where "s2 = ?s\<lparr>pr_fs := x, pr_policies := ?p, ap_domain_filter := fst (build_domain_filter [] [] allow_bad)\<rparr>"
  have "rebuild_domain_filter (?s\<lparr>pr_fs := x, pr_policies := ?p\<rparr>) = Some s2"
    using p s(3) by (simp add: rebuild_domain_filter_def s2_def case_prod_beta Let_def)
  then have run: "post_domains_allow example_api env [''Bad.COM''] ?s = (Some (respond 200 (AclBody (domain_view s2))), s2)"
    using x base by (simp add: post_domains_allow_def mutate_acl_def rule_batches acl_apply_def acl_update_def)
  have "lv_effective (av_allow (domain_view s2)) = [''domain:bad.com'']"
    using p s(3) by (simp add: s2_def domain_view_def domain_base_def acl_view_of_def effective_allow_def merge_acl_def
        allow_bad_def acl_delta_default_def)
  then show ?thesis
    using allow_bad_hosts
    by (simp add: post_domains_allow_adds_and_activates_whitelist_def s(1) run idx_def s2_def)
qed

text \<open>The same for the list of addresses.\<close>

definition deny_range :: acl_delta where
  "deny_range = acl_delta_default\<lparr>deny_add := [''2606:4700:4700::/48'']\<rparr>"

lemma range_net: "parse_net plain_ops ''2606:4700:4700::/48'' = Inr (IpV6 0x26064700470000000000000000000000, 48)"
  by (simp add: parse_net_def contains_char_def plain_ops_def plain_parse_def split_once_def
      parse_uint_def ip_eval)

lemma range_batch:
  "canon_batch (\<lambda>r. map_err NetError (canonicalize_net plain_ops r)) [''2606:4700:4700::/48'']
     = Inr [''2606:4700:4700::/48'']"
proof -
  have "net_show plain_ops (net_trunc plain_ops (IpV6 0x26064700470000000000000000000000, 48)) = ''2606:4700:4700::/48''"
    using test_shows by (simp add: plain_ops_def plain_len_def)
  then show ?thesis by (simp add: canon_batch_def canonicalize_net_def range_net)
qed

lemma range_filter:
  "build_egress_filter plain_ops [] [] deny_range
     = Some (plain_filter [] [(IpV6 0x26064700470000000000000000000000, 48)], [])"
  "\<not> egress_allowed plain_ops (plain_filter [] [(IpV6 0x26064700470000000000000000000000, 48)])
     (IpV6 0x26064700470000000000000000001111)"
  "egress_allowed plain_ops (plain_filter [] [(IpV6 0x26064700470000000000000000000000, 48)])
     (IpV6 0x20014860486000000000000000008888)"
proof -
  have e: "effective_allow deny_range [] = []" "effective_deny deny_range [] = [''2606:4700:4700::/48'']"
    by (simp_all add: effective_allow_def effective_deny_def merge_acl_def deny_range_def acl_delta_default_def)
  have "egress_build plain_ops [] [''2606:4700:4700::/48'']
      = Some (Inr (plain_filter [] [(IpV6 0x26064700470000000000000000000000, 48)]))"
    by (rule plain_filter_built) (simp_all add: parse_net_list_def range_net)
  then show "build_egress_filter plain_ops [] [] deny_range
     = Some (plain_filter [] [(IpV6 0x26064700470000000000000000000000, 48)], [])"
    by (simp add: build_egress_filter_def e range_net)
qed (simp_all add: plain_filter_def builtin_table_def egress_allowed_def best_net_def plain_contains_eq
    plain_prefix_len in_cidr6_def plain_len_def)

lemma range_test_passes:
  assumes io: "writable env"
  shows "post_egress_deny_adds_and_blocks_range env p (boot now fs)"
proof -
  obtain s where s: "ensure_acl_test_env p (boot now fs) = Some s" "pr_state_path s = Some p"
    "ap_egress_base s = Some ([], [])"
    by (rule test_env_ready)
  let ?s = "s\<lparr>pr_policies := policies_default (env_now env)\<rparr>"
  have base: "egress_base ?s = ([], [])" using s(3) by (simp add: egress_base_def)
  have acl: "fold (acl_step Deny Add [] []) [''2606:4700:4700::/48''] acl_delta_default = deny_range"
    by (simp add: acl_step_def add_deny_def apply_add_def acl_delta_default_def deny_range_def)
  have path: "pr_state_path ?s = Some p" using s(2) by simp
  let ?g = "select_egress (fold (acl_step Deny Add [] []) [''2606:4700:4700::/48''])"
  let ?p = "(?g (pr_policies ?s))\<lparr>pol_version := pol_version (?g (pr_policies ?s)) + 1, pol_updated_at := env_now env\<rparr>"
  obtain x where x: "apply_and_save plain_codec env (\<lambda>p. Some (?g p)) ?s
      = (Some (Inr ?p), ?s\<lparr>pr_fs := x, pr_policies := ?p\<rparr>)"
    by (rule writable_apply [OF io path])
  have p: "pol_egress_acl ?p = deny_range"
    using acl by (simp add: select_egress_def policies_default_def)
  define s2 where "s2 = ?s\<lparr>pr_fs := x, pr_policies := ?p,
      ap_egress_filter := plain_filter [] [(IpV6 0x26064700470000000000000000000000, 48)]\<rparr>"
  have "rebuild_egress_filter plain_ops (?s\<lparr>pr_fs := x, pr_policies := ?p\<rparr>) = Some s2"
    using p s(3) range_filter(1) by (simp add: rebuild_egress_filter_def s2_def)
  then have run: "post_egress_deny example_api env [''2606:4700:4700::/48''] ?s
      = (Some (respond 200 (AclBody (egress_view s2))), s2)"
    using x base by (simp add: post_egress_deny_def mutate_acl_def range_batch acl_apply_def acl_update_def)
  have "lv_effective (av_deny (egress_view s2)) = [''2606:4700:4700::/48'']"
    using p s(3) by (simp add: s2_def egress_view_def egress_base_def acl_view_of_def effective_deny_def merge_acl_def
        deny_range_def acl_delta_default_def)
  then show ?thesis
    using range_filter(2,3)
    by (simp add: post_egress_deny_adds_and_blocks_range_def s(1) run idx_def s2_def test_addresses)
qed

lemma handler_tests_pass:
  assumes "writable env"
  shows "handler_tests env p (boot now fs)"
  by (simp add: handler_tests_def get_binding_tests_pass get_domains_test_passes invalid_rule_passes
      whitelist_test_passes [OF assms] range_test_passes [OF assms] boot_simps)

end
