(* ===== verification/UnitTests.thy ===== *)
theory UnitTests
  imports AclTests NetTests ApiTests
begin

text \<open>
  The unit tests of the repository, all together, on the definitions of this development: a check of the
  definitions against the inputs that the authors of the program chose, not a property of the program.
\<close>

section \<open>All tests\<close>

text \<open>The model passes the unit tests of the repository: every test function of \<open>acl.rs\<close>, \<open>state.rs\<close>,
  \<open>config.rs\<close>, \<open>handlers.rs\<close>, \<open>hash.rs\<close>, \<open>sni.rs\<close> and \<open>quic.rs\<close> holds of the definitions that model the
  tested functions: those of \<open>hash.rs\<close> for every hash function, or, where they ask it to separate two
  inputs, for one that does; those of the API for every place of the state file.\<close>

lemma unit_tests_pass:
  "decide_tests \<and> domain_tests \<and> filter_tests
   \<and> acl_delta_tests (plain_codec\<lparr>time_parse := (\<lambda>s. Some 1577836800)\<rparr>)
   \<and> config_tests \<and> egress_tests \<and> handler_tests example_env p (boot now fs)
   \<and> hash_tests sip now \<and> hash_difference_tests adding_hasher now \<and> sni_tests \<and> varint_tests"
proof -
  have "handler_tests example_env p (boot now fs)"
    by (rule handler_tests_pass) (simp add: example_env_def writable_def)
  then show ?thesis
    by (simp add: decide_tests_pass domain_tests_pass filter_tests_pass acl_delta_tests_pass config_tests_pass
        egress_tests_pass hash_tests_pass hash_difference_tests_pass sni_tests_pass varint_tests_pass)
qed

end
