(* ===== verification/Spec2Isabelle.thy ===== *)
theory Spec2Isabelle
  imports Process Cli ApiSpec UnitTests
begin

text \<open>
  A verification development of \<open>v6proxy\<close>, a transparent proxy that gives every client connection an
  IPv6 source address drawn from the configured pools. The program reads the server name of a TLS,
  HTTP or QUIC connection, asks two filters (domains and addresses) whether the destination may be
  reached, derives the source address from a keyed hash under the policy of the client's binding, and
  forwards the bytes. An admin API changes the bindings and the filters at run time; the changes are
  persisted in a state file.

  \<^bold>\<open>Theories.\<close>

  \<^item> \<open>V6Prelude\<close>: machine integers, panics as values (\<open>run\<close>), checked reads of slices, results.
  \<^item> \<open>RustStr\<close>: the operations of \<open>str\<close> that the program calls, on UTF-8 byte strings.
  \<^item> \<open>AclDelta\<close> (\<open>src/state.rs\<close>, \<open>AclDelta\<close>): the run-time overlay of an access list; on the effective
    set, adding is union and deleting is difference, and the overlay stays minimal.
  \<^item> \<open>ModelB\<close> (\<open>src/acl.rs\<close>, \<open>decide\<close>): the decision both filters share, with the interface
    \<open>specific_matcher\<close> that a matcher owes it.
  \<^item> \<open>DomainAcl\<close> (\<open>src/acl.rs\<close>): rules, their canonical form, the compiled matcher and the filter; the
    matcher is equivalent to a search for the most specific rule.
  \<^item> \<open>IpAddr\<close>, \<open>IpText\<close>: IP addresses of the standard library, their parser and printer, round trip.
  \<^item> \<open>EgressFilter\<close> (\<open>src/config.rs\<close>): networks, built-in ranges, the address filter.
  \<^item> \<open>Policies\<close> (\<open>src/state.rs\<close>): the persisted data and its encoding, round trip.
  \<^item> \<open>PoolHash\<close> (\<open>src/config.rs\<close>, \<open>src/dataplane/hash.rs\<close>): pools, host addresses, the outgoing
    address.
  \<^item> \<open>StateStore\<close> (\<open>src/state.rs\<close>): the state file under crashes, the directories made for it,
    \<open>apply_and_save\<close> (its decision \<open>save_start\<close>, the file operations, the store \<open>publish\<close>), the cells.
  \<^item> \<open>AclRuntime\<close> (\<open>src/acl.rs\<close>): the live filters, compiled from base and overlay.
  \<^item> \<open>ApiHandlers\<close>, \<open>AclService\<close> (\<open>src/api/handlers.rs\<close>): the handlers; the locale \<open>acl_service\<close> is
    the contract of \<open>AclKind\<close>, interpreted for domains and for networks.
  \<^item> \<open>ApiServer\<close> (\<open>src/api/mod.rs\<close>, \<open>src/api/auth.rs\<close>): tiers, middlewares, the running server.
  \<^item> \<open>ApiSpec\<close>: the admin API as a small database of policies, and the proof that every handler
    implements it.
  \<^item> \<open>AclPolicy\<close>: what configuration base and overlay allow, and that the live filters decide just that.
  \<^item> \<open>ApiTasks\<close>: a request as a task, cut where other tasks may run (before the middlewares, after a
    check, within a save, after it, between the compilation of a filter and its publication). A save is
    many steps: the write lock is taken and the outcome of the file operations is fixed (\<open>begin_save\<close>), then
    one file operation per step, then the store of the live policies; only tasks that want the lock wait
    for it (\<open>lock_free\<close>), so every other task can run between the rename and the store. A task by itself is
    \<open>serve\<close> (lemma \<open>request_alone\<close>). \<open>ApiRuns\<close> holds what every interleaving keeps, proved once in the
    locale \<open>api_run\<close> for any transition system whose steps are those of tasks or leave the API alone;
    \<open>ApiRace\<close> three schedules that break what sequential requests keep.
  \<^item> \<open>Sni\<close> (\<open>src/dataplane/sni.rs\<close>), \<open>Quic\<close> (\<open>src/dataplane/quic.rs\<close>): the parsers of the data plane.
    \<open>QuicPacket\<close> is the sender's side of an Initial packet, which \<open>Quic\<close> reads back.
  \<^item> \<open>Forward\<close> (\<open>src/dataplane/forward.rs\<close>, \<open>src/dataplane/tcp.rs\<close>): the resolution of a name under
    the egress filter, the outgoing connection, \<open>handle_tcp\<close> and the accept loop. What the other tasks
    do to the process state at the two waiting points of a connection is a function of its record
    \<open>conn_io\<close>; nothing is assumed of it. \<open>TcpTasks\<close> cuts the handler at these points, as \<open>Process\<close> runs it
    (lemma \<open>handle_tcp_parts\<close>).
  \<^item> \<open>QuicRelay\<close> (\<open>src/dataplane/quic.rs\<close>): the session table, \<open>handle_quic_packet\<close> cut at its waiting
    points (\<open>quic_arrive\<close>, \<open>quic_resolved\<close>, \<open>quic_sent\<close>), the reverse relay, the cleanup, and the step
    relation \<open>quic_step\<close> in which all tasks and the admin API interleave. \<open>QuicIsolation\<close> holds its
    invariants, \<open>QuicSessions\<close> what they mean for clients, \<open>QuicLiveness\<close> that tasks end and that the
    listener winds down when nothing arrives. The send of a datagram through an existing session is one
    step with the renewal of the session, because the code keeps the guard of the session's table entry
    while it waits for the send: no other task can change that entry in between.
  \<^item> \<open>ConfigFile\<close> (\<open>src/config.rs\<close>, \<open>init_config\<close> of \<open>src/main.rs\<close>): the configuration and its decoding.
  \<^item> \<open>Startup\<close> (\<open>src/main.rs\<close>): validation, initialisation (with the directories that are created for the
    state file, \<open>state_dirs\<close>), binding and serving.
  \<^item> \<open>Cli\<close> (\<open>src/main.rs\<close>): the run of the program that the command line selects, and the starter
    configuration of \<open>deploy/examples/config.toml\<close>.
  \<^item> \<open>Proxy\<close>: the server from startup on, requests one after the other, and the QUIC listener beside
    them (\<open>proxy_step\<close>).
  \<^item> \<open>Process\<close>: the whole process as one step relation (\<open>process_step\<close>): the tasks of the admin API, the
    TCP connections and the QUIC listener with its tasks, interleaved at their waiting points. It
    interprets \<open>api_run\<close>, so what holds of interleaved requests holds of the process.
  \<^item> \<open>AclTests\<close>, \<open>NetTests\<close>, \<open>ConfigTests\<close>, \<open>ApiTests\<close>: the unit tests of the repository, each as a
    proposition about the definitions that model what it tests; \<open>UnitTests\<close> states that all hold. They
    check the definitions and are not counted among the properties.

  \<^bold>\<open>What is shown.\<close> The last section below composes the parts: whatever tasks interleave, traffic reaches
  only what the policies of the run allowed, from an address of a configured pool, except that a pool of
  a single address (/128) is left from its prefix with the lowest bit set (\<open>process_guarded\<close>,
  \<open>leaves_from\<close>, \<open>host_at_single_address\<close>). A name is checked before the lookup and an address after it, so the two verdicts may come from two
  moments of the run; that is what the code does, and what the statement says. The properties of the
  components are the invariants of its state (live policies equal to the file, published filters
  compiled from policies, sessions of one client), refinements (overlay to sets, filters to model B,
  handlers to the database), round trips of the texts and packets, termination and winding down of the
  QUIC tasks, and the behaviour on errors. \<open>ApiRace\<close> and \<open>QuicSessions\<close> also show behaviour that the
  code does not intend.

  \<^bold>\<open>Conventions.\<close> A panic is \<open>None\<close> of type \<open>run\<close>; an error of the source is \<open>Inl\<close> of a sum. Integers
  have the width of the source; a position in a buffer is a natural number, because every sum of
  positions stays below \<open>2 ^ 64\<close>. Loops are recursive functions with a termination proof; no fuel is
  used. The statics of the source are fields of the record \<open>app\<close>. What a system call, the clock or the
  random generator returns is a field of the records \<open>env\<close>, \<open>conn_io\<close>, \<open>packet_io\<close>, \<open>udp_io\<close> and
  \<open>startup_io\<close>. The time of the QUIC listener is a count of nanoseconds.

  \<^bold>\<open>Parameters.\<close> Code outside the repository is an argument: \<open>ipnet_ops\<close> (crate \<open>ipnet\<close>, laws
  \<open>ipnet_laws\<close>), \<open>codec\<close> (\<open>serde_json\<close> and \<open>chrono\<close>, laws \<open>codec_laws\<close>), the hasher (\<open>siphasher\<close>),
  \<open>crypto\<close> (\<open>hkdf\<close>, \<open>aes\<close>, \<open>aes-gcm\<close>, laws \<open>crypto_laws\<close>, the sender's \<open>seal\<close> with \<open>seal_laws\<close>), \<open>argon\<close>
  (\<open>argon2\<close>), the resolver of the system (\<open>resolver_laws\<close> for TCP, the relation \<open>qw_dns\<close> for QUIC: it answers
  at the port it was asked for), the parser of the crate \<open>toml\<close>. Each law states
  documented behaviour, and the witnesses instantiate it with a concrete function.

  \<^bold>\<open>Not modelled.\<close> The system calls behind a socket (\<open>setsockopt\<close>, the layout of a socket address) and
  what flows over a connection once it is open, apart from the two counts of the copy; the asynchronous
  runtime, of which only the points matter where a task waits; the parsing of the command line (the crate
  \<open>clap\<close>) and the output of the log (the crate \<open>tracing\<close>); the parts of \<open>axum\<close> that match paths and decode bodies. They are calls
  into libraries without logic of the program. Flow label and scope of an IPv6 socket address, which the
  program never sets, and the rarer forms in which \<open>serde\<close> accepts a value (a struct as an array, an enum
  as a table in TOML) are left out.
\<close>

section \<open>Properties of the whole program\<close>

text \<open>C1: the whole process: after a successful startup, in every interleaving of admin requests, TCP
  connections and datagrams at their waiting points, every destination that is connected to, or that a
  QUIC session is opened to, was allowed by the policy: model B over configuration base and persisted
  overlay allowed the name in the policies of some moment of the run and the address in those of some
  moment; it is an IPv6 address at the port of the listener, neither loopback nor unspecified. It is
  reached from an address of a configured pool or, for a configured pool of a single address (/128,
  which startup accepts), from its prefix with the lowest bit set, which may lie outside the pool. The
  hypotheses on code outside the repository are the laws of the crates for networks and for the QUIC
  keys, and that the resolver answers at the port it was asked for.\<close>

theorem process_guarded:
  assumes laws: "ipnet_laws (api_nets (aw_api (pw_api w)))" "crypto_laws (qw_crypto (pw_quic w))" "dns_ports (pw_quic w)"
    and start: "startup (api_nets (aw_api (pw_api w))) c su cfg (boot now fs) = (Some (Inr (l, app.truncate s0)), es)"
    and world: "qw_nets (pw_quic w) = api_nets (aw_api (pw_api w))" "qw_pools (pw_quic w) = lo_pools l"
      "aw_tokens (pw_api w) = lo_tokens l"
    and s0: "fresh_process s0"
    and run: "process_steps w s0 s" "used s host port src dst"
  shows "once (process_step w) s0 s (\<lambda>x. domain_policy_allows x host)
    \<and> once (process_step w) s0 s (\<lambda>x. egress_policy_allows (api_nets (aw_api (pw_api w))) x (sa_ip dst))
    \<and> is_ipv6 dst \<and> sa_port dst = port \<and> sa_ip dst \<noteq> IpV6 0 \<and> sa_ip dst \<noteq> IpV6 1
    \<and> (\<exists>t p. t \<in> set (ma_v6_pools (cf_machine cfg)) \<and> v6_pool_parse t = Inr p \<and> leaves_from p src)"
proof -
  have wf: "server_wf (api_nets (aw_api (pw_api w))) s0"
    using startup_wf [OF laws(1) start] by (simp add: server_wf_truncate)
  have ok: "world_ok (pw_quic w)"
    using startup_pools_wf [OF start] laws(3) by (simp add: world_ok_def world(2) list_all_iff)
  note policy = used_policy [OF ok laws(2) world(1) laws(1) s0 wf run]
  note net = used_filters [OF ok laws(2) world(1) s0 run]
  obtain p where p: "p \<in> set (lo_pools l)" "leaves_from p src" using net world(2) by auto
  obtain t where t: "t \<in> set (ma_v6_pools (cf_machine cfg))" "v6_pool_parse t = Inr p"
    using pool_text [OF start p(1)] by blast
  have "sa_ip dst \<noteq> IpV6 0 \<and> sa_ip dst \<noteq> IpV6 1"
    using policy policy_never_local [OF laws(1)] unfolding once_def by blast
  then show ?thesis using policy net p t by blast
qed

theorem process_guarded_witness:
  "\<exists>l a es s src p. startup plain_ops plain_codec all_ok example_config (boot 0 example_boot_fs) = (Some (Inr (l, a)), es)
     \<and> process_steps (web_world (lo_pools l) (lo_tokens l)) (running a) s
     \<and> used s ''a.b'' 80 src example_dst
     \<and> v6_pool_parse ''2001:db8:a::/64'' = Inr p \<and> leaves_from p src"
proof -
  obtain l a es where start: "startup plain_ops plain_codec all_ok example_config (boot 0 example_boot_fs)
      = (Some (Inr (l, a)), es)"
    and pools: "lo_pools l = example_pools"
    and init: "initialised plain_ops plain_codec all_ok example_config example_boot_fs a"
    using example_started by blast
  let ?w = "web_world (lo_pools l) (lo_tokens l)"
  have wf: "live_domain a" "live_egress plain_ops a" using init by (simp_all add: initialised_def server_wf_def)
  have "host_allowed (ap_domain_filter a) ''a.b''"
    using live_domain_allows [OF wf(1), of "''a.b''"] example_policy(1) [OF init] by simp
  moreover have "egress_allowed plain_ops (ap_egress_filter a) (sa_ip example_dst)"
    using live_egress_allows [OF plain_laws wf(2)] example_policy(2) [OF init] by blast
  moreover have "lo_pools l \<noteq> []" by (simp add: pools example_pools_def)
  ultimately obtain s src where run: "process_steps ?w (running a) s" "used s ''a.b'' 80 src example_dst"
    using example_tcp_run by blast
  have world: "api_nets (aw_api (pw_api ?w)) = plain_ops" "qw_nets (pw_quic ?w) = plain_ops"
    "qw_pools (pw_quic ?w) = lo_pools l" "aw_tokens (pw_api ?w) = lo_tokens l" "qw_crypto (pw_quic ?w) = plain_crypto"
    by (simp_all add: web_world_def open_world_def)
  have ok: "dns_ports (pw_quic ?w)"
    by (auto simp: web_world_def open_world_def dns_ports_def example_dst_def dest!: lookup_text_inject)
  have "\<exists>t p. t \<in> set (ma_v6_pools (cf_machine example_config)) \<and> v6_pool_parse t = Inr p \<and> leaves_from p src"
    using process_guarded [of ?w plain_codec all_ok example_config 0 example_boot_fs l "running a" es s "''a.b''" 80 src example_dst]
      start run ok plain_laws plain_crypto_laws by (simp add: world)
  then have "\<exists>p. v6_pool_parse ''2001:db8:a::/64'' = Inr p \<and> leaves_from p src"
    by (auto simp: example_config_def)
  with start run show ?thesis by blast
qed

text \<open>C2: from the configuration to the network: after a successful startup and any requests to the admin
  API, one after the other, with further requests while the connection is being handled, a TCP connection that is made is
  one that model B over configuration base and persisted overlay allows, by name in the state in which
  the name was checked and by address in the state in which the address was checked; it goes to an
  IPv6 address that is neither loopback nor unspecified. It leaves from an address of a configured pool
  or, for a configured pool of a single address (/128, which startup accepts), from its prefix with the
  lowest bit set, which may lie outside the pool. Assumed are the laws of the crate for networks.\<close>

theorem proxy_traffic_guarded:
  assumes laws: "ipnet_laws (api_nets api)"
    and start: "startup (api_nets api) c su cfg (boot now fs) = (Some (Inr (l, s0)), es)"
    and requests: "serve_all api argon (lo_tokens l) rqs s0 = (rs, s)"
    and others: "ci_after_peek io = (\<lambda>s. snd (serve_all api argon (lo_tokens l) rqs1 s))"
      "ci_after_dns io = (\<lambda>s. snd (serve_all api argon (lo_tokens l) rqs2 s))"
    and run: "handle_tcp (api_nets api) sip (lo_pools l) io peer port s = (r, tr, s')"
      "TcpConnect src dst \<in> set tr"
  shows "(\<exists>data host. peek_sni_or_host (ci_peek io) port = Some (Inr (data, Some host))
      \<and> domain_policy_allows (at_domain_check io peer s) host
      \<and> egress_policy_allows (api_nets api) (at_egress_check io peer s) (sa_ip dst))
    \<and> is_ipv6 dst \<and> sa_ip dst \<noteq> IpV6 0 \<and> sa_ip dst \<noteq> IpV6 1
    \<and> (\<exists>t p. t \<in> set (ma_v6_pools (cf_machine cfg)) \<and> v6_pool_parse t = Inr p \<and> leaves_from p src)"
proof -
  have "server_wf (api_nets api) s" using serve_all_wf [OF laws startup_wf [OF laws start] requests] by blast
  then obtain data host where g: "peek_sni_or_host (ci_peek io) port = Some (Inr (data, Some host))"
    "domain_policy_allows (at_domain_check io peer s) host"
    "egress_policy_allows (api_nets api) (at_egress_check io peer s) (sa_ip dst)"
    using traffic_guarded [OF laws _ _ _ run] requests_keep_wf [OF laws] others by metis
  obtain addrs where a:
    "first_permitted (api_nets api) (ap_egress_filter (at_egress_check io peer s)) addrs = Some dst"
    "pick_outgoing sip (lo_pools l) (fst (peer_binding (ci_now io) (sa_ip peer) s)) (sa_ip peer) (sa_ip dst)
       (sa_port peer) port = Some (Some src)"
    using handle_tcp_connect [OF run] by metis
  have "lo_pools l \<noteq> []" using a(2) by (auto simp: pick_outgoing_def)
  then obtain p k where p: "p \<in> set (lo_pools l)" "src = host_at p k"
    using a(2) pick_outgoing_cases by (metis option.inject)
  have "leaves_from p src"
    using p startup_pools_wf [OF start] host_at_leaves_from by (metis list_all_iff)
  moreover obtain t where "t \<in> set (ma_v6_pools (cf_machine cfg))" "v6_pool_parse t = Inr p"
    using pool_text [OF start p(1)] by blast
  ultimately show ?thesis
    using g first_permittedD [OF a(1)] policy_never_local [OF laws g(3)] by blast
qed

theorem proxy_traffic_guarded_witness:
  "\<exists>l s es io src t p. startup plain_ops plain_codec all_ok example_config (boot 0 example_boot_fs) = (Some (Inr (l, s)), es)
     \<and> TcpConnect src example_dst \<in> set (fst (snd (handle_tcp plain_ops example_sip (lo_pools l) io
           \<lparr>sa_ip = IpV4 1, sa_port = 5\<rparr> 80 s)))
     \<and> t \<in> set (ma_v6_pools (cf_machine example_config)) \<and> v6_pool_parse t = Inr p \<and> leaves_from p src"
proof -
  let ?peer = "\<lparr>sa_ip = IpV4 1, sa_port = 5\<rparr> :: socket_addr"
  obtain l s es where start: "startup plain_ops plain_codec all_ok example_config (boot 0 example_boot_fs)
      = (Some (Inr (l, s)), es)"
    and pools: "lo_pools l = example_pools"
    and init: "initialised plain_ops plain_codec all_ok example_config example_boot_fs s"
    using example_started by blast
  let ?idle = "\<lambda>s. snd (serve_all example_api example_argon (lo_tokens l) [] s)"
  define io where "io = example_io\<lparr>ci_dns := (\<lambda>t. Some [example_dst]), ci_after_peek := ?idle, ci_after_dns := ?idle\<rparr>"
  have io: "ci_dns io (lookup_text ''a.b'' 80) = Some [example_dst]" "lo_pools l \<noteq> []"
    "ci_socket io" "ci_freebind io" "ci_bind io" "ci_connect io" "ci_copy io = Some (10, 20)"
    "ci_after_peek io = ?idle" "ci_after_dns io = ?idle"
    by (simp_all add: io_def example_io_def pools example_pools_def)
  have peek: "peek_sni_or_host (ci_peek io) 80 = Some (Inr (example_http, Some ''a.b''))"
    using example_peek by (simp add: io_def)
  have states: "at_domain_check io ?peer s = snd (peer_binding (ci_now io) (sa_ip ?peer) s)"
    "at_egress_check io ?peer s = snd (peer_binding (ci_now io) (sa_ip ?peer) s)"
    by (simp_all add: at_domain_check_def at_egress_check_def io)
  have wf: "live_domain s" "live_egress plain_ops s" using init by (simp_all add: initialised_def server_wf_def)
  have "host_allowed (ap_domain_filter s) ''a.b''"
    using live_domain_allows [OF wf(1), of "''a.b''"] example_policy(1) [OF init] by simp
  then have h1: "host_allowed (ap_domain_filter (at_domain_check io ?peer s)) ''a.b''"
    by (simp add: states peer_binding_filters)
  have "egress_allowed plain_ops (ap_egress_filter s) (sa_ip example_dst)"
    using live_egress_allows [OF plain_laws wf(2)] example_policy(2) [OF init] by blast
  then have h2: "first_permitted plain_ops (ap_egress_filter (at_egress_check io ?peer s)) [example_dst] = Some example_dst"
    by (simp add: states peer_binding_filters first_permitted_def is_ipv6_def example_dst_def)
  obtain src where run: "handle_tcp plain_ops example_sip (lo_pools l) io ?peer 80 s
      = (Some (Inr ()), [Lookup (lookup_text ''a.b'' 80), TcpBind src, TcpConnect src example_dst, TcpCopy 10 20],
         at_egress_check io ?peer s)"
    using handle_tcp_success [OF peek h1 io(1) h2 io(2-7), of example_sip] unfolding Let_def by blast
  from proxy_traffic_guarded [where api = example_api and rqs = "[]" and argon = example_argon and rs = "[]"
      and s = s and ?rqs1.0 = "[]" and ?rqs2.0 = "[]" and dst = example_dst and src = src,
      unfolded example_api_simps, OF plain_laws start _ _ _ run]
  have "\<exists>t p. t \<in> set (ma_v6_pools (cf_machine example_config)) \<and> v6_pool_parse t = Inr p \<and> leaves_from p src"
    using io(8,9) by simp
  with start run show ?thesis by (metis fst_conv list.set_intros snd_conv)
qed

text \<open>C3: from the configuration to the network, for QUIC: beside the admin API, whose requests come one after the other, no run of the
  listener after a successful startup opens a session that the policy did not allow: model B over
  configuration base and persisted overlay allowed the name at one moment of the run and the address at
  a later one; the session goes to port 443 of an IPv6 address that is neither loopback nor
  unspecified, from a socket bound to an address of a configured pool or, for a configured pool of a
  single address (/128, which startup accepts), to its prefix with the lowest bit set, which may lie
  outside the pool. Assumed are the laws of the crates for networks and for the QUIC keys, and that the
  resolver answers at the port it was asked for.\<close>

theorem proxy_sessions_guarded:
  assumes laws: "ipnet_laws (api_nets api)" "crypto_laws (qw_crypto w)" "dns_ports w"
    and start: "startup (api_nets api) c su cfg (boot now fs) = (Some (Inr (l, app.truncate s0)), es)"
    and world: "qw_nets w = api_nets api" "qw_pools w = lo_pools l" and s0: "fresh_listener s0"
    and run: "proxy_steps api argon (lo_tokens l) w s0 s" "Forwarding peer sni n src dst \<in> set (ls_trace s)"
  shows "(\<exists>s1 s2. proxy_steps api argon (lo_tokens l) w s0 s1 \<and> proxy_steps api argon (lo_tokens l) w s1 s2
      \<and> proxy_steps api argon (lo_tokens l) w s2 s
      \<and> domain_policy_allows s1 sni \<and> egress_policy_allows (api_nets api) s2 (sa_ip dst))
    \<and> is_ipv6 dst \<and> sa_port dst = 443 \<and> sa_ip dst \<noteq> IpV6 0 \<and> sa_ip dst \<noteq> IpV6 1 \<and> ls_sockets s ! n = src
    \<and> (\<exists>t p. t \<in> set (ma_v6_pools (cf_machine cfg)) \<and> v6_pool_parse t = Inr p \<and> leaves_from p src)"
proof -
  have wf: "server_wf (api_nets api) s0" using startup_wf [OF laws(1) start] by (simp add: server_wf_truncate)
  have dns: "world_ok w"
    using startup_pools_wf [OF start] laws(3) by (simp add: world_ok_def world(2) list_all_iff)
  note guarded = sessions_guarded [OF laws(1,2) world(1) s0 wf run]
  have "listener_ok (qw_pools w) s" using quic_steps_ok [OF proxy_steps_quic [OF run(1)] dns s0] .
  then have ok: "is_ipv6 dst" "sa_port dst = 443" "ls_sockets s ! n = src" "\<exists>p \<in> set (qw_pools w). leaves_from p src"
    using run(2) unfolding listener_ok_def forwarding_ok_def by blast+
  obtain p where p: "p \<in> set (lo_pools l)" "leaves_from p src" using ok(4) world(2) by auto
  obtain t where "t \<in> set (ma_v6_pools (cf_machine cfg))" "v6_pool_parse t = Inr p"
    using pool_text [OF start p(1)] by blast
  then show ?thesis using guarded ok(1-3) p(2) policy_never_local [OF laws(1)] by blast
qed

theorem proxy_sessions_guarded_witness:
  "\<exists>l a es s src. startup plain_ops plain_codec all_ok example_config (boot 0 example_boot_fs) = (Some (Inr (l, a)), es)
     \<and> proxy_steps example_api example_argon (lo_tokens l) (open_world (lo_pools l)) (listening a) s
     \<and> Forwarding quic_peer ''a.b'' 0 src (example_dst\<lparr>sa_port := 443\<rparr>) \<in> set (ls_trace s)
     \<and> (\<exists>p. v6_pool_parse ''2001:db8:a::/64'' = Inr p \<and> leaves_from p (ls_sockets s ! 0))"
proof -
  obtain l a es where start: "startup plain_ops plain_codec all_ok example_config (boot 0 example_boot_fs)
      = (Some (Inr (l, a)), es)"
    and pools: "lo_pools l = example_pools"
    and init: "initialised plain_ops plain_codec all_ok example_config example_boot_fs a"
    using example_started by blast
  have wf: "live_domain a" "live_egress plain_ops a" using init by (simp_all add: initialised_def server_wf_def)
  have "host_allowed (ap_domain_filter a) ''a.b''"
    using live_domain_allows [OF wf(1), of "''a.b''"] example_policy(1) [OF init] by simp
  moreover have "egress_allowed plain_ops (ap_egress_filter a) (sa_ip example_dst)"
    using live_egress_allows [OF plain_laws wf(2)] example_policy(2) [OF init] by blast
  moreover have "lo_pools l \<noteq> []" by (simp add: pools example_pools_def)
  ultimately obtain s src where run: "proxy_steps example_api example_argon (lo_tokens l) (open_world (lo_pools l)) (listening a) s"
    and fwd: "Forwarding quic_peer ''a.b'' 0 src (example_dst\<lparr>sa_port := 443\<rparr>) \<in> set (ls_trace s)"
    using example_quic_session by metis
  have world: "qw_nets (open_world (lo_pools l)) = api_nets example_api" "qw_pools (open_world (lo_pools l)) = lo_pools l"
    "crypto_laws (qw_crypto (open_world (lo_pools l)))" "dns_ports (open_world (lo_pools l))"
    using plain_crypto_laws by (auto simp: open_world_def dns_ports_def dest!: lookup_text_inject)
  have laws: "ipnet_laws (api_nets example_api)" using plain_laws by simp
  have start': "startup (api_nets example_api) plain_codec all_ok example_config (boot 0 example_boot_fs)
      = (Some (Inr (l, app.truncate (listening a))), es)" using start by simp
  from proxy_sessions_guarded [OF laws world(3,4) start' world(1,2) _ run fwd]
  have "\<exists>t p. t \<in> set (ma_v6_pools (cf_machine example_config)) \<and> v6_pool_parse t = Inr p \<and> leaves_from p (ls_sockets s ! 0)"
    by auto
  then have "\<exists>p. v6_pool_parse ''2001:db8:a::/64'' = Inr p \<and> leaves_from p (ls_sockets s ! 0)"
    by (auto simp: example_config_def)
  with start run fwd show ?thesis by blast
qed

end
